(* ===== verification/Prelude.thy ===== *)
theory Prelude
  imports Complex_Main "HOL-Library.Word" "HOL-Library.Signed_Division"
begin

text \<open>
  Shared vocabulary of the development: the machine integer types of the C sources, C's
  truncating division on \<open>int\<close>, the lemma collections the components fill, and the generic
  facts on words and lists that their proofs share.
\<close>

unbundle bit_operations_syntax

section \<open>Machine integers\<close>

type_synonym u8 = "8 word"
type_synonym u32 = "32 word"
type_synonym u64 = "64 word"

text \<open>
  The collections: \<open>c_arith\<close> holds the rewrites from C arithmetic to the library's, and
  \<open>frame\<close> the facts that an operation leaves a part of the state alone.
\<close>

named_theorems c_arith \<open>C integer arithmetic in terms of the library operations\<close>
named_theorems frame \<open>parts of the state an operation does not change\<close>

lemma sdiv_nonneg [c_arith]: "0 \<le> a \<Longrightarrow> 0 \<le> b \<Longrightarrow> a sdiv b = a div (b::int)"
  by (cases "a = 0"; cases "b = 0") (simp_all add: signed_divide_int_def)

lemma smod_nonneg [c_arith]: "0 \<le> a \<Longrightarrow> 0 \<le> b \<Longrightarrow> a smod b = a mod (b::int)"
  by (cases "a = 0") (simp_all add: signed_modulo_int_def)

section \<open>Words\<close>

lemma bit_word_32_iff: "bit (w :: u32) n \<longleftrightarrow> n < 32 \<and> bit w n"
  using bit_imp_le_length [of w n] by auto

lemma and_FF_eq_take_bit: "w AND 0xFF = take_bit 8 (w :: u32)"
  by (simp add: take_bit_eq_mask mask_numeral)

lemma unat_mask_8_less: "unat (w AND 0xFF :: u32) < 256"
  using take_bit_nat_less_exp [of 8 "unat w"]
  by (simp add: and_FF_eq_take_bit unsigned_take_bit_eq)

lemma ucast_ucast_id_8: "ucast (ucast c :: u32) = (c :: u8)"
  by (rule bit_eqI) (auto simp: bit_simps dest: bit_imp_le_length)

lemma xor_right_cancel_word: "x XOR a = y XOR a \<longleftrightarrow> x = (y :: 'a::len word)"
  by (metis xor.assoc xor.right_neutral xor_self_eq)

lemma xor_left_cancel_word: "a XOR x = a XOR y \<longleftrightarrow> x = (y :: 'a::len word)"
  by (metis xor.commute xor_right_cancel_word)

lemma push_bit_drop_bit_id:
  assumes "\<And>n. bit w n \<Longrightarrow> k \<le> n"
  shows "push_bit k (drop_bit k w) = (w :: 'a::len word)"
proof (rule bit_eqI)
  fix n
  show "bit (push_bit k (drop_bit k w)) n = bit w n"
    by (cases "k \<le> n") (auto simp: bit_simps dest: assms bit_imp_le_length)
qed

section \<open>Lists\<close>

text \<open>A list of pairs of neighbours, laid out flat.\<close>

lemma nth_concat_pairs:
  "i < length xs \<Longrightarrow>
     concat (map (\<lambda>x. [f x, g x]) xs) ! (2 * i) = f (xs ! i) \<and>
     concat (map (\<lambda>x. [f x, g x]) xs) ! (2 * i + 1) = g (xs ! i)"
proof (induction xs arbitrary: i)
  case Nil
  then show ?case by simp
next
  case (Cons x xs)
  then show ?case by (cases i) simp_all
qed

lemma those_map_Some:
  "(\<And>x. x \<in> set xs \<Longrightarrow> f x \<noteq> None) \<Longrightarrow> those (map f xs) = Some (map (the \<circ> f) xs)"
  by (induction xs) (auto split: option.splits)

lemma those_map_SomeD:
  "those (map f xs) = Some ys \<Longrightarrow> list_all2 (\<lambda>x y. f x = Some y) xs ys"
  by (induction xs arbitrary: ys) (auto split: option.splits)

lemma list_all2_in_set2:
  "list_all2 P xs ys \<Longrightarrow> y \<in> set ys \<Longrightarrow> \<exists>x \<in> set xs. P x y"
  by (induction rule: list_all2_induct) auto

section \<open>Memory cells\<close>

text \<open>
  A memory of independently addressed cells: what the code relies on where it writes a batch of
  cells and another party reads them.
\<close>

locale cell_memory =
  fixes wr :: "'m \<Rightarrow> 'k \<Rightarrow> 'v \<Rightarrow> 'm" and rd :: "'m \<Rightarrow> 'k \<Rightarrow> 'v"
  assumes rd_wr_same: "rd (wr m k v) k = v"
    and rd_wr_other: "k \<noteq> l \<Longrightarrow> rd (wr m k v) l = rd m l"
begin

lemma rd_fold_other:
  "k \<notin> fst ` set kvs \<Longrightarrow> rd (fold (\<lambda>(k, v) m. wr m k v) kvs m) k = rd m k"
  by (induction kvs arbitrary: m) (auto simp: rd_wr_other)

lemma rd_fold_mem:
  "(k, v) \<in> set kvs \<Longrightarrow> (\<And>w. (k, w) \<in> set kvs \<Longrightarrow> w = v) \<Longrightarrow>
     rd (fold (\<lambda>(k, v) m. wr m k v) kvs m) k = v"
proof (induction kvs arbitrary: m)
  case Nil
  then show ?case by simp
next
  case (Cons kv kvs)
  show ?case
  proof (cases "k \<in> fst ` set kvs")
    case True
    then obtain w where "(k, w) \<in> set kvs" by auto
    then have "(k, v) \<in> set kvs" using Cons.prems(2) [of w] by simp
    then have "rd (fold (\<lambda>(k, v) m. wr m k v) kvs m') k = v" for m'
      by (rule Cons.IH) (rule Cons.prems(2), simp)
    then show ?thesis by (cases kv) simp
  next
    case False
    then have "kv = (k, v)" using Cons.prems(1) by (auto simp: image_iff)
    with False show ?thesis by (simp add: rd_fold_other rd_wr_same)
  qed
qed

end

section \<open>State machines\<close>

text \<open>
  A program as a step relation with an invariant that each step keeps; \<open>reach\<close> is what any
  sequence of steps leads to.
\<close>

inductive reach :: "('s \<Rightarrow> 's \<Rightarrow> bool) \<Rightarrow> 's \<Rightarrow> 's \<Rightarrow> bool" for step :: "'s \<Rightarrow> 's \<Rightarrow> bool" and s0 :: 's where
  reach_init: "reach step s0 s0"
| reach_step: "reach step s0 s \<Longrightarrow> step s s' \<Longrightarrow> reach step s0 s'"

locale inductive_invariant =
  fixes step :: "'s \<Rightarrow> 's \<Rightarrow> bool" and inv :: "'s \<Rightarrow> bool"
  assumes inv_step: "inv s \<Longrightarrow> step s s' \<Longrightarrow> inv s'"
begin

lemma inv_reach: "reach step s0 s \<Longrightarrow> inv s0 \<Longrightarrow> inv s"
  by (induction rule: reach.induct) (auto intro: inv_step)

end

end
