(* ===== verification/Crc.thy ===== *)
theory Crc
  imports Prelude
begin

text \<open>
  The checksum of \<^verbatim>\<open>src/drv/crc.c\<close>, used by the DAQ configuration reader and by the filter
  coefficient loader: the lookup table, the update over a byte buffer and the final mixing-in
  of the length. The reference is the bit-serial division by the polynomial 0x04C11DB7; the
  table-driven update is proved equal to it, and from there that a burst error of at most
  32 bits changes the checksum.
\<close>

unbundle bit_operations_syntax

section \<open>The code\<close>

definition crctab :: "u32 list" where
  "crctab = [
   0x0, 0x04C11DB7, 0x09823B6E, 0x0D4326D9, 0x130476DC, 0x17C56B6B,
   0x1A864DB2, 0x1E475005, 0x2608EDB8, 0x22C9F00F, 0x2F8AD6D6, 0x2B4BCB61,
   0x350C9B64, 0x31CD86D3, 0x3C8EA00A, 0x384FBDBD, 0x4C11DB70, 0x48D0C6C7,
   0x4593E01E, 0x4152FDA9, 0x5F15ADAC, 0x5BD4B01B, 0x569796C2, 0x52568B75,
   0x6A1936C8, 0x6ED82B7F, 0x639B0DA6, 0x675A1011, 0x791D4014, 0x7DDC5DA3,
   0x709F7B7A, 0x745E66CD, 0x9823B6E0, 0x9CE2AB57, 0x91A18D8E, 0x95609039,
   0x8B27C03C, 0x8FE6DD8B, 0x82A5FB52, 0x8664E6E5, 0xBE2B5B58, 0xBAEA46EF,
   0xB7A96036, 0xB3687D81, 0xAD2F2D84, 0xA9EE3033, 0xA4AD16EA, 0xA06C0B5D,
   0xD4326D90, 0xD0F37027, 0xDDB056FE, 0xD9714B49, 0xC7361B4C, 0xC3F706FB,
   0xCEB42022, 0xCA753D95, 0xF23A8028, 0xF6FB9D9F, 0xFBB8BB46, 0xFF79A6F1,
   0xE13EF6F4, 0xE5FFEB43, 0xE8BCCD9A, 0xEC7DD02D, 0x34867077, 0x30476DC0,
   0x3D044B19, 0x39C556AE, 0x278206AB, 0x23431B1C, 0x2E003DC5, 0x2AC12072,
   0x128E9DCF, 0x164F8078, 0x1B0CA6A1, 0x1FCDBB16, 0x018AEB13, 0x054BF6A4,
   0x0808D07D, 0x0CC9CDCA, 0x7897AB07, 0x7C56B6B0, 0x71159069, 0x75D48DDE,
   0x6B93DDDB, 0x6F52C06C, 0x6211E6B5, 0x66D0FB02, 0x5E9F46BF, 0x5A5E5B08,
   0x571D7DD1, 0x53DC6066, 0x4D9B3063, 0x495A2DD4, 0x44190B0D, 0x40D816BA,
   0xACA5C697, 0xA864DB20, 0xA527FDF9, 0xA1E6E04E, 0xBFA1B04B, 0xBB60ADFC,
   0xB6238B25, 0xB2E29692, 0x8AAD2B2F, 0x8E6C3698, 0x832F1041, 0x87EE0DF6,
   0x99A95DF3, 0x9D684044, 0x902B669D, 0x94EA7B2A, 0xE0B41DE7, 0xE4750050,
   0xE9362689, 0xEDF73B3E, 0xF3B06B3B, 0xF771768C, 0xFA325055, 0xFEF34DE2,
   0xC6BCF05F, 0xC27DEDE8, 0xCF3ECB31, 0xCBFFD686, 0xD5B88683, 0xD1799B34,
   0xDC3ABDED, 0xD8FBA05A, 0x690CE0EE, 0x6DCDFD59, 0x608EDB80, 0x644FC637,
   0x7A089632, 0x7EC98B85, 0x738AAD5C, 0x774BB0EB, 0x4F040D56, 0x4BC510E1,
   0x46863638, 0x42472B8F, 0x5C007B8A, 0x58C1663D, 0x558240E4, 0x51435D53,
   0x251D3B9E, 0x21DC2629, 0x2C9F00F0, 0x285E1D47, 0x36194D42, 0x32D850F5,
   0x3F9B762C, 0x3B5A6B9B, 0x0315D626, 0x07D4CB91, 0x0A97ED48, 0x0E56F0FF,
   0x1011A0FA, 0x14D0BD4D, 0x19939B94, 0x1D528623, 0xF12F560E, 0xF5EE4BB9,
   0xF8AD6D60, 0xFC6C70D7, 0xE22B20D2, 0xE6EA3D65, 0xEBA91BBC, 0xEF68060B,
   0xD727BBB6, 0xD3E6A601, 0xDEA580D8, 0xDA649D6F, 0xC423CD6A, 0xC0E2D0DD,
   0xCDA1F604, 0xC960EBB3, 0xBD3E8D7E, 0xB9FF90C9, 0xB4BCB610, 0xB07DABA7,
   0xAE3AFBA2, 0xAAFBE615, 0xA7B8C0CC, 0xA379DD7B, 0x9B3660C6, 0x9FF77D71,
   0x92B45BA8, 0x9675461F, 0x8832161A, 0x8CF30BAD, 0x81B02D74, 0x857130C3,
   0x5D8A9099, 0x594B8D2E, 0x5408ABF7, 0x50C9B640, 0x4E8EE645, 0x4A4FFBF2,
   0x470CDD2B, 0x43CDC09C, 0x7B827D21, 0x7F436096, 0x7200464F, 0x76C15BF8,
   0x68860BFD, 0x6C47164A, 0x61043093, 0x65C52D24, 0x119B4BE9, 0x155A565E,
   0x18197087, 0x1CD86D30, 0x029F3D35, 0x065E2082, 0x0B1D065B, 0x0FDC1BEC,
   0x3793A651, 0x3352BBE6, 0x3E119D3F, 0x3AD08088, 0x2497D08D, 0x2056CD3A,
   0x2D15EBE3, 0x29D4F654, 0xC5A92679, 0xC1683BCE, 0xCC2B1D17, 0xC8EA00A0,
   0xD6AD50A5, 0xD26C4D12, 0xDF2F6BCB, 0xDBEE767C, 0xE3A1CBC1, 0xE760D676,
   0xEA23F0AF, 0xEEE2ED18, 0xF0A5BD1D, 0xF464A0AA, 0xF9278673, 0xFDE69BC4,
   0x89B8FD09, 0x8D79E0BE, 0x803AC667, 0x84FBDBD0, 0x9ABC8BD5, 0x9E7D9662,
   0x933EB0BB, 0x97FFAD0C, 0xAFB010B1, 0xAB710D06, 0xA6322BDF, 0xA2F33668,
   0xBCB4666D, 0xB8757BDA, 0xB5365D03, 0xB1F740B4]"

text \<open>One pass of the loop body; \<open>char\<close> is signed on the target, so the byte is sign-extended
  before the exclusive or, and the mask removes the extension again.\<close>

definition crc_step :: "u32 \<Rightarrow> u8 \<Rightarrow> u32" where
  "crc_step crc c =
     push_bit 8 crc XOR crctab ! unat ((drop_bit 24 crc XOR scast c) AND 0xFF)"

fun crc_ptr :: "u8 list \<Rightarrow> u32 \<Rightarrow> u32" where
  "crc_ptr [] crc = crc"
| "crc_ptr (c # cp) crc = crc_ptr cp (crc_step crc c)"

function crc_len_loop :: "u32 \<Rightarrow> u32 \<Rightarrow> u32" where
  "crc_len_loop bytes crc =
     (if bytes > 0
      then crc_len_loop (drop_bit 8 bytes)
             (push_bit 8 crc XOR crctab ! unat ((drop_bit 24 crc XOR bytes) AND 0xFF))
      else crc)"
  by pat_completeness auto
termination
proof (relation "measure (\<lambda>(bytes, crc). unat bytes)", goal_cases)
  case 1
  show ?case by simp
next
  case (2 bytes crc)
  then have "0 < unat bytes" by (simp add: word_less_nat_alt)
  then have "unat bytes div 2 ^ 8 < unat bytes" by simp
  then show ?case by (simp add: drop_bit_eq_div unat_div)
qed

declare crc_len_loop.simps [simp del]

definition crc_len :: "u32 \<Rightarrow> u32 \<Rightarrow> u32" where
  "crc_len bytes crc = NOT (crc_len_loop bytes crc) AND 0xFFFFFFFF"

section \<open>The bit-serial reference\<close>

definition crc_shift :: "u32 \<Rightarrow> u32" where
  "crc_shift x = (if bit x 31 then push_bit 1 x XOR 0x04C11DB7 else push_bit 1 x)"

fun crc_bitwise :: "u8 list \<Rightarrow> u32 \<Rightarrow> u32" where
  "crc_bitwise [] crc = crc"
| "crc_bitwise (c # cp) crc =
     crc_bitwise cp ((crc_shift ^^ 8) (crc XOR push_bit 24 (ucast c)))"

lemma crc_shift_xor: "crc_shift (x XOR y) = crc_shift x XOR crc_shift y"
  by (rule bit_eqI) (auto simp: crc_shift_def bit_simps)

lemma crc_shift_pow_xor: "(crc_shift ^^ n) (x XOR y) = (crc_shift ^^ n) x XOR (crc_shift ^^ n) y"
  by (induction n) (simp_all add: crc_shift_xor)

lemma crc_shift_pow_zero [simp]: "(crc_shift ^^ n) 0 = 0"
  by (induction n) (simp_all add: crc_shift_def [of 0])

lemma crc_shift_pow_low:
  assumes "\<And>k. 32 - n \<le> k \<Longrightarrow> \<not> bit x k" and "n \<le> 32"
  shows "(crc_shift ^^ n) x = push_bit n x"
  using assms
proof (induction n)
  case 0
  then show ?case by simp
next
  case (Suc n)
  then have IH: "(crc_shift ^^ n) x = push_bit n x" by simp
  have "\<not> bit (push_bit n x) 31"
    using Suc.prems by (auto simp: bit_simps)
  then show ?case
    by (simp add: IH crc_shift_def [of "push_bit n x"] push_bit_double mult.commute)
qed

lemma length_crctab: "length crctab = 256"
  by (simp add: crctab_def)

lemma crctab_pairs:
  "concat (map (\<lambda>t. [crc_shift t, crc_shift t XOR 0x04C11DB7]) (take 128 crctab)) = crctab"
  by (simp add: crctab_def crc_shift_def)

lemma crc_shift_pow_byte_double:
  assumes "j < 128"
  shows "(crc_shift ^^ 8) (push_bit 24 (of_nat (2 * j))) =
         crc_shift ((crc_shift ^^ 8) (push_bit 24 (of_nat j)))"
proof -
  have "\<not> bit j 7"
    using assms by (simp add: bit_iff_odd)
  then have "\<not> bit (of_nat j :: u32) 7"
    by (simp add: bit_of_nat_iff)
  then have "\<not> bit (push_bit 24 (of_nat j :: u32)) 31"
    by (simp add: bit_simps)
  then have "crc_shift (push_bit 24 (of_nat j)) = push_bit 24 (of_nat (2 * j))"
    by (simp add: crc_shift_def push_bit_eq_mult)
  then show ?thesis
    by (metis funpow_swap1)
qed

lemma crc_shift_pow_one: "(crc_shift ^^ 8) (push_bit 24 1) = 0x04C11DB7"
  by code_simp

lemma crctab_nth: "i < 256 \<Longrightarrow> crctab ! i = (crc_shift ^^ 8) (push_bit 24 (of_nat i))"
proof (induction i rule: less_induct)
  case (less i)
  show ?case
  proof (cases "i = 0")
    case True
    then show ?thesis by (simp add: crctab_def crc_shift_pow_zero)
  next
    case False
    define j where "j = i div 2"
    have j: "j < i" "j < 128" "i = 2 * j \<or> i = 2 * j + 1"
      using False less.prems by (auto simp: j_def)
    have len: "j < length (take 128 crctab)"
      using j by (simp add: length_crctab)
    have nth: "crctab ! (2 * j) = crc_shift (crctab ! j)"
      "crctab ! (2 * j + 1) = crc_shift (crctab ! j) XOR 0x04C11DB7"
      using nth_concat_pairs [OF len, of crc_shift "\<lambda>t. crc_shift t XOR 0x04C11DB7"] j
      by (simp_all add: crctab_pairs)
    have IH: "crctab ! j = (crc_shift ^^ 8) (push_bit 24 (of_nat j))"
      using less.IH j by simp
    have even: "crctab ! (2 * j) = (crc_shift ^^ 8) (push_bit 24 (of_nat (2 * j)))"
      using nth(1) IH crc_shift_pow_byte_double [OF j(2)] by simp
    have "of_nat (2 * j + 1) = (of_nat (2 * j) XOR 1 :: u32)"
      by (simp add: xor_one_eq)
    then have "(crc_shift ^^ 8) (push_bit 24 (of_nat (2 * j + 1))) =
               (crc_shift ^^ 8) (push_bit 24 (of_nat (2 * j))) XOR 0x04C11DB7"
      by (simp only: push_bit_xor crc_shift_pow_xor crc_shift_pow_one)
    then have "crctab ! (2 * j + 1) = (crc_shift ^^ 8) (push_bit 24 (of_nat (2 * j + 1)))"
      using nth even by simp
    with even j(3) show ?thesis by auto
  qed
qed

section \<open>The table-driven update is the bit-serial one\<close>

lemma byte_index:
  "(drop_bit 24 crc XOR scast (c :: u8)) AND 0xFF = (drop_bit 24 crc XOR ucast c :: u32)"
proof (rule bit_eqI)
  fix n
  show "bit ((drop_bit 24 crc XOR scast c) AND 0xFF) n =
        bit (drop_bit 24 crc XOR ucast c :: u32) n"
  proof (cases "n < 8")
    case True
    then show ?thesis by (simp add: and_FF_eq_take_bit bit_simps)
  next
    case False
    then have "\<not> bit c n" "\<not> bit crc (24 + n)"
      using bit_imp_le_length [of c n] bit_imp_le_length [of crc "24 + n"] by auto
    with False show ?thesis by (simp add: and_FF_eq_take_bit bit_simps)
  qed
qed

lemma crc_step_eq: "crc_step crc c = (crc_shift ^^ 8) (crc XOR push_bit 24 (ucast c))"
proof -
  let ?i = "drop_bit 24 crc XOR ucast c :: u32"
  have "crc XOR push_bit 24 (ucast c) = push_bit 24 ?i XOR take_bit 24 crc"
    by (rule bit_eqI) (auto simp: bit_simps)
  moreover have "(crc_shift ^^ 8) (take_bit 24 crc) = push_bit 8 crc"
  proof -
    have "(crc_shift ^^ 8) (take_bit 24 crc) = push_bit 8 (take_bit 24 crc)"
      by (rule crc_shift_pow_low) (simp_all add: bit_simps)
    also have "\<dots> = push_bit 8 crc"
      by (rule bit_eqI) (auto simp: bit_simps)
    finally show ?thesis .
  qed
  moreover have "crctab ! unat ?i = (crc_shift ^^ 8) (push_bit 24 ?i)"
    using unat_mask_8_less [of "drop_bit 24 crc XOR scast c"] crctab_nth [of "unat ?i"]
    by (simp add: byte_index)
  ultimately show ?thesis
    by (simp only: crc_step_def byte_index crc_shift_pow_xor) (simp only: xor.commute)
qed

lemma crc_ptr_bitwise: "crc_ptr cp crc = crc_bitwise cp crc"
  by (induction cp arbitrary: crc) (simp_all add: crc_step_eq)

section \<open>Streaming\<close>

text \<open>
  What the callers of \<open>crc_ptr\<close> rely on: a digest over a stream may be taken piece by piece.
  A digest whose single step loses no information about its state moreover lets a common
  suffix be cancelled.
\<close>

locale stream_digest =
  fixes upd :: "'b list \<Rightarrow> 's \<Rightarrow> 's"
  assumes upd_Nil: "upd [] s = s"
    and upd_append: "upd (xs @ ys) s = upd ys (upd xs s)"
begin

lemma upd_concat: "upd (concat xss) s = fold upd xss s"
  by (induction xss arbitrary: s) (simp_all add: upd_Nil upd_append)

end

locale reversible_digest = stream_digest +
  assumes step_inj: "upd [b] s = upd [b] t \<Longrightarrow> s = t"
begin

lemma upd_inj: "upd xs s = upd xs t \<Longrightarrow> s = t"
proof (induction xs arbitrary: s t)
  case Nil
  then show ?case by (simp add: upd_Nil)
next
  case (Cons x xs)
  then have "upd xs (upd [x] s) = upd xs (upd [x] t)"
    by (simp flip: upd_append)
  then show ?case by (blast dest: Cons.IH step_inj)
qed

lemma suffix_cancel: "upd (xs @ zs) s = upd (ys @ zs) t \<longleftrightarrow> upd xs s = upd ys t"
  by (auto simp: upd_append dest: upd_inj)

end

lemma crc_shift_inj: "crc_shift x = crc_shift y \<Longrightarrow> x = y"
proof -
  assume eq: "crc_shift x = crc_shift y"
  have top: "bit (crc_shift z) 0 = bit z 31" for z
    by (simp add: crc_shift_def bit_simps bit_0 even_xor_iff)
  have undo: "crc_shift z XOR (if bit z 31 then 0x04C11DB7 else 0) = push_bit 1 z" for z
    by (simp add: crc_shift_def xor.assoc)
  have top_eq: "bit x 31 = bit y 31"
    using eq top by metis
  have "push_bit 1 x = push_bit 1 y"
    unfolding undo [symmetric] eq top_eq ..
  then have shift: "bit (push_bit 1 x) (Suc n) = bit (push_bit 1 y) (Suc n)" for n
    by simp
  have down: "bit (push_bit 1 z) (Suc n) = bit z n" if "n < 31" for z :: u32 and n
    using that unfolding bit_push_bit_iff by simp
  have "bit x n = bit y n" if "n < 32" for n
    using that top_eq shift [of n] down [of n x] down [of n y] by (cases "n = 31") auto
  then show "x = y"
    by (intro bit_eqI) auto
qed

lemma crc_shift_pow_inj: "(crc_shift ^^ n) x = (crc_shift ^^ n) y \<Longrightarrow> x = y"
  by (induction n) (auto dest: crc_shift_inj)

lemma crc_step_inj: "crc_step s c = crc_step t c \<Longrightarrow> s = t"
  by (auto simp: crc_step_eq xor_right_cancel_word dest!: crc_shift_pow_inj)

interpretation crc: reversible_digest crc_ptr
proof
  show "crc_ptr [] s = s" for s by simp
  show "crc_ptr (xs @ ys) s = crc_ptr ys (crc_ptr xs s)" for xs ys s
    by (induction xs arbitrary: s) simp_all
  show "crc_ptr [b] s = crc_ptr [b] t \<Longrightarrow> s = t" for b s t
    by (auto dest: crc_step_inj)
qed

section \<open>Bits\<close>

text \<open>The register takes a byte in from its top bit down, and the bits of a burst of at most 32 enter it as one word.\<close>

definition bit_in :: "bool \<Rightarrow> u32" where
  "bit_in b = (if b then push_bit 31 1 else 0)"

lemma bit_bit_in: "bit (bit_in b) n \<longleftrightarrow> b \<and> n = 31"
  by (cases "n < 32") (auto simp: bit_in_def bit_push_bit_iff bit_1_iff simp del: push_bit_of_1 push_bit_numeral)

lemma bit_in_xor: "bit_in (x \<noteq> y) = bit_in x XOR bit_in y"
  by (rule bit_eqI) (auto simp: bit_bit_in bit_xor_iff)

fun bit_run :: "bool list \<Rightarrow> u32 \<Rightarrow> u32" where
  "bit_run [] s = s"
| "bit_run (b # bl) s = bit_run bl (crc_shift (s XOR bit_in b))"

definition byte_bits :: "u8 \<Rightarrow> bool list" where
  "byte_bits c = map (\<lambda>k. bit c (7 - k)) [0..<8]"

fun pack_bits :: "bool list \<Rightarrow> u32" where
  "pack_bits [] = 0"
| "pack_bits (b # bl) = bit_in b XOR drop_bit 1 (pack_bits bl)"

lemma bit_pack_bits: "bit (pack_bits bl) n \<longleftrightarrow> n < 32 \<and> 31 - n < length bl \<and> bl ! (31 - n)"
proof (induction bl arbitrary: n)
  case (Cons b bl)
  show ?case
  proof (cases "n < 31")
    case True
    then have "31 - n = Suc (31 - Suc n)" by simp
    then show ?thesis using True Cons.IH [of "Suc n"] by (simp add: bit_xor_iff bit_bit_in bit_drop_bit_eq)
  next
    case False
    then show ?thesis using Cons.IH [of "Suc n"] by (auto simp: bit_xor_iff bit_bit_in bit_drop_bit_eq)
  qed
qed simp

lemma bit_run_pack:
  "length bl \<le> 32 \<Longrightarrow> bit_run bl s = (crc_shift ^^ length bl) (s XOR pack_bits bl)"
proof (induction bl arbitrary: s)
  case (Cons b bl)
  have "push_bit 1 (drop_bit 1 (pack_bits bl)) = pack_bits bl"
    using Cons.prems by (intro push_bit_drop_bit_id) (auto simp: bit_pack_bits intro: Suc_leI gr0I)
  then have "crc_shift (drop_bit 1 (pack_bits bl)) = pack_bits bl"
    by (simp add: crc_shift_def bit_drop_bit_eq bit_pack_bits)
  then have "crc_shift (s XOR bit_in b) XOR pack_bits bl = crc_shift (s XOR pack_bits (b # bl))"
    by (simp only: pack_bits.simps crc_shift_xor xor.assoc)
  moreover have "bit_run (b # bl) s = (crc_shift ^^ length bl) (crc_shift (s XOR bit_in b) XOR pack_bits bl)"
    using Cons.IH [of "crc_shift (s XOR bit_in b)"] Cons.prems by simp
  ultimately show ?case by (simp only: length_Cons funpow_Suc_right comp_apply)
qed simp

lemma crc_step_bits: "crc_step s c = bit_run (byte_bits c) s"
proof -
  have "pack_bits (byte_bits c) = push_bit 24 (ucast c)"
  proof (rule bit_eqI)
    fix n :: nat
    have "7 - (31 - n) = n - 24" if "24 \<le> n" "n < 32" using that by simp
    then show "bit (pack_bits (byte_bits c)) n = bit (push_bit 24 (ucast c) :: u32) n"
      using bit_imp_le_length [of c "n - 24"] by (auto simp: bit_pack_bits byte_bits_def bit_simps)
  qed
  then show ?thesis using bit_run_pack [of "byte_bits c" s] by (simp add: crc_step_eq byte_bits_def)
qed

lemma bit_run_append: "bit_run (xs @ ys) s = bit_run ys (bit_run xs s)"
  by (induction xs arbitrary: s) simp_all

lemma crc_ptr_bits: "crc_ptr bs s = bit_run (concat (map byte_bits bs)) s"
  by (induction bs arbitrary: s) (simp_all add: bit_run_append crc_step_bits)

lemma bit_run_xor:
  "length xs = length ys \<Longrightarrow> bit_run xs s XOR bit_run ys t = bit_run (map2 (\<noteq>) xs ys) (s XOR t)"
proof (induction xs ys arbitrary: s t rule: list_induct2)
  case (Cons x xs y ys)
  have "crc_shift (s XOR bit_in x) XOR crc_shift (t XOR bit_in y) = crc_shift (s XOR t XOR bit_in (x \<noteq> y))"
    by (simp only: bit_in_xor flip: crc_shift_xor) (simp only: xor.assoc xor.left_commute)
  then show ?case using Cons.IH by (simp add: xor.assoc)
qed simp

lemma bit_run_quiet: "True \<notin> set bl \<Longrightarrow> bit_run bl s = (crc_shift ^^ length bl) s"
  by (induction bl arbitrary: s) (auto simp: funpow_swap1 bit_in_def)

text \<open>A burst does not cancel out.\<close>

lemma burst_remains:
  assumes "i < length bl" "bl ! i" "\<And>j. j < length bl \<Longrightarrow> bl ! j \<Longrightarrow> p \<le> j \<and> j < p + 32"
  shows "bit_run bl 0 \<noteq> 0"
proof
  assume zero: "bit_run bl 0 = 0"
  define w where "w = take 32 (drop p bl)"
  have cut: "bl = take p bl @ w @ drop 32 (drop p bl)" unfolding w_def by (simp only: append_take_drop_id)
  have quiet: "True \<notin> set (take p bl)" using assms(3) by (force simp: in_set_conv_nth)
  have "True \<notin> set (drop 32 (drop p bl))"
  proof
    assume "True \<in> set (drop 32 (drop p bl))"
    then obtain k where k: "k < length bl - (32 + p)" "bl ! (32 + p + k)" by (auto simp: in_set_conv_nth)
    then have "32 + p + k < length bl" by arith
    then show False using assms(3) [of "32 + p + k"] k(2) by simp
  qed
  note run = bit_run_quiet [OF quiet, of 0, unfolded crc_shift_pow_zero] bit_run_quiet [OF this]
  have "bit_run bl 0 = bit_run (drop 32 (drop p bl)) (bit_run w (bit_run (take p bl) 0))"
    by (subst cut) (simp only: bit_run_append)
  then have "(crc_shift ^^ length (drop 32 (drop p bl))) (bit_run w 0) = (crc_shift ^^ length (drop 32 (drop p bl))) 0"
    using zero by (simp only: run crc_shift_pow_zero)
  then have "bit_run w 0 = 0" by (rule crc_shift_pow_inj)
  then have "(crc_shift ^^ length w) (pack_bits w) = (crc_shift ^^ length w) 0"
    using bit_run_pack [of w 0] by (simp add: w_def)
  then have "pack_bits w = 0" by (rule crc_shift_pow_inj)
  moreover have "p \<le> i" "i < p + 32" using assms by auto
  then have "bit (pack_bits w) (31 - (i - p))" using assms(1,2) by (auto simp: bit_pack_bits w_def)
  ultimately show False by simp
qed

text \<open>Bit \<open>i\<close> of a byte string, counted from the top bit of its first byte.\<close>

definition byte_bit :: "u8 list \<Rightarrow> nat \<Rightarrow> bool" where
  "byte_bit bs i = bit (bs ! (i div 8)) (7 - i mod 8)"

lemma length_bits [simp]: "length (concat (map byte_bits bs)) = 8 * length bs"
  by (induction bs) (simp_all add: byte_bits_def)

lemma nth_bits: "i < 8 * length bs \<Longrightarrow> concat (map byte_bits bs) ! i = byte_bit bs i"
proof (induction bs arbitrary: i)
  case (Cons c bs)
  show ?case
  proof (cases "i < 8")
    case True
    then show ?thesis by (simp add: nth_append byte_bits_def byte_bit_def)
  next
    case False
    then have "i div 8 = Suc ((i - 8) div 8)" "i mod 8 = (i - 8) mod 8" by (simp_all add: le_div_geq le_mod_geq)
    then show ?thesis using Cons False by (simp add: nth_append byte_bits_def byte_bit_def)
  qed
qed simp

lemma byte_bit_differs:
  assumes "length bs = length ds" "bs \<noteq> ds"
  shows "\<exists>i < 8 * length bs. byte_bit bs i \<noteq> byte_bit ds i"
proof -
  obtain k where k: "k < length bs" "bs ! k \<noteq> ds ! k" using assms by (auto simp: list_eq_iff_nth_eq)
  then obtain j where j: "bit (bs ! k) j \<noteq> bit (ds ! k) j" by (metis bit_eqI)
  then have "j < 8" using bit_imp_le_length by fastforce
  define i where "i = 7 - j"
  have "i < 8" "7 - i = j" using \<open>j < 8\<close> by (simp_all add: i_def)
  then have "(8 * k + i) div 8 = k" "7 - (8 * k + i) mod 8 = j" "8 * k + i < 8 * length bs" using k(1) by simp_all
  then show ?thesis using j unfolding byte_bit_def by metis
qed

lemma crc_ptr_burst:
  assumes "length bs = length ds" "bs \<noteq> ds"
    and "\<And>i. i < 8 * length bs \<Longrightarrow> byte_bit bs i \<noteq> byte_bit ds i \<Longrightarrow> p \<le> i \<and> i < p + 32"
  shows "crc_ptr bs s \<noteq> crc_ptr ds s"
proof -
  let ?b = "concat (map byte_bits bs)" and ?d = "concat (map byte_bits ds)"
  have nth: "map2 (\<noteq>) ?b ?d ! i \<longleftrightarrow> byte_bit bs i \<noteq> byte_bit ds i" if "i < 8 * length bs" for i
    using that assms(1) by (simp add: nth_bits)
  obtain i where "i < 8 * length bs" "byte_bit bs i \<noteq> byte_bit ds i" using byte_bit_differs [OF assms(1,2)] by blast
  then have "bit_run (map2 (\<noteq>) ?b ?d) 0 \<noteq> 0"
    using assms(1,3) nth by (intro burst_remains [of i _ p]) simp_all
  then have "bit_run ?b s XOR bit_run ?d s \<noteq> 0" using bit_run_xor [of ?b ?d s s] assms(1) by simp
  then show ?thesis by (auto simp: crc_ptr_bits)
qed

section \<open>The length\<close>

text \<open>The loop of \<open>crc_len\<close> feeds the length into the register, least significant byte first and
  without its leading zeros.\<close>

function le_bytes :: "u32 \<Rightarrow> u8 list" where
  "le_bytes n = (if n > 0 then ucast n # le_bytes (drop_bit 8 n) else [])"
  by pat_completeness auto
termination
proof (relation "measure unat", goal_cases)
  case (2 n)
  then have "0 < unat n" by (simp add: word_less_nat_alt)
  then have "unat n div 2 ^ 8 < unat n" by simp
  then show ?case by (simp add: drop_bit_eq_div unat_div)
qed simp

declare le_bytes.simps [simp del]

lemma length_byte_index:
  "(drop_bit 24 crc XOR n) AND 0xFF = (drop_bit 24 crc XOR scast (ucast n :: u8)) AND (0xFF :: u32)"
  unfolding and_FF_eq_take_bit by (rule bit_eqI) (auto simp: bit_simps)

lemma crc_step_length:
  "push_bit 8 crc XOR crctab ! unat ((drop_bit 24 crc XOR n) AND 0xFF) = crc_step crc (ucast n)"
  unfolding crc_step_def by (subst length_byte_index) (rule refl)

lemma crc_len_loop_eq: "crc_len_loop n crc = crc_ptr (le_bytes n) crc"
proof (induction n crc rule: crc_len_loop.induct)
  case (1 n crc)
  then show ?case
    by (subst crc_len_loop.simps, subst le_bytes.simps)
       (simp add: crc_step_length)
qed

lemma and_FFFFFFFF [simp]: "w AND 0xFFFFFFFF = (w :: u32)"
proof -
  have *: "(0xFFFFFFFF :: u32) = -1" by simp
  show ?thesis unfolding * by (rule and.right_neutral)
qed

lemma crc_len_eq: "crc_len n crc = NOT (crc_ptr (le_bytes n) crc)"
  unfolding crc_len_def and_FFFFFFFF crc_len_loop_eq ..

section \<open>Properties\<close>

text \<open>C11: the table-driven checksum computes the bit-serial CRC with polynomial 0x04C11DB7:
  the update over a buffer, and the final value, which feeds in the length and complements.\<close>

theorem crc_is_bit_serial_division:
  "crc_ptr cp crc = crc_bitwise cp crc \<and> crc_len n crc = NOT (crc_bitwise (le_bytes n) crc)"
  by (simp add: crc_ptr_bitwise crc_len_eq)

text \<open>C24: two byte strings of one length whose differences lie within 32 consecutive bits have different final
  checksums, wherever the window lies, also across byte boundaries, and whatever the seed. The bits are counted from the
  top bit of each byte, the order in which the register takes them in.\<close>

theorem crc_detects_bursts:
  assumes "length bs = length ds" "bs \<noteq> ds"
    and "\<forall>i < 8 * length bs. byte_bit bs i \<noteq> byte_bit ds i \<longrightarrow> p \<le> i \<and> i < p + 32"
  shows "crc_len n (crc_ptr bs s) \<noteq> crc_len n (crc_ptr ds s)"
proof
  assume "crc_len n (crc_ptr bs s) = crc_len n (crc_ptr ds s)"
  then have "NOT (NOT (crc_ptr (le_bytes n) (crc_ptr bs s))) = NOT (NOT (crc_ptr (le_bytes n) (crc_ptr ds s)))"
    by (simp only: crc_len_eq)
  then have "crc_ptr bs s = crc_ptr ds s" by (auto dest: crc.upd_inj)
  with crc_ptr_burst [OF assms(1,2), of p s] assms(3) show False by blast
qed

text \<open>A burst of 32 bits over five bytes, from bit 11 to bit 42 of the string.\<close>

theorem crc_detects_bursts_witness:
  "crc_len 6 (crc_ptr [1, 0x12, 0, 0xFF, 7, 0x35] 0) \<noteq> crc_len 6 (crc_ptr [1, 0x02, 0xFF, 0, 7, 0x15] 0)"
proof -
  have "list_all (\<lambda>i. byte_bit [1, 0x12, 0, 0xFF, 7, 0x35] i \<noteq> byte_bit [1, 0x02, 0xFF, 0, 7, 0x15] i \<longrightarrow> 11 \<le> i \<and> i < 11 + 32) [0..<48]"
    by (simp add: byte_bit_def upt_conv_Cons)
  then show ?thesis
    using crc_detects_bursts [of "[1, 0x12, 0, 0xFF, 7, 0x35]" "[1, 0x02, 0xFF, 0, 7, 0x15]" 11 6 0] by (simp add: list_all_iff)
qed

end
