(* ===== verification/Ieee.thy ===== *)
theory Ieee
  imports Prelude
begin

text \<open>
  The floating-point arithmetic of the front-end code: C's \<open>double\<close> and \<open>float\<close> as IEEE 754
  binary64 and binary32 with rounding to nearest, ties to even. One type holds the values of
  both formats; a \<open>float\<close> is a value that rounding to 24 bits leaves alone, so the conversion
  from \<open>float\<close> to \<open>double\<close> is the identity and the conversion back is a rounding.
\<close>

section \<open>Values\<close>

text \<open>A finite non-zero value is kept in lowest terms: an odd significand and an exponent.
  The first argument of every constructor is the sign, \<open>True\<close> for negative.\<close>

datatype fp = NaN | Inf bool | Zero bool | Fin bool int int

function norm2 :: "int \<Rightarrow> int \<Rightarrow> int \<times> int" where
  "norm2 m e = (if 0 < m \<and> even m then norm2 (m div 2) (e + 1) else (m, e))"
  by pat_completeness auto
termination
  by (relation "measure (\<lambda>(m, e). nat m)") auto

declare norm2.simps [simp del]

function bitlen :: "int \<Rightarrow> int" where
  "bitlen m = (if m \<le> 0 then 0 else 1 + bitlen (m div 2))"
  by pat_completeness auto
termination
  by (relation "measure nat") auto

declare bitlen.simps [simp del]

text \<open>\<open>m / 2\<^sup>k\<close> rounded to the nearest integer, ties to even.\<close>

definition rne :: "int \<Rightarrow> nat \<Rightarrow> int" where
  "rne m k =
     (let q = m div 2 ^ k; r = m mod 2 ^ k
      in if 2 * r < 2 ^ k \<or> 2 * r = 2 ^ k \<and> even q then q else q + 1)"

text \<open>
  The value \<open>\<plusminus>m * 2\<^sup>e\<close> rounded to a format of precision \<open>p\<close>, least quantum
  \<open>2\<^sup>q\<^sup>m\<^sup>i\<^sup>n\<close> and overflow threshold \<open>2\<^sup>e\<^sup>m\<^sup>a\<^sup>x\<close>.
\<close>

definition round_fp :: "int \<Rightarrow> int \<Rightarrow> int \<Rightarrow> bool \<Rightarrow> int \<Rightarrow> int \<Rightarrow> fp" where
  "round_fp p qmin emax s m e =
     (if m = 0 then Zero s
      else
        let q = max (e + bitlen m - p) qmin;
            (m', e') = (if q \<le> e then (m, e) else (rne m (nat (q - e)), q))
        in if m' = 0 then Zero s
           else if emax < e' + bitlen m' then Inf s
           else let (m2, e2) = norm2 m' e' in Fin s m2 e2)"

definition round64 :: "bool \<Rightarrow> int \<Rightarrow> int \<Rightarrow> fp" where
  "round64 = round_fp 53 (-1074) 1024"

definition round32 :: "bool \<Rightarrow> int \<Rightarrow> int \<Rightarrow> fp" where
  "round32 = round_fp 24 (-149) 128"

section \<open>Operations\<close>

fun is_nan :: "fp \<Rightarrow> bool" where
  "is_nan NaN = True"
| "is_nan _ = False"

fun is_zero :: "fp \<Rightarrow> bool" where
  "is_zero (Zero _) = True"
| "is_zero _ = False"

fun is_finite :: "fp \<Rightarrow> bool" where
  "is_finite (Zero _) = True"
| "is_finite (Fin _ _ _) = True"
| "is_finite _ = False"

fun fneg :: "fp \<Rightarrow> fp" where
  "fneg NaN = NaN"
| "fneg (Inf s) = Inf (\<not> s)"
| "fneg (Zero s) = Zero (\<not> s)"
| "fneg (Fin s m e) = Fin (\<not> s) m e"

fun fabs :: "fp \<Rightarrow> fp" where
  "fabs NaN = NaN"
| "fabs (Inf s) = Inf False"
| "fabs (Zero s) = Zero False"
| "fabs (Fin s m e) = Fin False m e"

text \<open>The integer \<open>x / 2\<^sup>k\<close>, exact when \<open>k\<close> is at most the exponent of \<open>x\<close>.\<close>

fun scaled :: "int \<Rightarrow> fp \<Rightarrow> int" where
  "scaled k (Fin s m e) = (if s then -1 else 1) * m * 2 ^ nat (e - k)"
| "scaled k _ = 0"

fun fexp :: "fp \<Rightarrow> int" where
  "fexp (Fin s m e) = e"
| "fexp _ = 0"

fun fadd :: "fp \<Rightarrow> fp \<Rightarrow> fp" where
  "fadd NaN _ = NaN"
| "fadd _ NaN = NaN"
| "fadd (Inf s) (Inf t) = (if s = t then Inf s else NaN)"
| "fadd (Inf s) _ = Inf s"
| "fadd _ (Inf t) = Inf t"
| "fadd (Zero s) (Zero t) = Zero (s \<and> t)"
| "fadd (Zero s) y = y"
| "fadd x (Zero t) = x"
| "fadd x y =
     (let k = min (fexp x) (fexp y); i = scaled k x + scaled k y
      in if i = 0 then Zero False else round64 (i < 0) \<bar>i\<bar> k)"

definition fsub :: "fp \<Rightarrow> fp \<Rightarrow> fp" where
  "fsub x y = fadd x (fneg y)"

fun fmul :: "fp \<Rightarrow> fp \<Rightarrow> fp" where
  "fmul NaN _ = NaN"
| "fmul _ NaN = NaN"
| "fmul (Inf s) (Inf t) = Inf (s \<noteq> t)"
| "fmul (Inf s) (Zero t) = NaN"
| "fmul (Zero s) (Inf t) = NaN"
| "fmul (Inf s) (Fin t _ _) = Inf (s \<noteq> t)"
| "fmul (Fin s _ _) (Inf t) = Inf (s \<noteq> t)"
| "fmul (Zero s) (Zero t) = Zero (s \<noteq> t)"
| "fmul (Zero s) (Fin t _ _) = Zero (s \<noteq> t)"
| "fmul (Fin s _ _) (Zero t) = Zero (s \<noteq> t)"
| "fmul (Fin s m e) (Fin t n f) = round64 (s \<noteq> t) (m * n) (e + f)"

text \<open>
  A quotient of integers with at least two bits more than the precision, the last of them
  sticky, rounds to the same value as the exact quotient.
\<close>

definition quot64 :: "bool \<Rightarrow> int \<Rightarrow> int \<Rightarrow> int \<Rightarrow> fp" where
  "quot64 s m n e =
     (let k = 55 + bitlen n; q = m * 2 ^ nat k div n; r = m * 2 ^ nat k mod n
      in round64 s (2 * q + of_bool (r \<noteq> 0)) (e - k - 1))"

fun fdiv :: "fp \<Rightarrow> fp \<Rightarrow> fp" where
  "fdiv NaN _ = NaN"
| "fdiv _ NaN = NaN"
| "fdiv (Inf s) (Inf t) = NaN"
| "fdiv (Inf s) (Zero t) = Inf (s \<noteq> t)"
| "fdiv (Inf s) (Fin t _ _) = Inf (s \<noteq> t)"
| "fdiv (Zero s) (Inf t) = Zero (s \<noteq> t)"
| "fdiv (Fin s _ _) (Inf t) = Zero (s \<noteq> t)"
| "fdiv (Zero s) (Zero t) = NaN"
| "fdiv (Zero s) (Fin t _ _) = Zero (s \<noteq> t)"
| "fdiv (Fin s _ _) (Zero t) = Inf (s \<noteq> t)"
| "fdiv (Fin s m e) (Fin t n f) = quot64 (s \<noteq> t) m n (e - f)"

text \<open>The comparisons of C: every one but \<open>!=\<close> is false on a NaN.\<close>

fun flt :: "fp \<Rightarrow> fp \<Rightarrow> bool" where
  "flt NaN _ = False"
| "flt _ NaN = False"
| "flt (Inf s) (Inf t) = (s \<and> \<not> t)"
| "flt (Inf s) _ = s"
| "flt _ (Inf t) = (\<not> t)"
| "flt x y = (let k = min (fexp x) (fexp y) in scaled k x < scaled k y)"

definition feq :: "fp \<Rightarrow> fp \<Rightarrow> bool" where
  "feq x y \<longleftrightarrow> \<not> is_nan x \<and> \<not> is_nan y \<and> (x = y \<or> is_zero x \<and> is_zero y)"

definition fle :: "fp \<Rightarrow> fp \<Rightarrow> bool" where
  "fle x y \<longleftrightarrow> flt x y \<or> feq x y"

section \<open>Conversions and literals\<close>

definition of_cint :: "int \<Rightarrow> fp" where
  "of_cint i = (if i = 0 then Zero False else round64 (i < 0) \<bar>i\<bar> 0)"

text \<open>The \<open>double\<close> nearest to the decimal literal \<open>i / d\<close>.\<close>

definition lit :: "int \<Rightarrow> int \<Rightarrow> fp" where
  "lit i d = (if i = 0 then Zero False else quot64 (i < 0) \<bar>i\<bar> d 0)"

fun to_float :: "fp \<Rightarrow> fp" where
  "to_float (Fin s m e) = round32 s m e"
| "to_float x = x"

section \<open>Lowest terms and bit lengths\<close>

lemma bitlen_nonneg [simp]: "0 \<le> bitlen m"
  by (induction m rule: bitlen.induct) (subst bitlen.simps, simp)

lemma bitlen_pos: "0 < m \<Longrightarrow> 1 \<le> bitlen m"
  by (subst bitlen.simps) simp

lemma bitlen_bounds: "0 < m \<Longrightarrow> 2 ^ nat (bitlen m - 1) \<le> m \<and> m < 2 ^ nat (bitlen m)"
proof (induction m rule: bitlen.induct)
  case (1 m)
  show ?case
  proof (cases "m = 1")
    case True
    then show ?thesis by (simp add: bitlen.simps)
  next
    case False
    with 1 have IH: "2 ^ nat (bitlen (m div 2) - 1) \<le> m div 2" "m div 2 < 2 ^ nat (bitlen (m div 2))"
      by auto
    have pos: "1 \<le> bitlen (m div 2)"
      using "1.prems" False by (intro bitlen_pos) simp
    have len: "bitlen m = 1 + bitlen (m div 2)"
      using "1.prems" by (subst bitlen.simps) simp
    have "nat (bitlen m) = Suc (nat (bitlen (m div 2)))"
         "nat (bitlen m - 1) = Suc (nat (bitlen (m div 2) - 1))"
      using pos by (simp_all add: len nat_diff_distrib' flip: Suc_diff_le)
    then show ?thesis
      using IH by simp linarith
  qed
qed

lemma bitlen_le_iff: "0 < m \<Longrightarrow> bitlen m \<le> int n \<longleftrightarrow> m < 2 ^ n"
proof
  assume "0 < m" "bitlen m \<le> int n"
  then have "m < 2 ^ nat (bitlen m)" "nat (bitlen m) \<le> n"
    using bitlen_bounds by auto
  then show "m < 2 ^ n"
    by (meson less_le_trans one_le_numeral power_increasing)
next
  assume "0 < m" "m < 2 ^ n"
  then have "2 ^ nat (bitlen m - 1) < (2 :: int) ^ n"
    using bitlen_bounds le_less_trans by blast
  then have "nat (bitlen m - 1) < n"
    by simp
  then show "bitlen m \<le> int n" by linarith
qed

lemma norm2_props:
  assumes "0 < m" and "norm2 m e = (m', e')"
  shows "odd m' \<and> 0 < m' \<and> e \<le> e' \<and> m = m' * 2 ^ nat (e' - e)"
  using assms
proof (induction m e arbitrary: m' e' rule: norm2.induct)
  case (1 m e)
  show ?case
  proof (cases "even m")
    case True
    with 1 have "norm2 (m div 2) (e + 1) = (m', e')"
      by (simp add: norm2.simps [of m e])
    with 1 True have IH: "odd m'" "0 < m'" "e + 1 \<le> e'" "m div 2 = m' * 2 ^ nat (e' - (e + 1))"
      by (auto simp: zdiv_mono2 dest: zdvd_imp_le)
    have "nat (e' - e) = Suc (nat (e' - (e + 1)))"
      using IH(3) by linarith
    then have "m = m' * 2 ^ nat (e' - e)"
      using IH(4) True by auto
    with IH show ?thesis by simp
  next
    case False
    with 1 show ?thesis by (simp add: norm2.simps [of m e])
  qed
qed

section \<open>The real value, and the order\<close>

fun valof :: "fp \<Rightarrow> real" where
  "valof (Fin s m e) = (if s then -1 else 1) * real_of_int m * 2 powi e"
| "valof _ = 0"

lemma powi_2_not_neg [simp]: "\<not> (2 :: real) powi j < 0"
  by (simp add: not_less)

lemma valof_scaled:
  assumes "is_finite x" and "k \<le> fexp x \<or> is_zero x"
  shows "valof x = real_of_int (scaled k x) * 2 powi k"
proof (cases x)
  case (Fin s m e)
  with assms have "k \<le> e" by simp
  then have "(2 :: real) powi e = 2 ^ nat (e - k) * 2 powi k"
    by (simp add: power_int_add [symmetric] flip: power_int_of_nat)
  with Fin show ?thesis by simp
qed (use assms in auto)

lemma valof_fneg [simp]: "valof (fneg x) = - valof x"
  by (cases x) auto

text \<open>
  The order of the comparisons: the infinities at the ends, the finite values by their real
  value. NaN has no place in it.
\<close>

fun rank :: "fp \<Rightarrow> int" where
  "rank (Inf s) = (if s then -1 else 1)"
| "rank _ = 0"

lemma flt_finite:
  assumes "is_finite x" "is_finite y"
  shows "flt x y \<longleftrightarrow> valof x < valof y"
proof -
  define k where "k = min (fexp x) (fexp y)"
  have "flt x y \<longleftrightarrow> scaled k x < scaled k y"
    using assms by (cases x; cases y) (simp_all add: k_def Let_def)
  moreover have "valof x = real_of_int (scaled k x) * 2 powi k"
    "valof y = real_of_int (scaled k y) * 2 powi k"
    using assms by (auto intro!: valof_scaled simp: k_def)
  ultimately show ?thesis by simp
qed

lemma flt_rank:
  "flt x y \<longleftrightarrow> \<not> is_nan x \<and> \<not> is_nan y \<and>
     (rank x < rank y \<or> rank x = rank y \<and> rank x = 0 \<and> valof x < valof y)"
proof (cases "is_finite x \<and> is_finite y")
  case True
  then show ?thesis
    by (cases x; cases y) (auto simp: flt_finite simp del: flt.simps)
next
  case False
  then show ?thesis
    by (cases x; cases y) auto
qed

lemma flt_Zero_Fin: "0 < m \<Longrightarrow> flt (Zero b) (Fin s m e) \<longleftrightarrow> \<not> s"
  and flt_Fin_Zero: "0 < m \<Longrightarrow> flt (Fin s m e) (Zero b) \<longleftrightarrow> s"
  by (simp_all add: flt_finite mult_less_0_iff del: flt.simps)

text \<open>Two finite values are equal for C exactly when their real values are: lowest terms are
  unique.\<close>

fun canonical :: "fp \<Rightarrow> bool" where
  "canonical (Fin s m e) \<longleftrightarrow> odd m \<and> 0 < m"
| "canonical _ \<longleftrightarrow> True"

lemma odd_powi_unique:
  fixes m n :: int
  assumes "odd m" "odd n" "real_of_int m * 2 powi e = real_of_int n * 2 powi f"
  shows "e = f"
proof (rule ccontr)
  have *: False if "odd m" "odd n" "real_of_int m * 2 powi e = real_of_int n * 2 powi f" "e < f"
    for m n e f :: int
  proof -
    have "(2 :: real) powi f = 2 ^ nat (f - e) * 2 powi e"
      using that(4) by (simp add: power_int_add [symmetric] flip: power_int_of_nat)
    with that(3) have "real_of_int m = real_of_int (n * 2 ^ nat (f - e))"
      by simp
    then have "m = n * 2 ^ nat (f - e)"
      by (simp only: of_int_eq_iff)
    moreover have "nat (f - e) \<noteq> 0" using that(4) by simp
    ultimately show False using that(1) by simp
  qed
  assume "e \<noteq> f"
  then show False
    using * [of m n e f] * [of n m f e] assms by linarith
qed

lemma valof_eq_0_iff: "is_finite x \<Longrightarrow> canonical x \<Longrightarrow> valof x = 0 \<longleftrightarrow> is_zero x"
  by (cases x) auto

lemma feq_finite:
  assumes "is_finite x" "is_finite y" "canonical x" "canonical y"
  shows "feq x y \<longleftrightarrow> valof x = valof y"
proof
  assume "feq x y"
  then show "valof x = valof y"
    by (cases x; cases y) (auto simp: feq_def)
next
  assume eq: "valof x = valof y"
  show "feq x y"
  proof (cases "is_zero x \<or> is_zero y")
    case True
    then show ?thesis
      using assms eq valof_eq_0_iff [of x] valof_eq_0_iff [of y]
      by (cases x; cases y) (auto simp: feq_def)
  next
    case False
    with assms obtain s m e t n f where xy: "x = Fin s m e" "y = Fin t n f"
      by (cases x; cases y) auto
    have odd: "odd m" "odd n" and pos: "0 < m" "0 < n"
      using assms xy by auto
    have st: "s = t"
    proof (rule ccontr)
      assume "s \<noteq> t"
      moreover have "0 < real_of_int m * 2 powi e" "0 < real_of_int n * 2 powi f"
        using pos by simp_all
      ultimately show False using eq xy by (auto split: if_splits)
    qed
    then have "real_of_int m * 2 powi e = real_of_int n * 2 powi f"
      using eq xy by (auto split: if_splits)
    with odd have "e = f" by (rule odd_powi_unique)
    then show ?thesis
      using eq xy st by (auto simp: feq_def split: if_splits)
  qed
qed

text \<open>From here on the finite comparisons are read through the real value, not unfolded.\<close>

declare flt.simps(11-13) [simp del]

lemma valof_fabs: "canonical x \<Longrightarrow> valof (fabs x) = \<bar>valof x\<bar>"
  by (cases x) (auto simp: abs_mult)

text \<open>What the callers rely on: a strict order, total but for the unordered values, and a
  negation that turns it round. The limiter of a filter module is its first client.\<close>

locale c_order =
  fixes lt :: "'f \<Rightarrow> 'f \<Rightarrow> bool" and neg :: "'f \<Rightarrow> 'f" and unordered :: "'f \<Rightarrow> bool"
  assumes lt_irrefl: "\<not> lt x x"
    and lt_trans: "lt x y \<Longrightarrow> lt y z \<Longrightarrow> lt x z"
    and lt_compat: "lt x z \<Longrightarrow> \<not> unordered y \<Longrightarrow> lt x y \<or> lt y z"
    and lt_neg: "lt (neg x) (neg y) \<longleftrightarrow> lt y x"
begin

lemma lt_asym: "lt x y \<Longrightarrow> \<not> lt y x"
  using lt_irrefl lt_trans by blast

lemma clamp_within:
  assumes "\<not> lt l (neg l)"
    and "y = (if lt l x then l else if lt x (neg l) then neg l else x)"
  shows "\<not> lt l y \<and> \<not> lt y (neg l)"
  using assms lt_irrefl by auto

end

interpretation fp: c_order flt fneg is_nan
proof
  show "\<not> flt x x" for x
    by (simp add: flt_rank)
  show "flt x y \<Longrightarrow> flt y z \<Longrightarrow> flt x z" for x y z
    by (auto simp: flt_rank)
  show "flt x z \<Longrightarrow> \<not> is_nan y \<Longrightarrow> flt x y \<or> flt y z" for x y z
    by (auto simp: flt_rank)
  have "is_nan (fneg x) = is_nan x" "rank (fneg x) = - rank x" for x
    by (cases x; simp)+
  then show "flt (fneg x) (fneg y) \<longleftrightarrow> flt y x" for x y
    by (auto simp: flt_rank)
qed

section \<open>Rounding stays in the format\<close>

fun rep64 :: "fp \<Rightarrow> bool" where
  "rep64 (Fin s m e) \<longleftrightarrow> odd m \<and> 0 < m \<and> m < 2 ^ 53 \<and> -1074 \<le> e \<and> e + bitlen m \<le> 1024"
| "rep64 _ \<longleftrightarrow> True"

lemma rep64_canonical: "rep64 x \<Longrightarrow> canonical x"
  by (cases x) auto

lemma bitlen_unique:
  assumes "2 ^ n \<le> m" and "m < 2 ^ Suc n"
  shows "bitlen m = int (Suc n)"
proof -
  have "0 < m" using assms(1) zero_less_power [of "2 :: int" n] by linarith
  then have "bitlen m \<le> int (Suc n)" "\<not> bitlen m \<le> int n"
    using assms by (simp_all add: bitlen_le_iff del: of_nat_Suc power_Suc)
  then show ?thesis by simp
qed

lemma bitlen_shift: "0 < m \<Longrightarrow> bitlen (m * 2 ^ k) = bitlen m + int k"
proof -
  assume m: "0 < m"
  define n where "n = nat (bitlen m - 1)"
  have n: "bitlen m = int (Suc n)"
    using bitlen_pos [OF m] by (simp add: n_def)
  have bounds: "2 ^ n \<le> m" "m < 2 ^ Suc n"
    using bitlen_bounds [OF m] n by (simp_all add: nat_add_distrib)
  have "bitlen (m * 2 ^ k) = int (Suc (n + k))"
  proof (rule bitlen_unique)
    show "2 ^ (n + k) \<le> m * 2 ^ k"
      using bounds(1) by (simp add: power_add)
    show "m * 2 ^ k < 2 ^ Suc (n + k)"
      using bounds(2) by (simp add: power_add)
  qed
  with n show ?thesis by simp
qed

lemma rne_bounds: "m div 2 ^ k \<le> rne m k" "rne m k \<le> m div 2 ^ k + 1"
  by (auto simp: rne_def Let_def)

lemma rne_le_pow:
  assumes "0 < m" "bitlen m \<le> int (p + k)"
  shows "rne m k \<le> 2 ^ p"
proof -
  have "m < 2 ^ p * 2 ^ k"
    using assms bitlen_le_iff [of m "p + k"] by (simp add: power_add)
  moreover have "m div 2 ^ k * 2 ^ k \<le> m"
    using pos_mod_sign [of "2 ^ k" m] by (simp add: minus_mod_eq_div_mult [symmetric])
  ultimately have "m div 2 ^ k * 2 ^ k < 2 ^ p * 2 ^ k"
    by linarith
  then have "m div 2 ^ k < 2 ^ p"
    by simp
  then show ?thesis
    using rne_bounds(2) [of m k] by simp
qed

lemma rne_pos:
  assumes "0 < m" "int k < bitlen m"
  shows "0 < rne m k"
proof -
  have "2 ^ k \<le> m"
    using assms bitlen_le_iff [of m k] by simp
  then have "0 < m div 2 ^ k"
    by (simp add: pos_imp_zdiv_pos_iff)
  then show ?thesis
    using rne_bounds(1) [of m k] by simp
qed

lemma round_fp_cases:
  assumes "0 < m" and "1 \<le> p"
  obtains (zero) "round_fp p qmin emax s m e = Zero s"
  | (inf) "round_fp p qmin emax s m e = Inf s"
  | (fin) m' e' where "round_fp p qmin emax s m e = Fin s m' e'" "odd m'" "0 < m'"
      "m' < 2 ^ nat p" "qmin \<le> e'" "e' + bitlen m' \<le> emax"
proof -
  define q where "q = max (e + bitlen m - p) qmin"
  define m1 where "m1 = (if q \<le> e then m else rne m (nat (q - e)))"
  define e1 where "e1 = (if q \<le> e then e else q)"
  obtain m2 e2 where n2: "norm2 m1 e1 = (m2, e2)" by (cases "norm2 m1 e1")
  have r: "round_fp p qmin emax s m e =
      (if m1 = 0 then Zero s else if emax < e1 + bitlen m1 then Inf s else Fin s m2 e2)"
    using assms n2 by (auto simp: round_fp_def Let_def q_def [symmetric] m1_def e1_def)
  have m1: "m1 \<le> 2 ^ nat p"
  proof (cases "q \<le> e")
    case True
    then have "bitlen m \<le> int (nat p)"
      using assms by (auto simp: q_def)
    then show ?thesis
      using True assms bitlen_le_iff [of m "nat p"] by (simp add: m1_def)
  next
    case False
    have "bitlen m \<le> int (nat p + nat (q - e))"
      using assms by (auto simp: q_def)
    then show ?thesis
      using False assms rne_le_pow by (simp add: m1_def)
  qed
  have e1: "qmin \<le> e1" by (auto simp: e1_def q_def)
  have nonneg: "0 \<le> m1"
    using assms by (auto simp: m1_def rne_def Let_def pos_imp_zdiv_nonneg_iff)
  consider "m1 = 0" | "0 < m1" "emax < e1 + bitlen m1" | "0 < m1" "e1 + bitlen m1 \<le> emax"
    using nonneg by linarith
  then show ?thesis
  proof cases
    case 1
    then show ?thesis using r zero by simp
  next
    case 2
    then show ?thesis using r inf by simp
  next
    case 3
    have props: "odd m2" "0 < m2" "e1 \<le> e2" "m1 = m2 * 2 ^ nat (e2 - e1)"
      using norm2_props [OF 3(1) n2] by auto
    have "m2 < 2 ^ nat p"
    proof (cases "nat (e2 - e1) = 0")
      case True
      then have "m1 = m2" using props by simp
      moreover have "even ((2 :: int) ^ nat p)" using assms(2) by simp
      ultimately show ?thesis using m1 props(1) by (cases "m2 = 2 ^ nat p") auto
    next
      case False
      then have "(2 :: int) ^ 1 \<le> 2 ^ nat (e2 - e1)"
        by (intro power_increasing) simp_all
      then have "m2 * 2 \<le> m1" using props by simp
      then show ?thesis using m1 props(2) by linarith
    qed
    moreover have "e2 + bitlen m2 \<le> emax"
      using 3 props bitlen_shift [OF props(2), of "nat (e2 - e1)"] by simp
    ultimately show ?thesis
      using r 3 props e1 by (intro fin [of m2 e2]) auto
  qed
qed

lemma round_fp_nonzero:
  assumes "0 < m" "1 \<le> p" "qmin \<le> e"
  shows "\<not> is_zero (round_fp p qmin emax s m e)"
proof -
  have "0 < rne m (nat (e + bitlen m - p - e))" if "e < e + bitlen m - p"
    using that assms by (intro rne_pos) simp_all
  then show ?thesis
    using assms by (auto simp: round_fp_def Let_def split_def)
qed

lemma rep64_round64: "0 \<le> m \<Longrightarrow> rep64 (round64 s m e)"
proof (cases "m = 0")
  case True
  then show ?thesis by (simp add: round64_def round_fp_def)
next
  case False
  assume "0 \<le> m"
  with False have "0 < m" by simp
  then show ?thesis
    unfolding round64_def
    by (rule round_fp_cases [of m 53 "-1074" 1024 s e]) auto
qed

lemma rep64_fneg [simp]: "rep64 (fneg x) = rep64 x"
  by (cases x) auto

lemma rep64_fadd: "rep64 x \<Longrightarrow> rep64 y \<Longrightarrow> rep64 (fadd x y)"
  by (cases x; cases y) (auto simp: Let_def intro!: rep64_round64)

lemma rep64_fsub: "rep64 x \<Longrightarrow> rep64 y \<Longrightarrow> rep64 (fsub x y)"
  by (simp add: fsub_def rep64_fadd)

lemma rep64_fmul: "rep64 x \<Longrightarrow> rep64 y \<Longrightarrow> rep64 (fmul x y)"
  by (cases x; cases y) (auto intro!: rep64_round64)

lemma rep64_quot64: "0 \<le> m \<Longrightarrow> 0 < n \<Longrightarrow> rep64 (quot64 s m n e)"
  by (auto simp: quot64_def Let_def pos_imp_zdiv_nonneg_iff intro!: rep64_round64)

lemma rep64_fdiv: "rep64 x \<Longrightarrow> rep64 y \<Longrightarrow> rep64 (fdiv x y)"
  by (cases x; cases y) (auto intro!: rep64_quot64)

lemma rep64_fabs: "rep64 x \<Longrightarrow> rep64 (fabs x)"
  by (cases x) auto

lemma rep64_of_cint: "rep64 (of_cint i)"
  by (auto simp: of_cint_def intro!: rep64_round64)

lemma rep64_lit: "0 < d \<Longrightarrow> rep64 (lit i d)"
  by (auto simp: lit_def intro!: rep64_quot64)

lemmas rep64_intros = rep64_fadd rep64_fsub rep64_fmul rep64_fdiv rep64_fabs rep64_of_cint
  rep64_lit

section \<open>Differences\<close>

text \<open>
  Gradual underflow: the difference of two representable values is zero only when they are
  equal, and otherwise has the sign of the exact difference.
\<close>

lemma round64_sign:
  assumes "0 < m" "-1074 \<le> e"
  shows "flt (Zero b) (round64 s m e) \<longleftrightarrow> \<not> s" "flt (round64 s m e) (Zero b) \<longleftrightarrow> s"
    "\<not> is_nan (round64 s m e)" "\<not> is_zero (round64 s m e)"
proof -
  have nz: "\<not> is_zero (round64 s m e)"
    using round_fp_nonzero [of m 53 "-1074" e 1024 s] assms by (simp add: round64_def)
  have "(flt (Zero b) (round64 s m e) \<longleftrightarrow> \<not> s) \<and> (flt (round64 s m e) (Zero b) \<longleftrightarrow> s) \<and>
        \<not> is_nan (round64 s m e)"
    using nz unfolding round64_def
    by (rule_tac round_fp_cases [of m 53 "-1074" 1024 s e]) (auto simp: assms flt_rank mult_less_0_iff)
  with nz show "flt (Zero b) (round64 s m e) \<longleftrightarrow> \<not> s" "flt (round64 s m e) (Zero b) \<longleftrightarrow> s"
    "\<not> is_nan (round64 s m e)" "\<not> is_zero (round64 s m e)"
    by auto
qed

lemma fsub_finite_cases:
  assumes "rep64 x" "rep64 y" "is_finite x" "is_finite y"
  obtains (eq) "valof x = valof y" "is_zero (fsub x y)"
  | (neq) "valof x \<noteq> valof y" "\<not> is_zero (fsub x y)" "\<not> is_nan (fsub x y)"
      "\<And>b. flt (Zero b) (fsub x y) \<longleftrightarrow> valof y < valof x"
      "\<And>b. flt (fsub x y) (Zero b) \<longleftrightarrow> valof x < valof y"
proof (cases "is_zero x \<or> is_zero y")
  case True
  have can: "canonical x" "canonical y"
    using assms rep64_canonical by auto
  show ?thesis
  proof (cases "is_zero x \<and> is_zero y")
    case True
    then have "valof x = valof y" "is_zero (fsub x y)"
      by (cases x; cases y; simp add: fsub_def)+
    then show ?thesis by (rule eq)
  next
    case False
    with \<open>is_zero x \<or> is_zero y\<close> have d: "valof (fsub x y) = valof x - valof y"
      "\<not> is_zero (fsub x y)" "is_finite (fsub x y)"
      using assms by (cases x; cases y; simp add: fsub_def)+
    have "valof x \<noteq> valof y"
      using False True assms can valof_eq_0_iff [of x] valof_eq_0_iff [of y]
      by (cases x; cases y) auto
    then show ?thesis
      using d by (intro neq) (auto simp: flt_finite, cases "fsub x y", auto)
  qed
next
  case False
  with assms obtain s m e t n f where xy: "x = Fin s m e" "y = Fin t n f"
    by (cases x; cases y) auto
  define k where "k = min e f"
  define i where "i = scaled k x - scaled k y"
  have "scaled k x + scaled k (fneg y) = i"
    by (simp add: i_def xy)
  then have sub: "fsub x y = (if i = 0 then Zero False else round64 (i < 0) \<bar>i\<bar> k)"
    by (simp add: fsub_def xy k_def Let_def del: scaled.simps)
  have "valof x = real_of_int (scaled k x) * 2 powi k"
       "valof y = real_of_int (scaled k y) * 2 powi k"
    using assms by (intro valof_scaled; simp add: xy k_def)+
  then have diff: "valof x - valof y = real_of_int i * 2 powi k"
    by (simp add: i_def algebra_simps)
  have k: "-1074 \<le> k" using assms by (simp add: xy k_def)
  show ?thesis
  proof (cases "i = 0")
    case True
    then show ?thesis using eq diff sub by simp
  next
    case False
    have pos: "0 < (2 :: real) powi k" by simp
    have sgn: "valof y < valof x \<longleftrightarrow> 0 < i" "valof x < valof y \<longleftrightarrow> i < 0" "valof x \<noteq> valof y"
      using diff False pos
      by (smt (verit) mult_pos_pos mult_neg_pos of_int_0_less_iff of_int_less_0_iff)+
    show ?thesis
      using False k sgn by (intro neq) (auto simp: sub round64_sign)
  qed
qed

end
