(* ===== verification/Ramp.thy ===== *)
theory Ramp
  imports Ieee
begin

text \<open>
  The time ramp of \<^verbatim>\<open>src/include/drv/tRamp.c\<close>, which filter modules use for their gains and
  offsets: a value is moved towards a request with a limited speed and acceleration and a
  soft landing. Shown: a ramp at rest holds its value, a ramp of no duration jumps, and a
  ramp only ever comes to rest exactly at the requested value.
\<close>

section \<open>The code\<close>

record RampParamState =
  isRamping :: bool
  val :: fp
  dxPrev :: fp
  req :: fp
  dxMax :: fp
  ddxMax :: fp
  softRatio :: fp
  softVel :: fp
  minAccCycles :: fp

abbreviation f0 :: fp where
  "f0 \<equiv> Zero False"

definition RampParamGetVal :: "RampParamState \<Rightarrow> fp" where
  "RampParamGetVal state = val state"

definition RampParamGetIsRamping :: "RampParamState \<Rightarrow> int" where
  "RampParamGetIsRamping state = of_bool (isRamping state)"

definition RampParamInit :: "RampParamState \<Rightarrow> fp \<Rightarrow> int \<Rightarrow> RampParamState" where
  "RampParamInit state xInit fe_rate = state\<lparr>
     isRamping := False, val := xInit, dxPrev := f0,
     req := xInit, dxMax := f0, ddxMax := f0,
     softRatio := of_cint 4, softVel := lit 136 100,
     minAccCycles := fmul (lit 5 100) (of_cint fe_rate)\<rparr>"

definition RampParamLoad :: "RampParamState \<Rightarrow> fp \<Rightarrow> fp \<Rightarrow> int \<Rightarrow> RampParamState" where
  "RampParamLoad state rq tRamp fe_rate =
     (if fle tRamp f0 then
        state\<lparr>isRamping := False, val := rq, dxPrev := f0, req := rq, dxMax := f0, ddxMax := f0\<rparr>
      else if isRamping state \<or> \<not> feq rq (val state) then
        let inv_nRamp = fdiv (of_cint 1) (fmul (of_cint fe_rate) tRamp);
            dxm = fmul (fmul (softVel state) (fabs (fsub rq (val state)))) inv_nRamp;
            ddxm = (if isRamping state
                    then fdiv (fabs (fadd dxm (dxPrev state))) (minAccCycles state)
                    else fmul (fmul (softRatio state) dxm) inv_nRamp)
        in state\<lparr>req := rq, dxMax := dxm, ddxMax := ddxm, isRamping := True\<rparr>
      else state)"

text \<open>The stages of an update, in the order of the code: the slew limit, the acceleration
  limit, the soft landing and the least change that moves the value.\<close>

definition slew_limit :: "RampParamState \<Rightarrow> fp \<Rightarrow> fp" where
  "slew_limit state dxReq =
     (if flt (dxMax state) dxReq then dxMax state
      else if flt dxReq (fneg (dxMax state)) then fneg (dxMax state)
      else dxReq)"

definition accel_limit :: "RampParamState \<Rightarrow> fp \<Rightarrow> fp" where
  "accel_limit state dxNow =
     (let ddxNow = fsub dxNow (dxPrev state)
      in if flt (ddxMax state) ddxNow then fadd (dxPrev state) (ddxMax state)
         else if flt ddxNow (fneg (ddxMax state)) then fsub (dxPrev state) (ddxMax state)
         else dxNow)"

definition soft_landing :: "RampParamState \<Rightarrow> fp \<Rightarrow> fp \<Rightarrow> fp" where
  "soft_landing state dxReq dxNow =
     (let dxNowAbs = fabs dxNow
      in if flt (ddxMax state) dxNowAbs \<and> flt f0 (fmul dxNow dxReq) then
           let nStop = fdiv dxNowAbs (ddxMax state);
               dxStop = fmul dxNow (fadd (lit 3 2) (fmul (lit 1 2) nStop));
               dxLand = fadd dxNow (fdiv (fsub dxReq dxStop) (fadd (lit 3 2) nStop))
           in if flt (fabs dxLand) dxNowAbs then dxLand else dxNow
         else dxNow)"

definition least_change :: "RampParamState \<Rightarrow> fp \<Rightarrow> fp \<Rightarrow> fp" where
  "least_change state dxReq dxNow =
     (let minprecision = lit 11103 (10 ^ 20);
          minchange = fmul (fabs (val state)) minprecision
      in if \<not> feq dxNow f0 then
           if flt (fabs dxReq) minchange then dxReq
           else if flt (fabs dxNow) minchange then
             (if flt f0 dxNow then minchange else fneg minchange)
           else dxNow
         else dxNow)"

definition RampParamUpdate :: "RampParamState \<Rightarrow> RampParamState \<times> fp" where
  "RampParamUpdate state =
     (if \<not> isRamping state then (state, val state)
      else
        let dxReq = fsub (req state) (val state);
            dxNow = least_change state dxReq
                      (soft_landing state dxReq (accel_limit state (slew_limit state dxReq)));
            state' = state\<lparr>isRamping := \<not> (feq dxNow f0 \<and> feq (dxPrev state) f0)\<rparr>;
            state'' = (if fle (fabs dxReq) (fabs dxNow)
                       then state'\<lparr>val := req state', dxPrev := dxReq\<rparr>
                       else state'\<lparr>val := fadd (val state') dxNow, dxPrev := dxNow\<rparr>)
        in (state'', val state''))"

section \<open>At rest\<close>

text \<open>The part of the contract that the filter modules use.\<close>

locale ramp_generator =
  fixes load :: "'s \<Rightarrow> 'v \<Rightarrow> 'v \<Rightarrow> int \<Rightarrow> 's" and update :: "'s \<Rightarrow> 's \<times> 'v"
    and moving :: "'s \<Rightarrow> bool" and current :: "'s \<Rightarrow> 'v" and instant :: "'v \<Rightarrow> bool"
  assumes rest: "\<not> moving s \<Longrightarrow> update s = (s, current s)"
    and instant_load: "instant t \<Longrightarrow> \<not> moving (load s v t r) \<and> current (load s v t r) = v"
    and update_current: "snd (update s) = current (fst (update s))"
begin

lemma rest_forever: "\<not> moving s \<Longrightarrow> ((fst \<circ> update) ^^ n) s = s"
  by (induction n) (simp_all add: rest)

lemma instant_load_holds:
  "instant t \<Longrightarrow> snd (update (((fst \<circ> update) ^^ n) (load s v t r))) = v"
  using instant_load by (simp add: rest_forever rest)

end

interpretation ramp: ramp_generator
  RampParamLoad RampParamUpdate isRamping val "\<lambda>t. fle t f0"
  by unfold_locales (auto simp: RampParamUpdate_def RampParamLoad_def Let_def)

section \<open>A ramp comes to rest only at its target\<close>

text \<open>Every field is a \<open>double\<close>; the value and the request are finite.\<close>

definition ramp_wf :: "RampParamState \<Rightarrow> bool" where
  "ramp_wf s \<longleftrightarrow> rep64 (val s) \<and> rep64 (dxPrev s) \<and> rep64 (req s) \<and> rep64 (dxMax s) \<and>
     rep64 (ddxMax s) \<and> rep64 (softRatio s) \<and> rep64 (softVel s) \<and> rep64 (minAccCycles s)"

abbreviation moves :: "fp \<Rightarrow> bool" where
  "moves x \<equiv> rep64 x \<and> \<not> is_nan x \<and> \<not> is_zero x"

lemma feq_f0: "feq x f0 \<longleftrightarrow> is_zero x"
  by (cases x) (auto simp: feq_def)

lemma flt_f0_moves: "rep64 x \<Longrightarrow> flt f0 x \<Longrightarrow> moves x"
  by (cases x) auto

lemma is_fneg [simp]: "is_zero (fneg x) = is_zero x" "is_nan (fneg x) = is_nan x"
  by (cases x; simp)+

lemma fsub_zero_moves: "moves x \<Longrightarrow> fsub x (Zero b) = x"
  by (cases x) (auto simp: fsub_def)

lemma fadd_zero_left_moves: "moves x \<Longrightarrow> fadd (Zero b) x = x \<and> fsub (Zero b) x = fneg x"
  by (cases x) (auto simp: fsub_def)

lemma fabs_cases: "fabs x = x \<or> fabs x = fneg x"
  by (cases x) auto

lemma fneg_fneg [simp]: "fneg (fneg x) = x"
  by (cases x) auto

lemma flt_f0_fabs:
  assumes "rep64 x" "flt f0 x"
  shows "fabs x = x" "fabs (fneg x) = x"
proof -
  have "fabs x = x \<and> fabs (fneg x) = x"
  proof (cases x)
    case (Fin s m e)
    with assms have "\<not> s" using flt_Zero_Fin [of m False s e] by simp
    with Fin show ?thesis by simp
  qed (use assms in auto)
  then show "fabs x = x" "fabs (fneg x) = x" by auto
qed

lemma slew_limit_moves:
  "moves x \<Longrightarrow> rep64 (dxMax s) \<Longrightarrow> flt f0 (dxMax s) \<Longrightarrow> moves (slew_limit s x)"
  using flt_f0_moves [of "dxMax s"] by (auto simp: slew_limit_def)

lemma accel_limit_moves:
  assumes "moves x" "rep64 (ddxMax s)" "flt f0 (ddxMax s)" "is_zero (dxPrev s)"
  shows "moves (accel_limit s x) \<and> \<not> flt (ddxMax s) (fabs (accel_limit s x))"
proof -
  obtain b where b: "dxPrev s = Zero b" using assms(4) by (cases "dxPrev s") auto
  have mv: "moves (ddxMax s)" using assms(2,3) by (rule flt_f0_moves)
  note pos = flt_f0_fabs [OF assms(2,3)]
  have acc: "accel_limit s x = (if flt (ddxMax s) x then ddxMax s
          else if flt x (fneg (ddxMax s)) then fneg (ddxMax s) else x)"
    using assms(1) mv b by (simp add: accel_limit_def fsub_zero_moves fadd_zero_left_moves)
  have "\<not> flt (ddxMax s) (fabs x)"
    if "\<not> flt (ddxMax s) x" "\<not> flt x (fneg (ddxMax s))"
    using that fabs_cases [of x] fp.lt_neg [of "fneg (ddxMax s)" x] by auto
  then show ?thesis
    using assms(1) mv pos fp.lt_irrefl unfolding acc by auto
qed

lemma least_change_moves:
  assumes "moves x" "moves dxReq" "rep64 (val s)"
  shows "moves (least_change s dxReq x)"
proof -
  have "\<not> is_nan c \<and> \<not> is_zero c" if "flt (fabs x) c" for c
    using that assms(1)
    by (cases x; cases c; auto simp: flt_rank mult_less_0_iff)
  moreover have "rep64 (fmul (fabs (val s)) (lit 11103 (10 ^ 20)))"
    using assms(3) by (intro rep64_intros) simp_all
  ultimately show ?thesis
    using assms by (auto simp: least_change_def Let_def)
qed

lemma RampParamUpdate_rest:
  assumes wf: "ramp_wf s" and fin: "is_finite (val s)" "is_finite (req s)"
    and pos: "flt f0 (dxMax s)" "flt f0 (ddxMax s)"
    and mv: "isRamping s" and upd: "RampParamUpdate s = (s', v)" and rest: "\<not> isRamping s'"
  shows "val s' = req s \<and> req s' = req s \<and> v = req s"
proof -
  define dxReq where "dxReq = fsub (req s) (val s)"
  define acc where "acc = accel_limit s (slew_limit s dxReq)"
  define dxNow where "dxNow = least_change s dxReq (soft_landing s dxReq acc)"
  have s': "s' = (if fle (fabs dxReq) (fabs dxNow)
       then s\<lparr>isRamping := \<not> (feq dxNow f0 \<and> feq (dxPrev s) f0), val := req s, dxPrev := dxReq\<rparr>
       else s\<lparr>isRamping := \<not> (feq dxNow f0 \<and> feq (dxPrev s) f0),
              val := fadd (val s) dxNow, dxPrev := dxNow\<rparr>)" and v: "v = val s'"
    using mv upd by (auto simp: RampParamUpdate_def Let_def dxReq_def dxNow_def acc_def)
  have zero: "is_zero dxNow" "is_zero (dxPrev s)"
    using rest s' by (auto simp: feq_f0 split: if_splits)
  have "is_zero dxReq"
  proof (rule ccontr)
    assume "\<not> is_zero dxReq"
    moreover have "\<not> is_nan dxReq" "rep64 dxReq"
      using fsub_finite_cases [of "req s" "val s"] wf fin calculation
      by (auto simp: dxReq_def ramp_wf_def intro: rep64_intros)
    ultimately have req: "moves dxReq" by simp
    then have "moves acc \<and> \<not> flt (ddxMax s) (fabs acc)"
      using wf pos zero(2) unfolding acc_def ramp_wf_def
      by (intro accel_limit_moves slew_limit_moves) auto
    then have "soft_landing s dxReq acc = acc" "moves acc"
      by (auto simp: soft_landing_def Let_def)
    then have "moves dxNow"
      using req wf by (simp add: dxNow_def least_change_moves ramp_wf_def)
    with zero(1) show False by simp
  qed
  then have "fle (fabs dxReq) (fabs dxNow)"
    using zero by (cases dxReq; cases dxNow) (auto simp: fle_def feq_def)
  then show ?thesis using s' v by simp
qed

section \<open>The state stays in the format\<close>

lemma ramp_wf_RampParamInit: "rep64 x \<Longrightarrow> ramp_wf (RampParamInit s x r)"
  by (simp add: ramp_wf_def RampParamInit_def rep64_intros)

lemma ramp_wf_RampParamLoad:
  "ramp_wf s \<Longrightarrow> rep64 rq \<Longrightarrow> rep64 t \<Longrightarrow> ramp_wf (RampParamLoad s rq t r)"
  by (simp add: ramp_wf_def RampParamLoad_def Let_def rep64_intros)

lemma rep64_step:
  assumes "ramp_wf s" "rep64 dxReq"
  shows "rep64 (least_change s dxReq
           (soft_landing s dxReq (accel_limit s (slew_limit s dxReq))))"
proof -
  have "rep64 (slew_limit s dxReq)"
    using assms by (simp add: slew_limit_def ramp_wf_def)
  then have "rep64 (accel_limit s (slew_limit s dxReq))"
    using assms by (simp add: accel_limit_def Let_def ramp_wf_def rep64_intros)
  then have "rep64 (soft_landing s dxReq (accel_limit s (slew_limit s dxReq)))"
    using assms by (simp add: soft_landing_def Let_def ramp_wf_def rep64_intros)
  then show ?thesis
    using assms by (simp add: least_change_def Let_def ramp_wf_def rep64_intros)
qed

lemma ramp_wf_RampParamUpdate: "ramp_wf s \<Longrightarrow> ramp_wf (fst (RampParamUpdate s))"
  using rep64_step [of s "fsub (req s) (val s)"]
  by (auto simp: ramp_wf_def RampParamUpdate_def Let_def intro: rep64_intros)

section \<open>Properties\<close>

text \<open>A ramp comes to rest only at the value it was asked for. When an update of a moving
  ramp with a positive speed and acceleration limit clears the moving flag, the value is the
  request, bit for bit, and that is what the update returns.\<close>

theorem ramp_rests_at_request:
  assumes "ramp_wf s" "is_finite (val s)" "is_finite (req s)"
    and "flt f0 (dxMax s)" "flt f0 (ddxMax s)"
    and "RampParamGetIsRamping s = 1" "RampParamUpdate s = (s', v)"
    and "RampParamGetIsRamping s' = 0"
  shows "RampParamGetVal s' = req s \<and> v = req s"
  using RampParamUpdate_rest [of s s' v] assms
  by (simp add: RampParamGetIsRamping_def RampParamGetVal_def)

definition at_rest_example :: RampParamState where
  "at_rest_example = \<lparr>isRamping = True, val = of_cint 2, dxPrev = f0, req = of_cint 2,
     dxMax = of_cint 1, ddxMax = of_cint 1, softRatio = of_cint 4, softVel = of_cint 1,
     minAccCycles = of_cint 1\<rparr>"

theorem ramp_rests_at_request_witness:
  "RampParamGetVal (fst (RampParamUpdate at_rest_example)) = of_cint 2"
proof -
  have hyps: "ramp_wf at_rest_example" "is_finite (val at_rest_example)"
    "is_finite (req at_rest_example)" "flt f0 (dxMax at_rest_example)"
    "flt f0 (ddxMax at_rest_example)" "RampParamGetIsRamping at_rest_example = 1"
    by code_simp+
  have rest: "RampParamGetIsRamping (fst (RampParamUpdate at_rest_example)) = 0"
    by code_simp
  show ?thesis
    using ramp_rests_at_request [OF hyps prod.collapse [symmetric] rest]
    by (simp add: at_rest_example_def)
qed

text \<open>a request with a ramp time of zero or less takes effect at once and is held: every
  later update returns it.\<close>

theorem instant_request_holds:
  assumes "fle tRamp f0"
  shows "snd (RampParamUpdate (((fst \<circ> RampParamUpdate) ^^ n) (RampParamLoad s rq tRamp r))) = rq"
  using assms by (rule ramp.instant_load_holds)

theorem instant_request_holds_witness:
  "snd (RampParamUpdate (((fst \<circ> RampParamUpdate) ^^ 3)
     (RampParamLoad at_rest_example (of_cint 7) f0 16384))) = of_cint 7"
  by (rule instant_request_holds) (simp add: fle_def feq_def)

text \<open>The state of a ramp stays within the \<open>double\<close> format: every field a representable
  value, after initialisation, any load and any update.\<close>

theorem ramp_state_representable:
  assumes "rep64 x" "rep64 rq" "rep64 t" "ramp_wf s"
  shows "ramp_wf (RampParamInit s0 x r) \<and> ramp_wf (RampParamLoad s rq t r) \<and>
         ramp_wf (fst (RampParamUpdate s))"
  using assms
  by (simp add: ramp_wf_RampParamInit ramp_wf_RampParamLoad ramp_wf_RampParamUpdate)

theorem ramp_state_representable_witness:
  "ramp_wf (RampParamLoad at_rest_example (of_cint 3) (of_cint 1) 16384)"
proof -
  have "ramp_wf at_rest_example" by code_simp
  then show ?thesis
    using ramp_state_representable [of "of_cint 0" "of_cint 3" "of_cint 1" at_rest_example
        at_rest_example 16384] rep64_of_cint by blast
qed

end
