(* ===== verification/CommData.thy ===== *)
theory CommData
  imports Ieee
begin

text \<open>
  Inter-process communication of the front ends, \<^verbatim>\<open>src/fe/commData3.c\<close>: each model writes the
  signals it sends one cycle ahead into a ring of 64 blocks in shared or reflected memory,
  stamped with the GPS second and the cycle number at 65536 Hz, and a receiver takes a value
  only when the stamp is exactly its own present time. The memories are cells addressed by the
  location of the \<open>CDS_IPC_COMMS\<close> structure, the block and the signal number; a location is
  \<open>None\<close> where the code has a null pointer.
\<close>

unbundle bit_operations_syntax

section \<open>Data\<close>

abbreviation (input) MAX_IPC :: int where "MAX_IPC \<equiv> 1024"
abbreviation (input) IPC_BLOCKS :: int where "IPC_BLOCKS \<equiv> 64"
abbreviation (input) IPC_MAX_RATE :: int where "IPC_MAX_RATE \<equiv> 65536"
abbreviation (input) ISND :: int where "ISND \<equiv> 1"
abbreviation (input) IRCV :: int where "IRCV \<equiv> 0"
abbreviation (input) ISHME :: int where "ISHME \<equiv> 0"
abbreviation (input) IPCIE :: int where "IPCIE \<equiv> 1"
abbreviation (input) IRFM0 :: int where "IRFM0 \<equiv> 2"
abbreviation (input) IRFM1 :: int where "IRFM1 \<equiv> 3"

record CDS_IPC_XMIT =
  xdata :: fp
  timestamp :: u64

text \<open>The size of a \<open>CDS_IPC_COMMS\<close> in bytes, and the places of the reflected memories.\<close>

definition sizeof_CDS_IPC_COMMS :: nat where
  "sizeof_CDS_IPC_COMMS = 64 * 1024 * 16"

definition IPC_BASE_OFFSET :: nat where "IPC_BASE_OFFSET = 0"
definition IPC_PCIE_BASE_OFFSET :: nat where "IPC_PCIE_BASE_OFFSET = 0x100"
definition RFM0_OFFSET :: nat where "RFM0_OFFSET = 1 * sizeof_CDS_IPC_COMMS"
definition RFM1_OFFSET :: nat where "RFM1_OFFSET = 2 * sizeof_CDS_IPC_COMMS"

record CDS_IPC_INFO =
  data :: fp
  sendNode :: int
  netType :: int
  sendCycle :: int
  sendRate :: int
  rcvRate :: int
  rcvCycle :: int
  ipcNum :: int
  mode :: int
  errFlag :: int
  errTotal :: int
  name :: string
  senderModelName :: string
  pIpcDataRead :: "nat option"
  pIpcDataWrite :: "nat option"

text \<open>What the build and the start-up fix: the rate of the model, the long-range delay option,
  the Dolphin segments (0 where there is none) and the shared memory.\<close>

record ipc_env =
  IPC_RATE :: int
  RFM_DELAY :: bool
  dolphinRead :: "nat \<Rightarrow> nat"
  dolphinWrite :: "nat \<Rightarrow> nat"
  shmipc_shm :: nat

type_synonym ipc_cell = "nat \<times> int \<times> int"
type_synonym ipc_mem = "ipc_cell \<Rightarrow> CDS_IPC_XMIT"

section \<open>Initialisation\<close>

text \<open>\<open>None\<close> is the trap of an integer division by zero.\<close>

definition init_rates :: "int \<Rightarrow> CDS_IPC_INFO \<Rightarrow> CDS_IPC_INFO option" where
  "init_rates rate info =
     (if rate = 0 then None
      else
        let info = info\<lparr>sendCycle := IPC_MAX_RATE sdiv rate\<rparr>
        in if mode info = IRCV then
             if sendRate info \<ge> rate then
               Some (info\<lparr>rcvRate := sendRate info sdiv rate, rcvCycle := 1\<rparr>)
             else if sendRate info = 0 then None
             else
               let r = rate sdiv sendRate info
               in Some (info\<lparr>rcvRate := r, rcvCycle := r\<rparr>)
           else Some info)"

text \<open>A pointer at address \<open>a\<close>.\<close>

definition ptr_at :: "nat \<Rightarrow> nat option" where
  "ptr_at a = (if a = 0 then None else Some a)"

definition init_pointers :: "ipc_env \<Rightarrow> CDS_IPC_INFO \<Rightarrow> CDS_IPC_INFO" where
  "init_pointers env info =
     (let info = info\<lparr>data := Zero False, pIpcDataRead := None, pIpcDataWrite := None\<rparr>;
          rfm = (netType info = IRFM0 \<or> netType info = IRFM1);
          ipcMemOffset = IPC_PCIE_BASE_OFFSET +
            (if netType info = IRFM1 then RFM1_OFFSET else RFM0_OFFSET);
          info = (if rfm \<and> mode info = ISND \<and> dolphinWrite env 1 \<noteq> 0
                  then info\<lparr>pIpcDataWrite := Some (dolphinWrite env 1 + ipcMemOffset)\<rparr> else info);
          info = (if rfm \<and> mode info = IRCV \<and> dolphinRead env 1 \<noteq> 0
                  then info\<lparr>pIpcDataRead := Some (dolphinRead env 1 + ipcMemOffset)\<rparr> else info);
          info = (if netType info = ISHME then
                    if mode info = ISND
                    then info\<lparr>pIpcDataWrite := ptr_at (shmipc_shm env + IPC_BASE_OFFSET)\<rparr>
                    else info\<lparr>pIpcDataRead := ptr_at (shmipc_shm env + IPC_BASE_OFFSET)\<rparr>
                  else info);
          info = (if netType info = IPCIE \<and> mode info = IRCV \<and> dolphinRead env 0 \<noteq> 0
                  then info\<lparr>pIpcDataRead := Some (dolphinRead env 0 + IPC_PCIE_BASE_OFFSET)\<rparr>
                  else info);
          info = (if netType info = IPCIE \<and> mode info = ISND \<and> dolphinWrite env 0 \<noteq> 0
                  then info\<lparr>pIpcDataWrite := Some (dolphinWrite env 0 + IPC_PCIE_BASE_OFFSET)\<rparr>
                  else info)
      in info)"

definition commData3Init ::
  "ipc_env \<Rightarrow> int \<Rightarrow> CDS_IPC_INFO list \<Rightarrow> CDS_IPC_INFO list option" where
  "commData3Init env rate ipcInfo =
     those (map (\<lambda>info. map_option (init_pointers env) (init_rates rate info)) ipcInfo)"

section \<open>Sending\<close>

definition sendBlock_of :: "ipc_env \<Rightarrow> int \<Rightarrow> int" where
  "sendBlock_of env cyc = ((cyc + 1) * (IPC_MAX_RATE sdiv IPC_RATE env)) smod IPC_BLOCKS"

definition dataCycle_of :: "int \<Rightarrow> int \<Rightarrow> int" where
  "dataCycle_of sc cyc = ((cyc + 1) * sc) smod IPC_MAX_RATE"

text \<open>The GPS second in the upper half, the cycle number in the lower.\<close>

definition sync_word :: "int \<Rightarrow> int \<Rightarrow> u64" where
  "sync_word sec cyc = push_bit 32 (word_of_int sec) + word_of_int cyc"

definition send_xmit :: "ipc_mem \<Rightarrow> ipc_cell \<Rightarrow> CDS_IPC_XMIT \<Rightarrow> ipc_mem" where
  "send_xmit mem cell x = mem(cell := x)"

text \<open>One pass over the list, for the networks \<open>nets\<close>; the second component is the last cell
  written on a network of \<open>flushed\<close>, whose cache line is flushed at the end.\<close>

fun send_pass ::
  "int set \<Rightarrow> int set \<Rightarrow> int \<Rightarrow> u64 \<Rightarrow> CDS_IPC_INFO list \<Rightarrow> ipc_mem \<Rightarrow> ipc_cell option \<Rightarrow>
     ipc_mem \<times> ipc_cell option" where
  "send_pass nets flushed blk sync [] mem lastPcie = (mem, lastPcie)"
| "send_pass nets flushed blk sync (info # infos) mem lastPcie =
     (if mode info = ISND \<and> netType info \<in> nets then
        case pIpcDataWrite info of
          None \<Rightarrow> send_pass nets flushed blk sync infos mem lastPcie
        | Some p \<Rightarrow>
            let cell = (p, blk, ipcNum info)
            in send_pass nets flushed blk sync infos
                 (send_xmit mem cell \<lparr>xdata = data info, timestamp = sync\<rparr>)
                 (if netType info \<in> flushed then Some cell else lastPcie)
      else send_pass nets flushed blk sync infos mem lastPcie)"

definition plain_sync :: "int \<Rightarrow> int \<Rightarrow> int \<Rightarrow> u64" where
  "plain_sync sc timeSec cyc =
     (let dataCycle = dataCycle_of sc cyc
      in sync_word (if dataCycle = 0 then timeSec + 1 else timeSec) dataCycle)"

definition delayed_sync :: "int \<Rightarrow> int \<Rightarrow> int \<Rightarrow> u64" where
  "delayed_sync sc timeSec cyc =
     (let dataCycle = dataCycle_of sc (cyc + 1)
      in sync_word (if dataCycle = 0 \<or> dataCycle = sc then timeSec + 1 else timeSec) dataCycle)"

text \<open>The memory after the call, and the cells flushed. The code reads \<open>ipcInfo[0].sendCycle\<close>;
  with no connection there is nothing to send.\<close>

definition commData3Send ::
  "ipc_env \<Rightarrow> CDS_IPC_INFO list \<Rightarrow> int \<Rightarrow> int \<Rightarrow> ipc_mem \<Rightarrow> ipc_mem \<times> ipc_cell list" where
  "commData3Send env ipcInfo timeSec cyc mem =
     (case ipcInfo of
        [] \<Rightarrow> (mem, [])
      | info0 # _ \<Rightarrow>
          let sc = sendCycle info0;
              rfmBlock = sendBlock_of env (if RFM_DELAY env then cyc + 1 else cyc);
              rfmSync = (if RFM_DELAY env then delayed_sync sc timeSec cyc
                         else plain_sync sc timeSec cyc);
              (mem1, flush1) =
                send_pass {IRFM0, IRFM1} {IRFM0, IRFM1} rfmBlock rfmSync ipcInfo mem None;
              (mem2, flush2) =
                send_pass {ISHME, IPCIE} {IPCIE} (sendBlock_of env cyc)
                  (plain_sync sc timeSec cyc) ipcInfo mem1 None
          in (mem2, (case flush1 of None \<Rightarrow> [] | Some c \<Rightarrow> [c]) @
                    (case flush2 of None \<Rightarrow> [] | Some c \<Rightarrow> [c])))"

section \<open>Receiving\<close>

definition rcvBlock_of :: "ipc_env \<Rightarrow> int \<Rightarrow> int" where
  "rcvBlock_of env cyc = (cyc * (IPC_MAX_RATE sdiv IPC_RATE env)) smod IPC_BLOCKS"

definition receive_one ::
  "ipc_env \<Rightarrow> int \<Rightarrow> int \<Rightarrow> ipc_mem \<Rightarrow> CDS_IPC_INFO \<Rightarrow> CDS_IPC_INFO option" where
  "receive_one env timeSec cyc mem info =
     (if mode info = IRCV then
        if rcvCycle info = 0 then None
        else if cyc smod rcvCycle info = 0 then
          case pIpcDataRead info of
            Some p \<Rightarrow>
              let x = mem (p, rcvBlock_of env cyc, ipcNum info)
              in if timestamp x = sync_word timeSec (cyc * sendCycle info)
                 then Some (info\<lparr>data := xdata x\<rparr>)
                 else Some (info\<lparr>errFlag := errFlag info + 1\<rparr>)
          | None \<Rightarrow> Some (info\<lparr>errFlag := errFlag info + 1\<rparr>)
        else Some info
      else Some info)"

definition error_bits :: "CDS_IPC_INFO \<Rightarrow> u32 \<Rightarrow> u32" where
  "error_bits info bits =
     (if mode info = IRCV \<and> errFlag info \<noteq> 0
      then bits OR push_bit (nat (netType info)) 1 OR push_bit (nat (netType info)) 16
      else bits)"

definition roll_errors :: "CDS_IPC_INFO \<Rightarrow> CDS_IPC_INFO" where
  "roll_errors info =
     (if mode info = IRCV then info\<lparr>errTotal := errFlag info, errFlag := 0\<rparr> else info)"

definition commData3Receive ::
  "ipc_env \<Rightarrow> CDS_IPC_INFO list \<Rightarrow> int \<Rightarrow> int \<Rightarrow> ipc_mem \<Rightarrow> u32 \<Rightarrow>
     (CDS_IPC_INFO list \<times> u32) option" where
  "commData3Receive env ipcInfo timeSec cyc mem ipcErrBits =
     map_option
       (\<lambda>ipcInfo. if cyc = 0
          then (map roll_errors ipcInfo, fold error_bits ipcInfo (ipcErrBits AND 0xf0))
          else (ipcInfo, ipcErrBits))
       (those (map (receive_one env timeSec cyc mem) ipcInfo))"

section \<open>What a send writes\<close>

interpretation ipc: cell_memory send_xmit "\<lambda>mem cell. mem cell"
  by unfold_locales (auto simp: send_xmit_def)

text \<open>The cells a pass writes, in order.\<close>

definition sent_cells ::
  "int set \<Rightarrow> int \<Rightarrow> u64 \<Rightarrow> CDS_IPC_INFO list \<Rightarrow> (ipc_cell \<times> CDS_IPC_XMIT) list" where
  "sent_cells nets blk sync infos =
     concat (map (\<lambda>info. if mode info = ISND \<and> netType info \<in> nets
       then (case pIpcDataWrite info of None \<Rightarrow> []
             | Some p \<Rightarrow> [((p, blk, ipcNum info), \<lparr>xdata = data info, timestamp = sync\<rparr>)])
       else []) infos)"

lemma send_pass_mem:
  "fst (send_pass nets flushed blk sync infos mem l) =
     fold (\<lambda>(k, v) m. send_xmit m k v) (sent_cells nets blk sync infos) mem"
  by (induction infos arbitrary: mem l)
     (auto simp: sent_cells_def Let_def split: option.split)

lemma sent_cells_iff:
  "(c, x) \<in> set (sent_cells nets blk sync infos) \<longleftrightarrow>
     (\<exists>info p. info \<in> set infos \<and> mode info = ISND \<and> netType info \<in> nets \<and>
        pIpcDataWrite info = Some p \<and> c = (p, blk, ipcNum info) \<and>
        x = \<lparr>xdata = data info, timestamp = sync\<rparr>)"
  by (force simp: sent_cells_def split: option.splits if_splits)

definition all_sent_cells ::
  "ipc_env \<Rightarrow> CDS_IPC_INFO list \<Rightarrow> int \<Rightarrow> int \<Rightarrow> int \<Rightarrow> (ipc_cell \<times> CDS_IPC_XMIT) list" where
  "all_sent_cells env infos sc timeSec cyc =
     sent_cells {IRFM0, IRFM1} (sendBlock_of env (if RFM_DELAY env then cyc + 1 else cyc))
       (if RFM_DELAY env then delayed_sync sc timeSec cyc else plain_sync sc timeSec cyc) infos @
     sent_cells {ISHME, IPCIE} (sendBlock_of env cyc) (plain_sync sc timeSec cyc) infos"

lemma commData3Send_mem:
  "infos \<noteq> [] \<Longrightarrow> fst (commData3Send env infos timeSec cyc mem) =
     fold (\<lambda>(k, v) m. send_xmit m k v)
       (all_sent_cells env infos (sendCycle (hd infos)) timeSec cyc) mem"
  by (cases infos)
     (simp_all add: commData3Send_def all_sent_cells_def send_pass_mem Let_def split_def
        del: send_pass.simps)

text \<open>The block and stamp of a signal, by its network.\<close>

definition out_block :: "ipc_env \<Rightarrow> int \<Rightarrow> int \<Rightarrow> int" where
  "out_block env net cyc =
     sendBlock_of env (if RFM_DELAY env \<and> net \<in> {IRFM0, IRFM1} then cyc + 1 else cyc)"

definition out_sync :: "ipc_env \<Rightarrow> int \<Rightarrow> int \<Rightarrow> int \<Rightarrow> int \<Rightarrow> u64" where
  "out_sync env net sc timeSec cyc =
     (if RFM_DELAY env \<and> net \<in> {IRFM0, IRFM1} then delayed_sync sc timeSec cyc
      else plain_sync sc timeSec cyc)"

lemma all_sent_cells_iff:
  "(c, x) \<in> set (all_sent_cells env infos sc timeSec cyc) \<longleftrightarrow>
     (\<exists>info p. info \<in> set infos \<and> mode info = ISND \<and> netType info \<in> {ISHME, IPCIE, IRFM0, IRFM1} \<and>
        pIpcDataWrite info = Some p \<and> c = (p, out_block env (netType info) cyc, ipcNum info) \<and>
        x = \<lparr>xdata = data info, timestamp = out_sync env (netType info) sc timeSec cyc\<rparr>)"
  unfolding all_sent_cells_def set_append Un_iff sent_cells_iff out_block_def out_sync_def
  by (rule iffI; elim disjE exE conjE; fastforce)

section \<open>Stamps\<close>

lemma sync_word_eq_iff:
  assumes "0 \<le> c" "c < 2 ^ 32" "0 \<le> d" "d < 2 ^ 32"
    and "0 \<le> s" "s < 2 ^ 32" "0 \<le> t" "t < 2 ^ 32"
  shows "sync_word s c = sync_word t d \<longleftrightarrow> s = t \<and> c = d"
proof -
  have uint: "uint (sync_word u e) = u * 2 ^ 32 + e"
    if "0 \<le> u" "u < 2 ^ 32" "0 \<le> e" "e < 2 ^ 32" for u e
  proof -
    have "sync_word u e = word_of_int (u * 2 ^ 32 + e)"
      by (simp add: sync_word_def push_bit_eq_mult)
    moreover have "0 \<le> u * 2 ^ 32 + e" "u * 2 ^ 32 + e < 2 ^ 64"
      using that by simp_all
    ultimately show ?thesis
      by (simp only: uint_word_of_int_eq take_bit_int_eq_self len_bit1 len_bit0 len_num1) (simp add: take_bit_int_eq_self)
  qed
  have "sync_word s c = sync_word t d \<longleftrightarrow> s * 2 ^ 32 + c = t * 2 ^ 32 + d"
    using uint [of s c] uint [of t d] assms by (metis word_uint_eqI)
  also have "\<dots> \<longleftrightarrow> s = t \<and> c = d"
  proof
    assume eq: "s * 2 ^ 32 + c = t * 2 ^ 32 + d"
    have "(s * 2 ^ 32 + c) mod 2 ^ 32 = (t * 2 ^ 32 + d) mod 2 ^ 32" using eq by (simp only:)
    then have "c = d" using assms(1-4) by simp
    with eq show "s = t \<and> c = d" by simp
  qed simp
  finally show ?thesis .
qed

text \<open>A rate the front ends run at: a divisor of the 65536 Hz of the stamps.\<close>

definition ipc_rate_ok :: "int \<Rightarrow> bool" where
  "ipc_rate_ok r \<longleftrightarrow> 1 < r \<and> r dvd IPC_MAX_RATE"

lemma ipc_rate_okE:
  assumes "ipc_rate_ok r"
  obtains "0 < IPC_MAX_RATE div r" "r * (IPC_MAX_RATE div r) = IPC_MAX_RATE"
    "IPC_MAX_RATE div r < IPC_MAX_RATE"
proof -
  have "65536 div r < 65536" using assms int_div_less_self [of 65536 r] by (simp add: ipc_rate_ok_def)
  moreover have "0 < 65536 div r" using assms by (simp add: ipc_rate_ok_def pos_imp_zdiv_pos_iff zdvd_imp_le)
  ultimately show ?thesis using assms that by (simp add: ipc_rate_ok_def)
qed

lemma sendBlock_of_eq:
  assumes "ipc_rate_ok (IPC_RATE env)" "0 \<le> cyc"
  shows "sendBlock_of env cyc = ((cyc + 1) * (IPC_MAX_RATE div IPC_RATE env)) mod IPC_BLOCKS"
  using assms by (simp add: sendBlock_of_def ipc_rate_ok_def c_arith pos_imp_zdiv_nonneg_iff)

lemma rcvBlock_of_eq:
  assumes "ipc_rate_ok (IPC_RATE env)" "0 \<le> cyc"
  shows "rcvBlock_of env cyc = (cyc * (IPC_MAX_RATE div IPC_RATE env)) mod IPC_BLOCKS"
  using assms by (simp add: rcvBlock_of_def ipc_rate_ok_def c_arith pos_imp_zdiv_nonneg_iff)

lemma dataCycle_of_eq:
  assumes "0 \<le> sc" "0 \<le> cyc"
  shows "dataCycle_of sc cyc = ((cyc + 1) * sc) mod IPC_MAX_RATE"
  using assms by (simp add: dataCycle_of_def c_arith)

text \<open>The number of sender cycles from the start of the second to the moment a value sent now is
  for, and that moment on the 65536 Hz clock.\<close>

definition lead_cycle :: "ipc_env \<Rightarrow> int \<Rightarrow> int \<Rightarrow> int" where
  "lead_cycle env net cyc = (if RFM_DELAY env \<and> net \<in> {IRFM0, IRFM1} then cyc + 2 else cyc + 1)"

definition send_tick :: "ipc_env \<Rightarrow> int \<Rightarrow> int \<Rightarrow> int \<Rightarrow> int" where
  "send_tick env net timeSec cyc =
     timeSec * IPC_MAX_RATE + lead_cycle env net cyc * (IPC_MAX_RATE div IPC_RATE env)"

definition rcv_tick :: "ipc_env \<Rightarrow> int \<Rightarrow> int \<Rightarrow> int" where
  "rcv_tick env timeSec cyc = timeSec * IPC_MAX_RATE + cyc * (IPC_MAX_RATE div IPC_RATE env)"

lemma second_in_blocks: "(t * IPC_MAX_RATE + x) mod IPC_BLOCKS = x mod IPC_BLOCKS"
proof -
  have "t * IPC_MAX_RATE + x = x + IPC_BLOCKS * (t * 1024)" by simp
  then show ?thesis by (simp only: mod_mult_self2)
qed

lemma out_block_tick:
  assumes "ipc_rate_ok (IPC_RATE env)" "0 \<le> cyc"
  shows "out_block env net cyc = send_tick env net timeSec cyc mod IPC_BLOCKS"
  using assms
  by (auto simp: out_block_def send_tick_def lead_cycle_def sendBlock_of_eq second_in_blocks
      add.commute)

lemma rcvBlock_tick:
  assumes "ipc_rate_ok (IPC_RATE env)" "0 \<le> cyc"
  shows "rcvBlock_of env cyc = rcv_tick env timeSec cyc mod IPC_BLOCKS"
  using assms by (simp add: rcv_tick_def rcvBlock_of_eq second_in_blocks)

lemma plain_sync_tick:
  assumes "ipc_rate_ok r" "0 \<le> cyc" "cyc < r"
  defines "k \<equiv> IPC_MAX_RATE div r"
  shows "plain_sync k timeSec cyc =
    sync_word (timeSec + (cyc + 1) * k div IPC_MAX_RATE) ((cyc + 1) * k mod IPC_MAX_RATE)"
proof -
  have k: "0 < k" "r * k = IPC_MAX_RATE"
    using ipc_rate_okE [OF assms(1)] by (auto simp: k_def)
  have "(cyc + 1) * k \<le> IPC_MAX_RATE"
    using mult_right_mono [of "cyc + 1" r k] assms k by simp
  moreover have "0 < (cyc + 1) * k" using assms k by simp
  ultimately consider "(cyc + 1) * k = IPC_MAX_RATE" | "0 < (cyc + 1) * k" "(cyc + 1) * k < IPC_MAX_RATE"
    by linarith
  then show ?thesis
    using assms k by cases (simp_all add: plain_sync_def dataCycle_of_eq)
qed

lemma delayed_sync_tick:
  assumes "ipc_rate_ok r" "0 \<le> cyc" "cyc < r"
  defines "k \<equiv> IPC_MAX_RATE div r"
  shows "delayed_sync k timeSec cyc =
    sync_word (timeSec + (cyc + 2) * k div IPC_MAX_RATE) ((cyc + 2) * k mod IPC_MAX_RATE)"
proof -
  have k: "0 < k" "r * k = IPC_MAX_RATE" "k < IPC_MAX_RATE"
    using ipc_rate_okE [OF assms(1)] by (auto simp: k_def)
  have dc: "dataCycle_of k (cyc + 1) = (cyc + 2) * k mod IPC_MAX_RATE"
    using dataCycle_of_eq [of k "cyc + 1"] assms(2) k(1) by (simp add: add.commute)
  consider "cyc + 2 < r" | "cyc + 2 = r" | "cyc = r - 1" using assms by linarith
  then show ?thesis
  proof cases
    case 1
    have "(cyc + 2) * k < IPC_MAX_RATE" using mult_strict_right_mono [OF 1 k(1)] k(2) by simp
    moreover have "k < (cyc + 2) * k" using assms k by simp
    ultimately show ?thesis using dc k(1) by (simp add: delayed_sync_def)
  next
    case 2
    then show ?thesis using dc k by (simp add: delayed_sync_def)
  next
    case 3
    have "(cyc + 2) * k = k + r * k" unfolding 3 by (simp add: algebra_simps)
    also have "\<dots> = k + IPC_MAX_RATE" using k(2) by simp
    finally have "(cyc + 2) * k = k + IPC_MAX_RATE" .
    then show ?thesis using dc k by (simp add: delayed_sync_def)
  qed
qed

text \<open>The stamp of a moment. Stamps tell moments apart until the seconds outgrow 32 bits.\<close>

definition stamp_of :: "int \<Rightarrow> u64" where
  "stamp_of tick = sync_word (tick div IPC_MAX_RATE) (tick mod IPC_MAX_RATE)"

lemma stamp_of_eq_iff:
  assumes "0 \<le> a" "a < 2 ^ 48" "0 \<le> b" "b < 2 ^ 48"
  shows "stamp_of a = stamp_of b \<longleftrightarrow> a = b"
proof -
  have sec: "0 \<le> x div IPC_MAX_RATE" "x div IPC_MAX_RATE < 2 ^ 32" if "0 \<le> x" "x < 2 ^ 48" for x :: int
    using that by (simp_all add: pos_imp_zdiv_nonneg_iff div_less_iff_less_mult)
  have cyc: "0 \<le> x mod IPC_MAX_RATE" "x mod IPC_MAX_RATE < 2 ^ 32" for x :: int
    using pos_mod_bound [of IPC_MAX_RATE x] by simp_all
  have "stamp_of a = stamp_of b \<longleftrightarrow>
      a div IPC_MAX_RATE = b div IPC_MAX_RATE \<and> a mod IPC_MAX_RATE = b mod IPC_MAX_RATE"
    unfolding stamp_of_def by (rule sync_word_eq_iff) (use assms sec cyc in blast)+
  also have "\<dots> \<longleftrightarrow> a = b" by (metis div_mult_mod_eq)
  finally show ?thesis .
qed

lemma out_sync_stamp:
  assumes "ipc_rate_ok (IPC_RATE env)" "0 \<le> cyc" "cyc < IPC_RATE env"
  shows "out_sync env net (IPC_MAX_RATE div IPC_RATE env) timeSec cyc =
    stamp_of (send_tick env net timeSec cyc)"
  using assms
  by (auto simp: out_sync_def stamp_of_def send_tick_def lead_cycle_def plain_sync_tick
      delayed_sync_tick)

lemma rcv_stamp:
  assumes "ipc_rate_ok (IPC_RATE env)" "0 \<le> cyc" "cyc < IPC_RATE env"
  shows "sync_word timeSec (cyc * (IPC_MAX_RATE div IPC_RATE env)) =
    stamp_of (rcv_tick env timeSec cyc)"
proof -
  let ?k = "IPC_MAX_RATE div IPC_RATE env"
  obtain k: "0 < ?k" "IPC_RATE env * ?k = IPC_MAX_RATE" using ipc_rate_okE [OF assms(1)] by blast
  have "cyc * ?k < IPC_MAX_RATE"
    using mult_strict_right_mono [OF assms(3) k(1)] unfolding k(2) .
  moreover have "0 \<le> cyc * ?k" using assms(2) k(1) by simp
  ultimately show ?thesis by (simp add: stamp_of_def rcv_tick_def)
qed

section \<open>From the sender to the receiver\<close>

text \<open>A connection as the initialisation leaves it, in a model of rate \<open>rate\<close>.\<close>

definition ipc_ready :: "int \<Rightarrow> CDS_IPC_INFO \<Rightarrow> bool" where
  "ipc_ready rate info \<longleftrightarrow>
     sendCycle info = IPC_MAX_RATE div rate \<and>
     (mode info = IRCV \<longrightarrow>
        0 < rcvCycle info \<and> rcvCycle info = max 1 (rate div sendRate info))"

lemma div_eq_1_of_ge: "0 < b \<Longrightarrow> b \<le> a \<Longrightarrow> b dvd 65536 \<Longrightarrow> max 1 (b div a) = (1::int)"
  by (cases "a = b") (simp_all add: div_pos_pos_trivial)

lemma init_rates_ready:
  assumes "ipc_rate_ok rate" "mode info = IRCV \<Longrightarrow> ipc_rate_ok (sendRate info)"
  shows "\<exists>info'. init_rates rate info = Some info' \<and> ipc_ready rate info' \<and>
    mode info' = mode info \<and> netType info' = netType info \<and> ipcNum info' = ipcNum info"
proof (cases "mode info = IRCV")
  case True
  have r: "0 < rate" "0 < sendRate info" "rate dvd 65536"
    using assms(1) assms(2) [OF True] by (auto simp: ipc_rate_ok_def)
  have "1 \<le> rate div sendRate info" if "sendRate info < rate"
    using that r pos_imp_zdiv_pos_iff [of "sendRate info" rate] by linarith
  with True r show ?thesis
    by (auto simp: init_rates_def ipc_ready_def Let_def c_arith div_eq_1_of_ge)
next
  case False
  then show ?thesis using assms(1)
    by (auto simp: init_rates_def ipc_ready_def Let_def c_arith ipc_rate_ok_def)
qed

lemma init_pointers_frame [frame]:
  "mode (init_pointers env info) = mode info" "netType (init_pointers env info) = netType info"
  "sendCycle (init_pointers env info) = sendCycle info" "sendRate (init_pointers env info) = sendRate info"
  "rcvCycle (init_pointers env info) = rcvCycle info" "ipcNum (init_pointers env info) = ipcNum info"
  "errFlag (init_pointers env info) = errFlag info"
  "data (init_pointers env info) = Zero False"
  by (simp_all add: init_pointers_def Let_def)

lemma init_pointers_ready: "ipc_ready rate (init_pointers env info) = ipc_ready rate info"
  by (simp add: ipc_ready_def frame)

text \<open>What a value of \<open>info\<close>, sent alone on its signal number, leaves in memory.\<close>

definition sole_sender :: "CDS_IPC_INFO list \<Rightarrow> CDS_IPC_INFO \<Rightarrow> nat \<Rightarrow> bool" where
  "sole_sender infos info p \<longleftrightarrow>
     info \<in> set infos \<and> mode info = ISND \<and> netType info \<in> {ISHME, IPCIE, IRFM0, IRFM1} \<and>
     pIpcDataWrite info = Some p \<and>
     (\<forall>j \<in> set infos. mode j = ISND \<and> pIpcDataWrite j = Some p \<and> ipcNum j = ipcNum info \<longrightarrow> j = info)"

lemma sent_cell:
  assumes "sole_sender infos info p" "\<forall>j \<in> set infos. ipc_ready (IPC_RATE env) j"
    and "ipc_rate_ok (IPC_RATE env)" "0 \<le> cyc" "cyc < IPC_RATE env"
  shows "fst (commData3Send env infos timeSec cyc mem)
      (p, send_tick env (netType info) timeSec cyc mod IPC_BLOCKS, ipcNum info) =
    \<lparr>xdata = data info, timestamp = stamp_of (send_tick env (netType info) timeSec cyc)\<rparr>"
proof -
  have ne: "infos \<noteq> []" using assms(1) by (auto simp: sole_sender_def)
  then have sc: "sendCycle (hd infos) = IPC_MAX_RATE div IPC_RATE env"
    using assms(2) by (simp add: ipc_ready_def)
  let ?cell = "(p, out_block env (netType info) cyc, ipcNum info)"
  let ?x = "\<lparr>xdata = data info,
    timestamp = out_sync env (netType info) (sendCycle (hd infos)) timeSec cyc\<rparr>"
  have "fst (commData3Send env infos timeSec cyc mem) ?cell = ?x"
    unfolding commData3Send_mem [OF ne]
  proof (rule ipc.rd_fold_mem)
    show "(?cell, ?x) \<in> set (all_sent_cells env infos (sendCycle (hd infos)) timeSec cyc)"
      unfolding all_sent_cells_iff using assms(1) by (auto simp: sole_sender_def)
    show "w = ?x" if sent: "(?cell, w) \<in> set (all_sent_cells env infos (sendCycle (hd infos)) timeSec cyc)" for w
    proof -
      obtain j where "j \<in> set infos" "mode j = ISND" "pIpcDataWrite j = Some p" "ipcNum j = ipcNum info"
        and w: "w = \<lparr>xdata = data j,
          timestamp = out_sync env (netType j) (sendCycle (hd infos)) timeSec cyc\<rparr>"
        using sent unfolding all_sent_cells_iff by auto
      with assms(1) have "j = info" by (auto simp: sole_sender_def)
      with w show ?thesis by simp
    qed
  qed
  then show ?thesis
    using assms(3-5) by (simp add: sc out_sync_stamp flip: out_block_tick)
qed

lemma receive_one_tick:
  assumes "ipc_ready (IPC_RATE env) r" "ipc_rate_ok (IPC_RATE env)" "0 \<le> cyc" "cyc < IPC_RATE env"
    and "mode r = IRCV" "pIpcDataRead r = Some p" "rcvCycle r dvd cyc"
  shows "receive_one env timeSec cyc mem r =
    (let x = mem (p, rcv_tick env timeSec cyc mod IPC_BLOCKS, ipcNum r)
     in if timestamp x = stamp_of (rcv_tick env timeSec cyc)
        then Some (r\<lparr>data := xdata x\<rparr>) else Some (r\<lparr>errFlag := errFlag r + 1\<rparr>))"
  using assms
  by (simp add: receive_one_def ipc_ready_def rcv_stamp c_arith rcvBlock_tick [where timeSec = timeSec]
      dvd_eq_mod_eq_0)

lemma receive_one_returns:
  "ipc_ready rate r \<Longrightarrow> receive_one env timeSec cyc mem r \<noteq> None"
  by (auto simp: receive_one_def ipc_ready_def Let_def split: option.split)

lemma receive_one_frame [frame]:
  assumes "receive_one env timeSec cyc mem r = Some r'"
  shows "netType r' = netType r" "mode r' = mode r" "ipcNum r' = ipcNum r"
    "ipc_ready rate r' = ipc_ready rate r"
  using assms
  by (auto simp: receive_one_def ipc_ready_def Let_def split: if_splits option.splits)

lemma receive_nth:
  assumes "\<forall>j \<in> set rs. ipc_ready rate j" "i < length rs"
  obtains rs' bits' where "commData3Receive env rs timeSec cyc mem bits = Some (rs', bits')"
    "length rs' = length rs"
    "rs' ! i = (if cyc = 0 then roll_errors (the (receive_one env timeSec cyc mem (rs ! i)))
                else the (receive_one env timeSec cyc mem (rs ! i)))"
proof -
  have "those (map (receive_one env timeSec cyc mem) rs) =
      Some (map (the \<circ> receive_one env timeSec cyc mem) rs)"
    using assms(1) receive_one_returns by (intro those_map_Some) blast
  with assms(2) that show ?thesis by (cases "cyc = 0") (auto simp: commData3Receive_def)
qed

lemma dvd_power2_cases:
  assumes "0 < d" "d dvd 2 ^ n"
  shows "\<exists>i. d = (2 :: int) ^ i"
  using assms
proof (induction n arbitrary: d)
  case 0
  then show ?case by (auto intro: exI [of _ 0])
next
  case (Suc n)
  show ?case
  proof (cases "even d")
    case True
    then obtain e where d: "d = 2 * e" by (rule evenE)
    with Suc.prems have "0 < e" "e dvd 2 ^ n" by simp_all
    then obtain i where "e = 2 ^ i" using Suc.IH by blast
    with d have "d = 2 ^ Suc i" by simp
    then show ?thesis ..
  next
    case False
    then have "coprime d (2 ^ Suc n)" by simp
    with Suc.prems have "is_unit d" using coprime_absorb_left by blast
    with Suc.prems have "d = 1" by simp
    then show ?thesis by (auto intro: exI [of _ 0])
  qed
qed

lemma ipc_rate_dvd:
  assumes "ipc_rate_ok a" "ipc_rate_ok b" "a \<le> b"
  shows "a dvd b"
proof -
  have "a dvd 2 ^ 16" "b dvd 2 ^ 16" "0 < a" "0 < b" using assms by (simp_all add: ipc_rate_ok_def)
  then obtain i j where "a = 2 ^ i" "b = 2 ^ j" using dvd_power2_cases by blast
  with assms(3) show ?thesis by (simp add: le_imp_power_dvd)
qed

text \<open>A receiver whose present moment is the one a value was sent for runs its connection then.\<close>

lemma due_when_sent:
  assumes "ipc_rate_ok (IPC_RATE envS)" "ipc_rate_ok (IPC_RATE envR)"
    and "ipc_ready (IPC_RATE envR) r" "mode r = IRCV" "sendRate r = IPC_RATE envS"
    and tick: "send_tick envS net t c = rcv_tick envR t' c'"
  shows "rcvCycle r dvd c'"
proof (cases "IPC_RATE envS < IPC_RATE envR")
  case False
  then have "rcvCycle r = 1"
    using assms div_eq_1_of_ge by (auto simp: ipc_ready_def ipc_rate_ok_def)
  then show ?thesis by simp
next
  case True
  let ?rs = "IPC_RATE envS" and ?rr = "IPC_RATE envR"
  let ?ks = "IPC_MAX_RATE div ?rs" and ?kr = "IPC_MAX_RATE div ?rr"
  obtain ks: "0 < ?ks" "?rs * ?ks = IPC_MAX_RATE" using ipc_rate_okE [OF assms(1)] by blast
  obtain kr: "0 < ?kr" "?rr * ?kr = IPC_MAX_RATE" using ipc_rate_okE [OF assms(2)] by blast
  have "?rs dvd ?rr" using ipc_rate_dvd assms(1,2) True by simp
  then obtain q where q: "?rr = ?rs * q" by (rule dvdE)
  have rs: "1 < ?rs" using assms(1) by (simp add: ipc_rate_ok_def)
  then have q1: "?rr div ?rs = q" "1 \<le> q" using q True by (auto simp: mult_le_cancel_left1)
  have "?rs * ?ks = ?rs * (q * ?kr)" using ks(2) kr(2) q by (simp add: mult.assoc)
  then have ksq: "?ks = q * ?kr" using rs by simp
  have "rcvCycle r = q" using assms(3-5) q1 by (simp add: ipc_ready_def)
  moreover have "c' * ?kr = (q * (?rs * (t - t') + lead_cycle envS net c)) * ?kr"
  proof -
    have "t * (?rr * ?kr) + lead_cycle envS net c * ?ks = t' * (?rr * ?kr) + c' * ?kr"
      using tick kr(2) by (simp add: send_tick_def rcv_tick_def)
    then show ?thesis unfolding ksq by (simp add: q algebra_simps)
  qed
  then have "c' = q * (?rs * (t - t') + lead_cycle envS net c)" using kr(1) by simp
  ultimately show ?thesis by simp
qed

text \<open>C1: What is sent on a connection arrives. Let a sender run its cycle \<open>c\<close> of second \<open>t\<close> and a
  receiver, at its own rate, the cycle \<open>c'\<close> of second \<open>t'\<close> that starts at the moment the value is
  sent for (one sender cycle later, two on the delayed reflected memory networks; the
  turn of the second included). Then the receiver returns, has the sender's value, and counts no
  error on the connection.\<close>

theorem ipc_delivers:
  assumes "ipc_rate_ok (IPC_RATE envS)" "ipc_rate_ok (IPC_RATE envR)"
    and "\<forall>j \<in> set ss. ipc_ready (IPC_RATE envS) j" "\<forall>j \<in> set rs. ipc_ready (IPC_RATE envR) j"
    and "sole_sender ss s p" "i < length rs" "mode (rs ! i) = IRCV" "pIpcDataRead (rs ! i) = Some p"
    and "ipcNum (rs ! i) = ipcNum s" "sendRate (rs ! i) = IPC_RATE envS"
    and "0 \<le> c" "c < IPC_RATE envS" "0 \<le> c'" "c' < IPC_RATE envR"
    and "send_tick envS (netType s) t c = rcv_tick envR t' c'"
  shows "\<exists>rs' bits'.
    commData3Receive envR rs t' c' (fst (commData3Send envS ss t c mem)) bits = Some (rs', bits') \<and>
    data (rs' ! i) = data s \<and>
    (if c' = 0 then errTotal (rs' ! i) else errFlag (rs' ! i)) = errFlag (rs ! i)"
proof -
  let ?mem = "fst (commData3Send envS ss t c mem)"
  have ready: "ipc_ready (IPC_RATE envR) (rs ! i)" using assms(4,6) by simp
  have "rcvCycle (rs ! i) dvd c'" using due_when_sent assms ready by blast
  then have "receive_one envR t' c' ?mem (rs ! i) = Some ((rs ! i)\<lparr>data := data s\<rparr>)"
    using receive_one_tick [OF ready assms(2,13,14,7,8)]
      sent_cell [OF assms(5,3,1,11,12), of t mem] assms(9,15) by simp
  moreover obtain rs' bits' where "commData3Receive envR rs t' c' ?mem bits = Some (rs', bits')"
    "rs' ! i = (if c' = 0 then roll_errors (the (receive_one envR t' c' ?mem (rs ! i)))
                else the (receive_one envR t' c' ?mem (rs ! i)))"
    using receive_nth [OF assms(4,6)] by blast
  ultimately show ?thesis using assms(7) by (auto simp: roll_errors_def)
qed

text \<open>A sender of 2048 Hz in the last cycle of second 100, and a receiver of 16384 Hz.\<close>

definition ex_env :: "int \<Rightarrow> ipc_env" where
  "ex_env r = \<lparr>IPC_RATE = r, RFM_DELAY = True, dolphinRead = \<lambda>_. 0, dolphinWrite = \<lambda>_. 0,
     shmipc_shm = 4096\<rparr>"

definition ex_sender :: CDS_IPC_INFO where
  "ex_sender = \<lparr>data = Fin False 1 0, sendNode = 0, netType = ISHME, sendCycle = 32, sendRate = 2048,
     rcvRate = 0, rcvCycle = 0, ipcNum = 5, mode = ISND, errFlag = 0, errTotal = 0, name = ''X'',
     senderModelName = ''m'', pIpcDataRead = None, pIpcDataWrite = Some 4096\<rparr>"

definition ex_receiver :: CDS_IPC_INFO where
  "ex_receiver = \<lparr>data = Zero False, sendNode = 0, netType = ISHME, sendCycle = 4, sendRate = 2048,
     rcvRate = 8, rcvCycle = 8, ipcNum = 5, mode = IRCV, errFlag = 3, errTotal = 0, name = ''X'',
     senderModelName = ''m'', pIpcDataRead = Some 4096, pIpcDataWrite = None\<rparr>"

lemmas ex_ipc_defs = ex_env_def ex_sender_def ex_receiver_def ipc_rate_ok_def ipc_ready_def
  sole_sender_def send_tick_def rcv_tick_def lead_cycle_def

theorem ipc_delivers_witness:
  "\<exists>rs' bits'.
    commData3Receive (ex_env 16384) [ex_receiver] 101 0
      (fst (commData3Send (ex_env 2048) [ex_sender] 100 2047 (\<lambda>_. \<lparr>xdata = NaN, timestamp = 0\<rparr>))) 0 =
        Some (rs', bits') \<and>
    data (rs' ! 0) = Fin False 1 0 \<and> errTotal (rs' ! 0) = 3"
  using ipc_delivers [of "ex_env 2048" "ex_env 16384" "[ex_sender]" "[ex_receiver]" ex_sender 4096 0
      2047 0 100 101 "\<lambda>_. \<lparr>xdata = NaN, timestamp = 0\<rparr>" 0]
  by (simp add: ex_ipc_defs)

text \<open>C16: A value for another moment is never taken. If what a sender wrote into the
  block the receiver looks at was meant for any other moment (64 blocks earlier, a second late, a
  sender that stopped), the receiver keeps its last value and counts one error.\<close>

theorem ipc_rejects_other_moments:
  assumes "ipc_rate_ok (IPC_RATE envS)" "ipc_rate_ok (IPC_RATE envR)"
    and "\<forall>j \<in> set ss. ipc_ready (IPC_RATE envS) j" "\<forall>j \<in> set rs. ipc_ready (IPC_RATE envR) j"
    and "sole_sender ss s p" "i < length rs" "mode (rs ! i) = IRCV" "pIpcDataRead (rs ! i) = Some p"
    and "ipcNum (rs ! i) = ipcNum s" "rcvCycle (rs ! i) dvd c'"
    and "0 \<le> c" "c < IPC_RATE envS" "0 \<le> c'" "c' < IPC_RATE envR"
    and "send_tick envS (netType s) t c \<in> {0..<2 ^ 48}" "rcv_tick envR t' c' \<in> {0..<2 ^ 48}"
    and "send_tick envS (netType s) t c mod IPC_BLOCKS = rcv_tick envR t' c' mod IPC_BLOCKS"
    and "send_tick envS (netType s) t c \<noteq> rcv_tick envR t' c'"
  shows "\<exists>rs' bits'.
    commData3Receive envR rs t' c' (fst (commData3Send envS ss t c mem)) bits = Some (rs', bits') \<and>
    data (rs' ! i) = data (rs ! i) \<and>
    (if c' = 0 then errTotal (rs' ! i) else errFlag (rs' ! i)) = errFlag (rs ! i) + 1"
proof -
  let ?mem = "fst (commData3Send envS ss t c mem)"
  have ready: "ipc_ready (IPC_RATE envR) (rs ! i)" using assms(4,6) by simp
  have "stamp_of (send_tick envS (netType s) t c) \<noteq> stamp_of (rcv_tick envR t' c')"
    using stamp_of_eq_iff assms(15,16,18) by simp
  then have "receive_one envR t' c' ?mem (rs ! i) = Some ((rs ! i)\<lparr>errFlag := errFlag (rs ! i) + 1\<rparr>)"
    using receive_one_tick [OF ready assms(2,13,14,7,8,10)]
      sent_cell [OF assms(5,3,1,11,12), of t mem] assms(9,17) by simp
  moreover obtain rs' bits' where "commData3Receive envR rs t' c' ?mem bits = Some (rs', bits')"
    "rs' ! i = (if c' = 0 then roll_errors (the (receive_one envR t' c' ?mem (rs ! i)))
                else the (receive_one envR t' c' ?mem (rs ! i)))"
    using receive_nth [OF assms(4,6)] by blast
  ultimately show ?thesis using assms(7) by (auto simp: roll_errors_def)
qed

text \<open>The receiver of the example, one cycle of blocks later: the block still holds the old value.\<close>

theorem ipc_rejects_other_moments_witness:
  "\<exists>rs' bits'.
    commData3Receive (ex_env 16384) [ex_receiver] 101 16
      (fst (commData3Send (ex_env 2048) [ex_sender] 100 2047 (\<lambda>_. \<lparr>xdata = NaN, timestamp = 0\<rparr>))) 0 =
        Some (rs', bits') \<and>
    data (rs' ! 0) = Zero False \<and> errFlag (rs' ! 0) = 4"
  using ipc_rejects_other_moments [of "ex_env 2048" "ex_env 16384" "[ex_sender]" "[ex_receiver]"
      ex_sender 4096 0 16 2047 100 101 "\<lambda>_. \<lparr>xdata = NaN, timestamp = 0\<rparr>" 0]
  by (simp add: ex_ipc_defs)

section \<open>Initialisation and memory bounds\<close>

text \<open>Where a network's buffer is, in a node whose segments start at \<open>seg\<close>.\<close>

definition net_location :: "(nat \<Rightarrow> nat) \<Rightarrow> nat \<Rightarrow> int \<Rightarrow> nat option" where
  "net_location seg shm net =
     (if net = ISHME then ptr_at shm
      else if net = IPCIE \<and> seg 0 \<noteq> 0 then Some (seg 0 + IPC_PCIE_BASE_OFFSET)
      else if net = IRFM0 \<and> seg 1 \<noteq> 0 then Some (seg 1 + IPC_PCIE_BASE_OFFSET + RFM0_OFFSET)
      else if net = IRFM1 \<and> seg 1 \<noteq> 0 then Some (seg 1 + IPC_PCIE_BASE_OFFSET + RFM1_OFFSET)
      else None)"

lemma init_pointers_location:
  "mode info = ISND \<Longrightarrow> pIpcDataWrite (init_pointers env info) =
     net_location (dolphinWrite env) (shmipc_shm env) (netType info)"
  "mode info = ISND \<Longrightarrow> pIpcDataRead (init_pointers env info) = None"
  "mode info = IRCV \<Longrightarrow> pIpcDataRead (init_pointers env info) =
     net_location (dolphinRead env) (shmipc_shm env) (netType info)"
  "mode info = IRCV \<Longrightarrow> pIpcDataWrite (init_pointers env info) = None"
  by (auto simp: init_pointers_def net_location_def Let_def IPC_BASE_OFFSET_def)

text \<open>Initialisation with a supported rate never divides by zero, and leaves every connection
  ready: its stamp step and its receive period set for the rates, its value cleared, and its one
  pointer at its network's buffer (null where the network is absent).\<close>

theorem commData3Init_ready:
  assumes "ipc_rate_ok rate" "\<forall>j \<in> set infos. mode j = IRCV \<longrightarrow> ipc_rate_ok (sendRate j)"
  shows "\<exists>infos'. commData3Init env rate infos = Some infos' \<and> length infos' = length infos \<and>
    (\<forall>i < length infos. ipc_ready rate (infos' ! i) \<and> data (infos' ! i) = Zero False \<and>
       (mode (infos ! i) = ISND \<longrightarrow> pIpcDataWrite (infos' ! i) =
          net_location (dolphinWrite env) (shmipc_shm env) (netType (infos ! i))) \<and>
       (mode (infos ! i) = IRCV \<longrightarrow> pIpcDataRead (infos' ! i) =
          net_location (dolphinRead env) (shmipc_shm env) (netType (infos ! i))))"
proof -
  let ?init = "\<lambda>info. map_option (init_pointers env) (init_rates rate info)"
  have one: "\<exists>info'. init_rates rate info = Some info' \<and> ipc_ready rate info' \<and>
      mode info' = mode info \<and> netType info' = netType info" if "info \<in> set infos" for info
    using init_rates_ready [of rate info] assms that by auto
  have "those (map ?init infos) = Some (map (the \<circ> ?init) infos)"
    by (rule those_map_Some) (use one in fastforce)
  moreover have "let info' = (the \<circ> ?init) (infos ! i) in ipc_ready rate info' \<and> data info' = Zero False \<and>
       (mode (infos ! i) = ISND \<longrightarrow> pIpcDataWrite info' =
          net_location (dolphinWrite env) (shmipc_shm env) (netType (infos ! i))) \<and>
       (mode (infos ! i) = IRCV \<longrightarrow> pIpcDataRead info' =
          net_location (dolphinRead env) (shmipc_shm env) (netType (infos ! i)))"
    if "i < length infos" for i
    using one [of "infos ! i"] that
    by (auto simp: init_pointers_ready init_pointers_location frame)
  ultimately show ?thesis by (simp add: commData3Init_def Let_def)
qed

theorem commData3Init_ready_witness:
  "\<exists>infos'. commData3Init (ex_env 16384) 16384 [ex_receiver] = Some infos' \<and>
     pIpcDataRead (infos' ! 0) = Some 4096"
  using commData3Init_ready [of 16384 "[ex_receiver]" "ex_env 16384"]
  by (auto simp: ex_ipc_defs net_location_def ptr_at_def)

text \<open>The byte address of a cell of \<open>dBlock[IPC_BLOCKS][MAX_IPC]\<close>, each of 16 bytes.\<close>

fun cell_address :: "ipc_cell \<Rightarrow> int" where
  "cell_address (p, b, n) = int p + 16 * (b * MAX_IPC + n)"

definition IPC_TOTAL_ALLOC_SIZE :: nat where
  "IPC_TOTAL_ALLOC_SIZE = IPC_PCIE_BASE_OFFSET + 3 * sizeof_CDS_IPC_COMMS"

lemma changed_cell:
  assumes "fst (commData3Send env infos timeSec cyc mem) cell \<noteq> mem cell"
  obtains info p where "info \<in> set infos" "mode info = ISND" "pIpcDataWrite info = Some p"
    "netType info \<in> {ISHME, IPCIE, IRFM0, IRFM1}"
    "cell = (p, out_block env (netType info) cyc, ipcNum info)"
proof -
  have ne: "infos \<noteq> []" using assms by (auto simp: commData3Send_def)
  have "cell \<in> fst ` set (all_sent_cells env infos (sendCycle (hd infos)) timeSec cyc)"
    using assms ipc.rd_fold_other unfolding commData3Send_mem [OF ne] by blast
  then obtain x where "(cell, x) \<in> set (all_sent_cells env infos (sendCycle (hd infos)) timeSec cyc)"
    by auto
  then show thesis using that unfolding all_sent_cells_iff by blast
qed

text \<open>C25: A send writes nowhere but in the blocks of its own connections: every cell it changes
  is the cell of a sending connection, and for connections as the initialisation
  sets them up its 16 bytes lie inside the memory segment allocated for the network,
  and for reflected memory and PCIe past the 256 reserved bytes at its start.\<close>

theorem commData3Send_in_bounds:
  assumes "ipc_rate_ok (IPC_RATE env)" "0 \<le> cyc"
    and "\<forall>j \<in> set infos. 0 \<le> ipcNum j \<and> ipcNum j < MAX_IPC"
    and "\<forall>j \<in> set infos. mode j = ISND \<longrightarrow>
      pIpcDataWrite j = net_location (dolphinWrite env) (shmipc_shm env) (netType j)"
    and "fst (commData3Send env infos timeSec cyc mem) cell \<noteq> mem cell"
  shows "\<exists>info \<in> set infos. mode info = ISND \<and> snd (snd cell) = ipcNum info \<and>
    (if netType info = ISHME
     then int (shmipc_shm env) \<le> cell_address cell \<and>
       cell_address cell + 16 \<le> int (shmipc_shm env + sizeof_CDS_IPC_COMMS)
     else let seg = dolphinWrite env (if netType info = IPCIE then 0 else 1)
          in seg \<noteq> 0 \<and> int (seg + IPC_PCIE_BASE_OFFSET) \<le> cell_address cell \<and>
             cell_address cell + 16 \<le> int (seg + IPC_TOTAL_ALLOC_SIZE))"
proof -
  obtain info p where info: "info \<in> set infos" "mode info = ISND" "pIpcDataWrite info = Some p"
    "netType info \<in> {ISHME, IPCIE, IRFM0, IRFM1}"
    "cell = (p, out_block env (netType info) cyc, ipcNum info)"
    using changed_cell [OF assms(5)] .
  have "0 \<le> out_block env (netType info) cyc" "out_block env (netType info) cyc < IPC_BLOCKS"
    using out_block_tick [OF assms(1,2), of "netType info" 0] by simp_all
  moreover have "0 \<le> ipcNum info" "ipcNum info < MAX_IPC" using assms(3) info(1) by auto
  ultimately have adr: "int p \<le> cell_address cell" "cell_address cell + 16 \<le> int (p + sizeof_CDS_IPC_COMMS)"
    unfolding info(5) by (simp_all add: sizeof_CDS_IPC_COMMS_def)
  have "net_location (dolphinWrite env) (shmipc_shm env) (netType info) = Some p"
    using assms(4) info(1-3) by auto
  then show ?thesis using adr info
    by (intro bexI [of _ info])
       (auto simp: net_location_def ptr_at_def IPC_TOTAL_ALLOC_SIZE_def RFM0_OFFSET_def RFM1_OFFSET_def
         Let_def split: if_splits)
qed

text \<open>The sender of the example: its cell changes, and lies where the theorem says.\<close>

theorem commData3Send_in_bounds_witness:
  "int 4096 \<le> cell_address (4096, 0, 5) \<and> cell_address (4096, 0, 5) + 16 \<le> int (4096 + sizeof_CDS_IPC_COMMS)"
  using commData3Send_in_bounds [of "ex_env 2048" 2047 "[ex_sender]" 100
      "\<lambda>_. \<lparr>xdata = NaN, timestamp = 0\<rparr>" "(4096, 0, 5)"]
  by (simp add: ex_ipc_defs net_location_def ptr_at_def commData3Send_def Let_def sendBlock_of_def
      plain_sync_def send_xmit_def c_arith)

section \<open>Error reporting\<close>

lemma bit_16_iff: "bit (16 :: u32) m \<longleftrightarrow> m = 4"
proof -
  have "(16 :: u32) = 2 ^ 4" by simp
  then show ?thesis by (simp only: bit_exp_iff) auto
qed

lemma bit_F0_iff: "bit (0xf0 :: u32) n \<longleftrightarrow> 4 \<le> n \<and> n < 8"
proof -
  have "(0xf0 :: u32) = push_bit 4 (mask 4)" by (simp add: mask_numeral)
  then show ?thesis by (simp only: bit_push_bit_iff bit_mask_iff) auto
qed

lemma error_bits_iff:
  "bit (error_bits info bits) n \<longleftrightarrow> bit bits n \<or>
     (n < 32 \<and> mode info = IRCV \<and> errFlag info \<noteq> 0 \<and>
        (n = nat (netType info) \<or> n = nat (netType info) + 4))"
proof (cases "mode info = IRCV \<and> errFlag info \<noteq> 0")
  case True
  have "bit (push_bit k (1::u32)) n \<longleftrightarrow> n < 32 \<and> n = k" for k
    by (auto simp: bit_exp_iff)
  moreover have "bit (push_bit k (16::u32)) n \<longleftrightarrow> n < 32 \<and> n = k + 4" for k
    by (simp only: bit_push_bit_iff bit_16_iff) auto
  ultimately show ?thesis using True by (simp add: error_bits_def bit_or_iff) blast
next
  case False
  then show ?thesis by (auto simp: error_bits_def)
qed

lemma fold_error_bits:
  "bit (fold error_bits infos bits) n \<longleftrightarrow> bit bits n \<or>
     (n < 32 \<and> (\<exists>j \<in> set infos. mode j = IRCV \<and> errFlag j \<noteq> 0 \<and>
        (n = nat (netType j) \<or> n = nat (netType j) + 4)))"
proof (induction infos arbitrary: bits)
  case Nil
  then show ?case by simp
next
  case (Cons info infos)
  show ?case by (auto simp: Cons.IH error_bits_iff)
qed

text \<open>Once a second the receiver reports: the four low status bits say exactly which
  networks lost a value on some connection since the last report, the four bits
  above also remember every earlier loss, and every connection's count moves to its total and
  starts again from zero.\<close>

theorem receive_reports_errors:
  assumes "commData3Receive env infos timeSec 0 mem bits = Some (infos', bits')"
    and "\<forall>j \<in> set infos. netType j \<in> {ISHME, IPCIE, IRFM0, IRFM1}" "net \<in> {ISHME, IPCIE, IRFM0, IRFM1}"
  shows "\<exists>rcvd. those (map (receive_one env timeSec 0 mem) infos) = Some rcvd \<and>
    (bit bits' (nat net) \<longleftrightarrow> (\<exists>j \<in> set rcvd. mode j = IRCV \<and> netType j = net \<and> errFlag j \<noteq> 0)) \<and>
    (bit bits' (nat net + 4) \<longleftrightarrow> bit bits (nat net + 4) \<or>
       (\<exists>j \<in> set rcvd. mode j = IRCV \<and> netType j = net \<and> errFlag j \<noteq> 0)) \<and>
    (\<forall>i < length infos. mode (infos' ! i) = IRCV \<longrightarrow>
       errFlag (infos' ! i) = 0 \<and> errTotal (infos' ! i) = errFlag (rcvd ! i))"
proof -
  obtain rcvd where rcvd: "those (map (receive_one env timeSec 0 mem) infos) = Some rcvd"
    and infos': "infos' = map roll_errors rcvd" and bits': "bits' = fold error_bits rcvd (bits AND 0xf0)"
    using assms(1) by (auto simp: commData3Receive_def)
  have rel: "list_all2 (\<lambda>x y. receive_one env timeSec 0 mem x = Some y) infos rcvd"
    using those_map_SomeD [OF rcvd] .
  have nets: "netType j \<in> {ISHME, IPCIE, IRFM0, IRFM1}" if "j \<in> set rcvd" for j
    using list_all2_in_set2 [OF rel that] assms(2) receive_one_frame by metis
  have "bit bits' (nat net) \<longleftrightarrow> (\<exists>j \<in> set rcvd. mode j = IRCV \<and> netType j = net \<and> errFlag j \<noteq> 0)"
    unfolding bits' fold_error_bits using nets assms(3) by (force simp: bit_and_iff bit_F0_iff)
  moreover have "bit bits' (nat net + 4) \<longleftrightarrow> bit bits (nat net + 4) \<or>
       (\<exists>j \<in> set rcvd. mode j = IRCV \<and> netType j = net \<and> errFlag j \<noteq> 0)"
    unfolding bits' fold_error_bits using nets assms(3) by (force simp: bit_and_iff bit_F0_iff)
  moreover have "length rcvd = length infos" using rel by (simp add: list_all2_lengthD)
  ultimately show ?thesis using rcvd by (auto simp: infos' roll_errors_def)
qed

theorem receive_reports_errors_witness:
  "\<exists>infos' bits'. commData3Receive (ex_env 16384) [ex_receiver] 101 0
      (\<lambda>_. \<lparr>xdata = NaN, timestamp = 0\<rparr>) 0 = Some (infos', bits') \<and>
    bit bits' 0 \<and> bit bits' 4 \<and> errFlag (infos' ! 0) = 0 \<and> errTotal (infos' ! 0) = 4"
proof -
  let ?mem = "\<lambda>_. \<lparr>xdata = NaN, timestamp = 0\<rparr>"
  have one: "receive_one (ex_env 16384) 101 0 ?mem ex_receiver = Some (ex_receiver\<lparr>errFlag := 4\<rparr>)"
    by (simp add: receive_one_def ex_env_def ex_receiver_def sync_word_def)
  then obtain infos' bits' where
    rcv: "commData3Receive (ex_env 16384) [ex_receiver] 101 0 ?mem 0 = Some (infos', bits')"
    and "mode (infos' ! 0) = IRCV"
    by (simp add: commData3Receive_def roll_errors_def ex_receiver_def)
  then show ?thesis
    using receive_reports_errors [OF rcv, of ISHME] one by (simp add: ex_receiver_def)
qed

end
