(* ===== verification/Iir.thy ===== *)
theory Iir
  imports Ieee
begin

text \<open>
  The sample-by-sample filters of \<^verbatim>\<open>src/include/drv/fm10Gen.c\<close> and the conversion to biquad
  coefficients of \<^verbatim>\<open>src/drv/fmReadCoeff.c\<close>. The code of each filter is written once, over the
  arithmetic it runs in: \<open>iir_filter\<close>, \<open>iir_filter_biquad\<close> and \<open>fir_filter\<close> are its instances in
  \<open>double\<close>, and the instance in the reals is the same algorithm without rounding, for which the
  filters are shown to compute what they are meant to: the direct form solves the difference
  equation of its sections, the biquad form with converted coefficients gives the
  same outputs as the direct form, and the FIR filter is a convolution.
\<close>

section \<open>The code\<close>

record 'a arith =
  add_of :: "'a \<Rightarrow> 'a \<Rightarrow> 'a"
  sub_of :: "'a \<Rightarrow> 'a \<Rightarrow> 'a"
  mul_of :: "'a \<Rightarrow> 'a \<Rightarrow> 'a"
  neg_of :: "'a \<Rightarrow> 'a"
  one_of :: 'a

definition doubles :: "fp arith" where
  "doubles = \<lparr>add_of = fadd, sub_of = fsub, mul_of = fmul, neg_of = fneg, one_of = of_cint 1\<rparr>"

definition exact :: "real arith" where
  "exact = \<lparr>add_of = (+), sub_of = (-), mul_of = (*), neg_of = uminus, one_of = 1\<rparr>"

text \<open>The loop over the second order sections: \<open>c\<close> and \<open>h\<close> are the positions of the coefficient
  and history pointers; \<open>None\<close> is an access past the end of an array.\<close>

fun iir_sections ::
  "'a arith \<Rightarrow> nat \<Rightarrow> 'a \<Rightarrow> 'a list \<Rightarrow> nat \<Rightarrow> 'a list \<Rightarrow> nat \<Rightarrow> ('a \<times> 'a list) option" where
  "iir_sections A 0 out coef c hist h = Some (out, hist)"
| "iir_sections A (Suc n) out coef c hist h =
     (if c + 4 \<le> length coef \<and> h + 2 \<le> length hist then
        let history1 = hist ! h;
            history2 = hist ! (h + 1);
            out = sub_of A out (mul_of A history1 (coef ! c));
            new_hist = sub_of A out (mul_of A history2 (coef ! (c + 1)));
            out = add_of A new_hist (mul_of A history1 (coef ! (c + 2)));
            out = add_of A out (mul_of A history2 (coef ! (c + 3)))
        in iir_sections A n out coef (c + 4) (hist[h + 1 := history1, h := new_hist]) (h + 2)
      else None)"

definition iir_filter_on ::
  "'a arith \<Rightarrow> 'a \<Rightarrow> 'a list \<Rightarrow> int \<Rightarrow> 'a list \<Rightarrow> ('a \<times> 'a list) option" where
  "iir_filter_on A input coef n history =
     (if coef = [] then None
      else iir_sections A (nat n) (mul_of A input (coef ! 0)) coef 1 history 0)"

definition iir_filter :: "fp \<Rightarrow> fp list \<Rightarrow> int \<Rightarrow> fp list \<Rightarrow> (fp \<times> fp list) option" where
  "iir_filter = iir_filter_on doubles"

fun biquad_sections ::
  "'a arith \<Rightarrow> nat \<Rightarrow> 'a \<Rightarrow> 'a list \<Rightarrow> nat \<Rightarrow> 'a list \<Rightarrow> nat \<Rightarrow> ('a \<times> 'a list) option" where
  "biquad_sections A 0 out coef c hist h = Some (out, hist)"
| "biquad_sections A (Suc n) out coef c hist h =
     (if c + 4 \<le> length coef \<and> h + 2 \<le> length hist then
        let w = hist ! h;
            u = hist ! (h + 1);
            a11 = coef ! c; a12 = coef ! (c + 1); c1 = coef ! (c + 2); c2 = coef ! (c + 3);
            new_w = add_of A (add_of A out (mul_of A a11 w)) (mul_of A a12 u);
            out = add_of A (add_of A out (mul_of A w c1)) (mul_of A u c2);
            new_u = add_of A w u
        in biquad_sections A n out coef (c + 4) (hist[h := new_w, h + 1 := new_u]) (h + 2)
      else None)"

definition iir_filter_biquad_on ::
  "'a arith \<Rightarrow> 'a \<Rightarrow> 'a list \<Rightarrow> int \<Rightarrow> 'a list \<Rightarrow> ('a \<times> 'a list) option" where
  "iir_filter_biquad_on A input coef n history =
     (if coef = [] then None
      else biquad_sections A (nat n) (mul_of A input (coef ! 0)) coef 1 history 0)"

definition iir_filter_biquad :: "fp \<Rightarrow> fp list \<Rightarrow> int \<Rightarrow> fp list \<Rightarrow> (fp \<times> fp list) option" where
  "iir_filter_biquad = iir_filter_biquad_on doubles"

text \<open>The loop of the FIR filter, \<open>i\<close> the number of taps done.\<close>

fun fir_taps ::
  "'a arith \<Rightarrow> nat \<Rightarrow> nat \<Rightarrow> nat \<Rightarrow> 'a \<Rightarrow> 'a list \<Rightarrow> 'a list \<Rightarrow> 'a \<times> 'a list" where
  "fir_taps A 0 n i out coef hist = (out, hist)"
| "fir_taps A (Suc k) n i out coef hist =
     fir_taps A k n (i + 1) (add_of A out (mul_of A (hist ! i) (coef ! (n - 1 - i)))) coef
       (hist[i - 1 := hist ! i])"

definition fir_filter_on ::
  "'a arith \<Rightarrow> 'a \<Rightarrow> 'a list \<Rightarrow> nat \<Rightarrow> 'a list \<Rightarrow> ('a \<times> 'a list) option" where
  "fir_filter_on A input coef n history =
     (if 2 \<le> n \<and> n \<le> length coef \<and> n - 1 \<le> length history then
        let (out, hist) =
              fir_taps A (n - 2) n 1 (mul_of A (history ! 0) (coef ! (n - 1))) coef history
        in Some (add_of A out (mul_of A input (coef ! 0)), hist[n - 2 := input])
      else None)"

definition fir_filter :: "fp \<Rightarrow> fp list \<Rightarrow> nat \<Rightarrow> fp list \<Rightarrow> (fp \<times> fp list) option" where
  "fir_filter = fir_filter_on doubles"

text \<open>The conversion of the four coefficients of a section, as they are read from the file.\<close>

definition biquad_of :: "'a arith \<Rightarrow> 'a \<Rightarrow> 'a \<Rightarrow> 'a \<Rightarrow> 'a \<Rightarrow> 'a list" where
  "biquad_of A a1 a2 b1 b2 =
     [sub_of A (neg_of A a1) (one_of A),
      sub_of A (sub_of A (neg_of A a2) a1) (one_of A),
      sub_of A b1 a1,
      sub_of A (add_of A (sub_of A b2 a2) b1) a1]"

section \<open>Biquad form and direct form\<close>

lemma exact_ops [simp]:
  "add_of exact = (+)" "sub_of exact = (-)" "mul_of exact = (*)" "neg_of exact = uminus"
  "one_of exact = 1"
  by (simp_all add: exact_def)

text \<open>The coefficients of \<open>n\<close> sections in direct and in biquad form, and the histories the two
  forms keep for the same past: where the direct form has \<open>h1\<close>, \<open>h2\<close> the biquad form has
  \<open>h1 - h2\<close>, \<open>h2\<close>.\<close>

definition biquad_coeffs :: "nat \<Rightarrow> real list \<Rightarrow> real list \<Rightarrow> bool" where
  "biquad_coeffs n coef bq \<longleftrightarrow>
     length coef = 4 * n + 1 \<and> length bq = 4 * n + 1 \<and> coef ! 0 = bq ! 0 \<and>
     (\<forall>i < n. \<forall>j < 4. bq ! (1 + 4 * i + j) =
        biquad_of exact (coef ! (1 + 4 * i)) (coef ! (2 + 4 * i)) (coef ! (3 + 4 * i))
          (coef ! (4 + 4 * i)) ! j)"

definition biquad_history :: "real list \<Rightarrow> real list \<Rightarrow> bool" where
  "biquad_history hist bh \<longleftrightarrow> length hist = length bh \<and>
     (\<forall>i. 2 * i + 1 < length hist \<longrightarrow>
        bh ! (2 * i) = hist ! (2 * i) - hist ! (2 * i + 1) \<and> bh ! (2 * i + 1) = hist ! (2 * i + 1))"

lemma biquad_coeffsD:
  assumes "biquad_coeffs n coef bq" "i < n"
  shows "bq ! (1 + 4 * i) = - coef ! (1 + 4 * i) - 1"
    "bq ! (2 + 4 * i) = - coef ! (2 + 4 * i) - coef ! (1 + 4 * i) - 1"
    "bq ! (3 + 4 * i) = coef ! (3 + 4 * i) - coef ! (1 + 4 * i)"
    "bq ! (4 + 4 * i) = coef ! (4 + 4 * i) - coef ! (2 + 4 * i) + coef ! (3 + 4 * i) - coef ! (1 + 4 * i)"
proof -
  have "bq ! (1 + 4 * i + j) = biquad_of exact (coef ! (1 + 4 * i)) (coef ! (2 + 4 * i))
      (coef ! (3 + 4 * i)) (coef ! (4 + 4 * i)) ! j" if "j < 4" for j
    using assms that by (simp add: biquad_coeffs_def)
  from this [of 0] this [of 1] this [of 2] this [of 3]
  show "bq ! (1 + 4 * i) = - coef ! (1 + 4 * i) - 1"
    "bq ! (2 + 4 * i) = - coef ! (2 + 4 * i) - coef ! (1 + 4 * i) - 1"
    "bq ! (3 + 4 * i) = coef ! (3 + 4 * i) - coef ! (1 + 4 * i)"
    "bq ! (4 + 4 * i) = coef ! (4 + 4 * i) - coef ! (2 + 4 * i) + coef ! (3 + 4 * i) - coef ! (1 + 4 * i)"
    by (simp_all add: biquad_of_def numeral_eq_Suc)
qed

lemma biquad_history_update:
  assumes "biquad_history hist bh" "2 * i + 1 < length hist"
    and "x = y - z"
  shows "biquad_history (hist[Suc (2 * i) := z, 2 * i := y]) (bh[2 * i := x, Suc (2 * i) := z])"
  using assms by (auto simp: biquad_history_def nth_list_update)

lemma biquad_simulates:
  assumes "biquad_coeffs N coef bq" "i + n \<le> N" "biquad_history hist bh" "2 * N \<le> length hist"
  shows "\<exists>out' hist' bh'. iir_sections exact n out coef (1 + 4 * i) hist (2 * i) = Some (out', hist') \<and>
     biquad_sections exact n out bq (1 + 4 * i) bh (2 * i) = Some (out', bh') \<and>
     biquad_history hist' bh' \<and> length hist' = length hist"
  using assms
proof (induction n arbitrary: i out hist bh)
  case 0
  then show ?case by simp
next
  case (Suc n)
  let ?h1 = "hist ! (2 * i)" and ?h2 = "hist ! (2 * i + 1)"
  have len: "length coef = 4 * N + 1" "length bq = 4 * N + 1" "length bh = length hist"
    using Suc.prems by (simp_all add: biquad_coeffs_def biquad_history_def)
  have i: "i < N" "2 * i + 1 < length hist" using Suc.prems by auto
  note bq = biquad_coeffsD [OF Suc.prems(1) i(1)]
  have bh: "bh ! (2 * i) = ?h1 - ?h2" "bh ! Suc (2 * i) = ?h2"
    using Suc.prems(3) i by (auto simp: biquad_history_def)
  define new where "new = out - ?h1 * coef ! (1 + 4 * i) - ?h2 * coef ! (2 + 4 * i)"
  define y where "y = new + ?h1 * coef ! (3 + 4 * i) + ?h2 * coef ! (4 + 4 * i)"
  let ?hist = "hist[Suc (2 * i) := ?h1, 2 * i := new]"
  let ?bh = "bh[2 * i := new - ?h1, Suc (2 * i) := ?h1]"
  have ix: "Suc (Suc (Suc (4 * i))) = 3 + 4 * i" "Suc (Suc (Suc (Suc (4 * i)))) = 4 + 4 * i" by simp_all
  have "iir_sections exact (Suc n) out coef (1 + 4 * i) hist (2 * i) =
      iir_sections exact n y coef (1 + 4 * (i + 1)) ?hist (2 * (i + 1))"
    using i len by (simp add: Let_def y_def new_def ix add.commute)
  moreover have "biquad_sections exact (Suc n) out bq (1 + 4 * i) bh (2 * i) =
      biquad_sections exact n y bq (1 + 4 * (i + 1)) ?bh (2 * (i + 1))"
  proof -
    have w: "out + bq ! (1 + 4 * i) * (?h1 - ?h2) + bq ! (2 + 4 * i) * ?h2 = new - ?h1"
      and out: "out + (?h1 - ?h2) * bq ! (3 + 4 * i) + ?h2 * bq ! (4 + 4 * i) = y"
      unfolding bq y_def new_def by (simp_all add: algebra_simps)
    show ?thesis using i len w out by (simp add: Let_def bh ix add.commute)
  qed
  moreover have "biquad_history ?hist ?bh"
    using biquad_history_update [OF Suc.prems(3) i(2) refl] by simp
  ultimately show ?case using Suc.IH [of "i + 1" ?hist ?bh y] Suc.prems by simp
qed

section \<open>Direct form and difference equation\<close>

text \<open>A section with coefficients \<open>(a1, a2, b1, b2)\<close> as the equation
  \<open>y(t) = x(t) + b1 x(t-1) + b2 x(t-2) - a1 y(t-1) - a2 y(t-2)\<close>, solved from rest.\<close>

type_synonym sos = "real \<times> real \<times> real \<times> real"

fun sos_response :: "sos \<Rightarrow> real \<Rightarrow> real \<Rightarrow> real \<Rightarrow> real \<Rightarrow> real list \<Rightarrow> real list" where
  "sos_response s x1 x2 y1 y2 [] = []"
| "sos_response (a1, a2, b1, b2) x1 x2 y1 y2 (x # xs) =
     (let y = x + b1 * x1 + b2 * x2 - a1 * y1 - a2 * y2
      in y # sos_response (a1, a2, b1, b2) x x1 y y1 xs)"

text \<open>One section of the code, on its two history values, and a cascade of them.\<close>

fun section_step :: "sos \<Rightarrow> real \<times> real \<Rightarrow> real \<Rightarrow> real \<times> real \<times> real" where
  "section_step (a1, a2, b1, b2) (h1, h2) x =
     (let w = x - h1 * a1 - h2 * a2 in (w + h1 * b1 + h2 * b2, w, h1))"

fun section_run :: "sos \<Rightarrow> real \<times> real \<Rightarrow> real list \<Rightarrow> real list" where
  "section_run s h [] = []"
| "section_run s h (x # xs) = (let (y, h') = section_step s h x in y # section_run s h' xs)"

fun cascade_step :: "sos list \<Rightarrow> (real \<times> real) list \<Rightarrow> real \<Rightarrow> real \<times> (real \<times> real) list" where
  "cascade_step (s # ss) (h # hs) x =
     (let (y, h') = section_step s h x; (z, hs') = cascade_step ss hs y in (z, h' # hs'))"
| "cascade_step ss hs x = (x, hs)"

fun cascade_run :: "sos list \<Rightarrow> (real \<times> real) list \<Rightarrow> real list \<Rightarrow> real list" where
  "cascade_run ss hs [] = []"
| "cascade_run ss hs (x # xs) = (let (y, hs') = cascade_step ss hs x in y # cascade_run ss hs' xs)"

lemma section_run_response:
  assumes "x1 = w1 + a1 * w2 + a2 * w3" "x2 = w2 + a1 * w3 + a2 * w4"
    and "y1 = w1 + b1 * w2 + b2 * w3" "y2 = w2 + b1 * w3 + b2 * w4"
  shows "section_run (a1, a2, b1, b2) (w1, w2) xs = sos_response (a1, a2, b1, b2) x1 x2 y1 y2 xs"
  using assms
proof (induction xs arbitrary: w1 w2 w3 w4 x1 x2 y1 y2)
  case Nil
  then show ?case by simp
next
  case (Cons x xs)
  define w where "w = x - w1 * a1 - w2 * a2"
  have y: "x + b1 * x1 + b2 * x2 - a1 * y1 - a2 * y2 = w + w1 * b1 + w2 * b2"
    unfolding Cons.prems w_def by (simp add: algebra_simps)
  have "section_run (a1, a2, b1, b2) (w, w1) xs =
      sos_response (a1, a2, b1, b2) x x1 (w + w1 * b1 + w2 * b2) y1 xs"
    by (rule Cons.IH [of _ w w1 w2 _ w3]) (simp_all add: w_def Cons.prems algebra_simps)
  then show ?case by (simp add: y Let_def flip: w_def)
qed

lemma cascade_run_Cons:
  "cascade_run (s # ss) (h # hs) xs = cascade_run ss hs (section_run s h xs)"
proof (induction xs arbitrary: h hs)
  case Nil
  then show ?case by simp
next
  case (Cons x xs)
  then show ?case by (simp add: split_def Let_def del: section_step.simps)
qed

lemma cascade_run_rest:
  "cascade_run ss (replicate (length ss) (0, 0)) xs = fold (\<lambda>s. sos_response s 0 0 0 0) ss xs"
proof (induction ss arbitrary: xs)
  case Nil
  show ?case by (induction xs) simp_all
next
  case (Cons s ss)
  have "section_run s (0, 0) xs = sos_response s 0 0 0 0 xs" for s :: sos
    using section_run_response [of 0 0 _ 0 _ 0 0 0 0 _ _ 0] by (cases s) simp
  then show ?case by (simp add: cascade_run_Cons Cons.IH)
qed

text \<open>The arrays of the code, laid out from the sections.\<close>

fun sos_list :: "sos \<Rightarrow> real list" where
  "sos_list (a1, a2, b1, b2) = [a1, a2, b1, b2]"

fun pair_list :: "real \<times> real \<Rightarrow> real list" where
  "pair_list (h1, h2) = [h1, h2]"

fun sos_biquad :: "sos \<Rightarrow> real list" where
  "sos_biquad (a1, a2, b1, b2) = biquad_of exact a1 a2 b1 b2"

definition iir_coeffs :: "real \<Rightarrow> sos list \<Rightarrow> real list" where
  "iir_coeffs g ss = g # concat (map sos_list ss)"

definition iir_biquad_coeffs :: "real \<Rightarrow> sos list \<Rightarrow> real list" where
  "iir_biquad_coeffs g ss = g # concat (map sos_biquad ss)"

lemma iir_sections_cascade:
  assumes "length hs = length ss"
  shows "iir_sections exact (length ss) x (pre @ concat (map sos_list ss)) (length pre)
      (preh @ concat (map pair_list hs) @ rest) (length preh) =
    (let (y, hs') = cascade_step ss hs x in Some (y, preh @ concat (map pair_list hs') @ rest))"
  using assms
proof (induction ss arbitrary: hs x pre preh)
  case Nil
  then show ?case by simp
next
  case (Cons s ss)
  obtain a1 a2 b1 b2 where s: "s = (a1, a2, b1, b2)" by (cases s)
  obtain h1 h2 hs0 where hs: "hs = (h1, h2) # hs0" "length hs0 = length ss"
    using Cons.prems by (cases hs) auto
  define w where "w = x - h1 * a1 - h2 * a2"
  define y where "y = w + h1 * b1 + h2 * b2"
  have step: "section_step s (h1, h2) x = (y, w, h1)" by (simp add: s y_def w_def Let_def)
  have "iir_sections exact (length (s # ss)) x (pre @ concat (map sos_list (s # ss))) (length pre)
      (preh @ concat (map pair_list hs) @ rest) (length preh) =
    iir_sections exact (length ss) y ((pre @ sos_list s) @ concat (map sos_list ss))
      (length (pre @ sos_list s)) ((preh @ pair_list (w, h1)) @ concat (map pair_list hs0) @ rest)
      (length (preh @ pair_list (w, h1)))"
    by (simp add: s hs nth_append list_update_append Let_def y_def w_def add.commute numeral_eq_Suc)
  also have "\<dots> = (let (z, hs') = cascade_step ss hs0 y
      in Some (z, preh @ concat (map pair_list ((w, h1) # hs')) @ rest))"
    unfolding Cons.IH [OF hs(2)] by (simp add: split_def Let_def)
  finally show ?case by (simp add: hs step split_def Let_def del: section_step.simps)
qed

text \<open>A filter applied to a sequence of samples.\<close>

fun filter_run ::
  "('a \<Rightarrow> 'a list \<Rightarrow> int \<Rightarrow> 'a list \<Rightarrow> ('a \<times> 'a list) option) \<Rightarrow> 'a list \<Rightarrow> int \<Rightarrow> 'a list \<Rightarrow>
     'a list \<Rightarrow> 'a list option" where
  "filter_run f coef n hist [] = Some []"
| "filter_run f coef n hist (x # xs) =
     (case f x coef n hist of
        None \<Rightarrow> None
      | Some (y, hist') \<Rightarrow> map_option ((#) y) (filter_run f coef n hist' xs))"

lemma cascade_step_length: "length (snd (cascade_step ss hs x)) = length hs"
proof (induction ss arbitrary: hs x)
  case Nil
  then show ?case by simp
next
  case (Cons s ss)
  then show ?case by (cases hs) (simp_all add: split_def Let_def)
qed

lemma iir_run_cascade:
  assumes "length hs = length ss"
  shows "filter_run (iir_filter_on exact) (iir_coeffs g ss) (int (length ss))
      (concat (map pair_list hs) @ rest) xs = Some (cascade_run ss hs (map ((*) g) xs))"
  using assms
proof (induction xs arbitrary: hs)
  case Nil
  then show ?case by simp
next
  case (Cons x xs)
  have "iir_filter_on exact x (iir_coeffs g ss) (int (length ss)) (concat (map pair_list hs) @ rest) =
     (let (y, hs') = cascade_step ss hs (g * x) in Some (y, concat (map pair_list hs') @ rest))"
    using iir_sections_cascade [OF Cons.prems, of "g * x" "[g]" "[]" rest]
    by (simp add: iir_filter_on_def iir_coeffs_def mult.commute)
  then show ?case
    using Cons.IH [of "snd (cascade_step ss hs (g * x))"] Cons.prems
    by (simp add: split_def Let_def cascade_step_length)
qed

lemma zero_history: "2 * n \<le> 20 \<Longrightarrow>
    replicate 20 0 = concat (map pair_list (replicate n (0, 0))) @ replicate (20 - 2 * n) 0"
proof -
  have "concat (map pair_list (replicate n (0, 0))) = replicate (2 * n) 0"
    by (induction n) (simp_all flip: replicate_append_same)
  then show "2 * n \<le> 20 \<Longrightarrow> ?thesis" by (simp flip: replicate_add)
qed

lemma concat4_nth:
  assumes "i < length ss" "j < 4" "\<And>s. s \<in> set ss \<Longrightarrow> length (f s) = 4"
  shows "concat (map f ss) ! (4 * i + j) = f (ss ! i) ! j"
  using assms
proof (induction ss arbitrary: i)
  case Nil
  then show ?case by simp
next
  case (Cons s ss)
  then show ?case by (cases i) (simp_all add: nth_append)
qed

lemma length_concat4:
  "(\<And>s. s \<in> set ss \<Longrightarrow> length (f s) = 4) \<Longrightarrow> length (concat (map f ss)) = 4 * length ss"
  by (induction ss) simp_all

lemma biquad_coeffs_layout: "biquad_coeffs (length ss) (iir_coeffs g ss) (iir_biquad_coeffs g ss)"
proof -
  have l4: "length (sos_list s) = 4" "length (sos_biquad s) = 4" for s
    by (cases s; simp add: biquad_of_def)+
  have bq: "concat (map sos_biquad ss) ! (j + 4 * i) = sos_biquad (ss ! i) ! j"
    and ls: "concat (map sos_list ss) ! (4 * i + j) = sos_list (ss ! i) ! j"
    if "i < length ss" "j < 4" for i j
    using that l4 by (simp_all add: concat4_nth add.commute [of j])
  have "sos_biquad (ss ! i) ! j = biquad_of exact (concat (map sos_list ss) ! (4 * i))
      (concat (map sos_list ss) ! (4 * i + 1)) (concat (map sos_list ss) ! (4 * i + 2))
      (concat (map sos_list ss) ! (4 * i + 3)) ! j" if "i < length ss" for i j
    using ls [OF that, of 0] ls [OF that, of 1] ls [OF that, of 2] ls [OF that, of 3]
    by (cases "ss ! i") (simp add: numeral_3_eq_3)
  then show ?thesis
    unfolding biquad_coeffs_def iir_coeffs_def iir_biquad_coeffs_def
    by (simp add: length_concat4 l4 bq add.commute)
qed

lemma biquad_run_simulates:
  assumes "biquad_coeffs n coef bq" "biquad_history hist bh" "2 * n \<le> length hist"
  shows "filter_run (iir_filter_biquad_on exact) bq (int n) bh xs =
    filter_run (iir_filter_on exact) coef (int n) hist xs"
  using assms(2,3)
proof (induction xs arbitrary: hist bh)
  case Nil
  then show ?case by simp
next
  case (Cons x xs)
  have ne: "coef \<noteq> []" "bq \<noteq> []" "coef ! 0 = bq ! 0" using assms(1) by (auto simp: biquad_coeffs_def)
  obtain y hist' bh' where "iir_sections exact n (x * coef ! 0) coef 1 hist 0 = Some (y, hist')"
    "biquad_sections exact n (x * coef ! 0) bq 1 bh 0 = Some (y, bh')"
    "biquad_history hist' bh'" "length hist' = length hist"
    using biquad_simulates [OF assms(1), of 0 n hist bh "x * coef ! 0"] Cons.prems by auto
  with ne Cons.IH [of hist' bh'] Cons.prems(2) show ?case
    by (simp add: iir_filter_on_def iir_filter_biquad_on_def)
qed

section \<open>FIR filter\<close>

lemma fir_taps_sum:
  assumes "1 \<le> i" "i + k \<le> length hist"
  shows "fir_taps exact k n i out coef hist =
    (out + (\<Sum>j = i..<i + k. hist ! j * coef ! (n - 1 - j)),
     take (i - 1) hist @ take k (drop i hist) @ drop (i - 1 + k) hist)"
  using assms
proof (induction k arbitrary: i out hist)
  case 0
  then show ?case by simp
next
  case (Suc k)
  let ?hist = "hist[i - 1 := hist ! i]"
  have sum: "(\<Sum>j = i + 1..<i + 1 + k. ?hist ! j * coef ! (n - 1 - j)) =
      (\<Sum>j = i + 1..<i + 1 + k. hist ! j * coef ! (n - 1 - j))"
    by (rule sum.cong) auto
  have lists: "take i ?hist @ take k (drop (i + 1) ?hist) @ drop (i + k) ?hist =
      take (i - 1) hist @ take (Suc k) (drop i hist) @ drop (i - 1 + Suc k) hist"
  proof -
    define P R where "P = take (i - 1) hist" and "R = drop (i + 1) hist"
    have "hist = P @ hist ! (i - 1) # hist ! i # R"
      using Suc.prems id_take_nth_drop [of "i - 1" hist] Cons_nth_drop_Suc [of i hist]
      by (simp add: P_def R_def)
    moreover have "i = length P + 1" using Suc.prems by (simp add: P_def)
    moreover have "?thesis" if "hist = P @ a # b # R" "i = length P + 1" for P a b R
      unfolding that by (simp add: list_update_append nth_append)
    ultimately show ?thesis by blast
  qed
  have "{i..<i + Suc k} = insert i {i + 1..<i + 1 + k}" by auto
  then have "(\<Sum>j = i..<i + Suc k. hist ! j * coef ! (n - 1 - j)) =
      hist ! i * coef ! (n - 1 - i) + (\<Sum>j = i + 1..<i + 1 + k. hist ! j * coef ! (n - 1 - j))"
    by simp
  then show ?case using Suc.IH [of "i + 1" ?hist] Suc.prems sum lists by simp
qed

text \<open>C18: In exact arithmetic \<open>iir_filter\<close> is the filter its coefficients name: run from a cleared
  history on any sequence of samples, with up to the ten sections a filter may have, it never
  leaves its arrays and its outputs are the scaled input taken through the difference equation of
  each section in turn.\<close>

theorem iir_filter_solves_sections:
  assumes "length ss \<le> 10"
  shows "filter_run (iir_filter_on exact) (iir_coeffs g ss) (int (length ss)) (replicate 20 0) xs =
    Some (fold (\<lambda>s. sos_response s 0 0 0 0) ss (map ((*) g) xs))"
proof -
  have "2 * length ss \<le> 20" using assms by simp
  then show ?thesis
    using iir_run_cascade [of "replicate (length ss) (0, 0)" ss g "replicate (20 - 2 * length ss) 0" xs]
    by (simp only: zero_history [of "length ss"] length_replicate cascade_run_rest simp_thms)
qed

theorem iir_filter_solves_sections_witness:
  "filter_run (iir_filter_on exact) [2, 1, 0, 0, 0] 1 (replicate 20 0) [1, 1] = Some [2, 0]"
  using iir_filter_solves_sections [of "[(1, 0, 0, 0)]" 2 "[1, 1]"] by (simp add: iir_coeffs_def)

text \<open>C17: The biquad form may replace the direct form: with the coefficients converted the way the
  coefficient file reader does, \<open>iir_filter_biquad\<close> gives, in exact arithmetic, the same
  outputs as \<open>iir_filter\<close> on every sequence of samples from a cleared history.\<close>

theorem biquad_form_equivalent:
  assumes "length ss \<le> 10"
  shows "filter_run (iir_filter_biquad_on exact) (iir_biquad_coeffs g ss) (int (length ss))
      (replicate 20 0) xs =
    filter_run (iir_filter_on exact) (iir_coeffs g ss) (int (length ss)) (replicate 20 0) xs"
  using assms
  by (intro biquad_run_simulates biquad_coeffs_layout) (simp_all add: biquad_history_def)

theorem biquad_form_equivalent_witness:
  "filter_run (iir_filter_biquad_on exact) [2, - 2, - 2, - 1, - 1] 1 (replicate 20 0) [1, 1] =
   filter_run (iir_filter_on exact) [2, 1, 0, 0, 0] 1 (replicate 20 0) [1, 1]"
  using biquad_form_equivalent [of "[(1, 0, 0, 0)]" 2 "[1, 1]"]
  by (simp add: iir_coeffs_def iir_biquad_coeffs_def biquad_of_def)

text \<open>C26: The FIR filter is a convolution: with \<open>n\<close> taps and the last \<open>n - 1\<close> inputs in its
  history, oldest first, it returns the sum of the taps times the inputs, in
  exact arithmetic, and its history becomes the last \<open>n - 1\<close> inputs again.\<close>

theorem fir_filter_convolves:
  assumes "2 \<le> n" "n \<le> length coef" "length past = n - 1"
  shows "fir_filter_on exact x coef n (past @ rest) =
    Some (\<Sum>j < n. (past @ [x]) ! j * coef ! (n - 1 - j), tl past @ [x] @ rest)"
proof -
  obtain p past' where past: "past = p # past'" "length past' = n - 2" using assms by (cases past) auto
  have n: "n = Suc (Suc (length past'))" using past assms(1) by simp
  have taps: "fir_taps exact (n - 2) n 1 (p * coef ! (n - 1)) coef (past @ rest) =
      (p * coef ! (n - 1) + (\<Sum>j = 1..<n - 1. (past @ rest) ! j * coef ! (n - 1 - j)),
       past' @ drop (n - 2) (past @ rest))"
    using past n fir_taps_sum [of 1 "n - 2" "past @ rest"] by (simp add: add.commute)
  have "(\<Sum>j < n. (past @ [x]) ! j * coef ! (n - 1 - j)) =
      (\<Sum>j \<in> insert 0 (insert (n - 1) {1..<n - 1}). (past @ [x]) ! j * coef ! (n - 1 - j))"
    using n by (intro sum.cong) auto
  also have "\<dots> = p * coef ! (n - 1) + x * coef ! 0 +
      (\<Sum>j = 1..<n - 1. (past @ [x]) ! j * coef ! (n - 1 - j))"
    using n by (simp add: past nth_append numeral_2_eq_2)
  also have "(\<Sum>j = 1..<n - 1. (past @ [x]) ! j * coef ! (n - 1 - j)) =
      (\<Sum>j = 1..<n - 1. (past @ rest) ! j * coef ! (n - 1 - j))"
    using assms(3) by (intro sum.cong) (auto simp: nth_append)
  finally have sum: "(\<Sum>j < n. (past @ [x]) ! j * coef ! (n - 1 - j)) = p * coef ! (n - 1) +
      (\<Sum>j = 1..<n - 1. (past @ rest) ! j * coef ! (n - 1 - j)) + x * coef ! 0"
    by simp
  have "drop (length past') (p # past' @ rest) = last (p # past') # rest"
    by (induction past' arbitrary: p) auto
  then have "(past' @ drop (n - 2) (past @ rest))[n - 2 := x] = tl past @ [x] @ rest"
    unfolding past(1) n by (simp add: list_update_append)
  then show ?thesis unfolding fir_filter_on_def sum
    using assms taps past(1) by simp
qed

theorem fir_filter_convolves_witness:
  "fir_filter_on exact 3 [1, 10, 100] 3 [1, 2] = Some (123, [2, 3])"
  using fir_filter_convolves [of 3 "[1, 10, 100]" "[1, 2]" 3 "[]"]
  by (simp add: numeral_3_eq_3)

end
