(* ===== verification/FilterCoeff.thy ===== *)
theory FilterCoeff
  imports Crc Ramp Iir
begin

text \<open>
  The data of the filter modules (\<^verbatim>\<open>src/include/fm10Gen.h\<close>) and the loading of their
  coefficients: the EPICS side that writes a module's coefficients and their checksum into
  shared memory (the end of \<open>fmReadCoeffFile\<close> in \<^verbatim>\<open>src/drv/fmReadCoeff.c\<close>), and the front end that
  takes them over, at start (\<open>initVars\<close>, \<open>readCoefVme\<close>) and while it runs, a few coefficients per
  cycle (\<open>checkFiltReset\<close>, \<open>readCoefVme2\<close> of \<^verbatim>\<open>src/include/drv/fm10Gen.c\<close>). The build is the one
  without \<open>FIR_FILTERS\<close>. Arrays are lists of the C length; \<open>None\<close> is an access outside an array.
\<close>

unbundle bit_operations_syntax

section \<open>Data\<close>

abbreviation (input) FILTERS :: nat where "FILTERS \<equiv> 10"
abbreviation (input) MAX_COEFFS :: nat where "MAX_COEFFS \<equiv> 41"
abbreviation (input) MAX_HISTRY :: nat where "MAX_HISTRY \<equiv> 20"
abbreviation (input) MAX_SO_SECTIONS :: int where "MAX_SO_SECTIONS \<equiv> 10"
abbreviation (input) MAX_UPDATE_CYCLE :: int where "MAX_UPDATE_CYCLE \<equiv> 11"

record FM_OP_IN =
  opSwitchE :: u32
  opSwitchP :: u32
  rset :: u32
  offset :: fp
  outgain :: fp
  limiter :: fp
  rmpcmp :: "int list"
  timeout :: "int list"
  cnt :: "int list"
  gain_ramp_time :: fp
  ctl_mask :: u32
  control :: u32
  swReq :: u32
  swMask :: u32

record FM_OP_DATA =
  filterInput :: fp
  exciteInput :: fp
  inputTestpoint :: fp
  testpoint :: fp
  fmOutput :: fp
  output16Hz :: fp
  swStatus :: u32

record FM_OP_COEF =
  filtCoeff :: "fp list list"
  filtHist :: "fp list list"
  filtSections :: "int list"
  sType :: "int list"
  decHist :: "fp list"
  filterType :: "int list"
  biquad :: int

record VME_FM_OP_COEF =
  vfiltCoeff :: "fp list list"
  vfiltName :: "string list"
  bankNum :: int
  vfiltSections :: "int list"
  vsType :: "int list"
  vramp :: "int list"
  vtimout :: "int list"
  vcrc :: u32
  vfilterType :: "int list"
  vbiquad :: int

definition pow2_in :: "u32 list" where
  "pow2_in = [0x10, 0x40, 0x100, 0x400, 0x1000, 0x4000, 0x10000, 0x40000, 0x100000, 0x400000]"

definition pow2_out :: "u32 list" where
  "pow2_out = [0x20, 0x80, 0x200, 0x800, 0x2000, 0x8000, 0x20000, 0x80000, 0x200000, 0x800000]"

text \<open>The bytes of an \<open>int\<close> and of a \<open>double\<close> in memory, least significant first. All NaNs have
  the bits of the default one.\<close>

definition word_bytes :: "nat \<Rightarrow> 'a::len word \<Rightarrow> u8 list" where
  "word_bytes n w = map (\<lambda>i. ucast (drop_bit (8 * i) w)) [0..<n]"

definition int_bytes :: "int \<Rightarrow> u8 list" where
  "int_bytes i = word_bytes 4 (word_of_int i :: u32)"

definition double_bits :: "fp \<Rightarrow> u64" where
  "double_bits x =
     (case x of
        NaN \<Rightarrow> 0x7ff8000000000000
      | Inf s \<Rightarrow> (if s then 0x8000000000000000 else 0) OR 0x7ff0000000000000
      | Zero s \<Rightarrow> (if s then 0x8000000000000000 else 0)
      | Fin s m e \<Rightarrow>
          let l = bitlen m; ex = e + l + 1022
          in word_of_int ((if s then 2 ^ 63 else 0) +
               (if 0 < ex then ex * 2 ^ 52 + (m * 2 ^ nat (53 - l) - 2 ^ 52)
                else m * 2 ^ nat (e + 1074))))"

definition double_bytes :: "fp \<Rightarrow> u8 list" where
  "double_bytes x = word_bytes 8 (double_bits x)"

section \<open>The coefficients in shared memory\<close>

text \<open>What \<open>fmReadCoeffFile\<close> feeds into the checksum for filter \<open>j\<close>, and the module it publishes.\<close>

definition coef_crc_bytes :: "VME_FM_OP_COEF \<Rightarrow> nat \<Rightarrow> u8 list" where
  "coef_crc_bytes fmd j =
     (let nSections = vfiltSections fmd ! j
      in int_bytes nSections @
         (if 0 < unat (word_of_int nSections :: u32)
          then int_bytes (vsType fmd ! j) @ int_bytes (vramp fmd ! j) @ int_bytes (vtimout fmd ! j) @
               concat (map double_bytes (take (nat (1 + nSections * 4)) (vfiltCoeff fmd ! j)))
          else []))"

fun coefCrc :: "VME_FM_OP_COEF \<Rightarrow> nat list \<Rightarrow> u32 \<Rightarrow> u32" where
  "coefCrc fmd [] crc = crc"
| "coefCrc fmd (j # js) crc = coefCrc fmd js (crc_ptr (coef_crc_bytes fmd j) crc)"

definition publish :: "VME_FM_OP_COEF \<Rightarrow> int \<Rightarrow> VME_FM_OP_COEF \<Rightarrow> VME_FM_OP_COEF" where
  "publish fmd bq vme = vme\<lparr>
     vfilterType := vfilterType fmd,
     vfiltCoeff := map2 (\<lambda>(n, new) old. take n new @ drop n old)
       (zip (map (\<lambda>s. nat (1 + s * 4)) (vfiltSections fmd)) (vfiltCoeff fmd)) (vfiltCoeff vme),
     vfiltSections := vfiltSections fmd, vsType := vsType fmd, vramp := vramp fmd,
     vtimout := vtimout fmd, vfiltName := vfiltName fmd, vcrc := coefCrc fmd [0..<FILTERS] 0,
     vbiquad := bq, bankNum := bankNum fmd\<rparr>"

section \<open>Loading at start\<close>

text \<open>The loop over the filters of one module; \<open>Inl\<close> is the early return with status 1.\<close>

definition load_filter ::
  "VME_FM_OP_COEF \<Rightarrow> nat \<Rightarrow> FM_OP_COEF \<times> FM_OP_IN \<Rightarrow>
     (FM_OP_COEF \<times> FM_OP_IN) + (FM_OP_COEF \<times> FM_OP_IN)" where
  "load_filter vme jj = (\<lambda>(c, inp).
     if vfiltSections vme ! jj \<noteq> 0 then
       let c = c\<lparr>filterType := (filterType c)[jj := vfilterType vme ! jj],
                filtSections := (filtSections c)[jj := vfiltSections vme ! jj],
                sType := (sType c)[jj := vsType vme ! jj]\<rparr>;
           inp = inp\<lparr>rmpcmp := (rmpcmp inp)[jj := vramp vme ! jj],
                    timeout := (timeout inp)[jj := vtimout vme ! jj]\<rparr>
       in if filterType c ! jj = 0 then
            if filtSections c ! jj > 10 then Inl (c, inp)
            else
              let n = nat (filtSections c ! jj * 4 + 1)
              in Inr (c\<lparr>filtCoeff := (filtCoeff c)[jj :=
                   take n (vfiltCoeff vme ! jj) @ drop n (filtCoeff c ! jj)]\<rparr>, inp)
          else Inr (c, inp)
     else Inr (c, inp))"

fun load_filters ::
  "VME_FM_OP_COEF \<Rightarrow> nat list \<Rightarrow> FM_OP_COEF \<times> FM_OP_IN \<Rightarrow>
     (FM_OP_COEF \<times> FM_OP_IN) + (FM_OP_COEF \<times> FM_OP_IN)" where
  "load_filters vme [] m = Inr m"
| "load_filters vme (jj # jjs) m =
     (case load_filter vme jj m of Inl m' \<Rightarrow> Inl m' | Inr m' \<Rightarrow> load_filters vme jjs m')"

fun readCoefVme_loop ::
  "VME_FM_OP_COEF list \<Rightarrow> nat list \<Rightarrow> FM_OP_COEF list \<times> FM_OP_IN list \<Rightarrow>
     (FM_OP_COEF list \<times> FM_OP_IN list) \<times> int" where
  "readCoefVme_loop vmes [] st = (st, 0)"
| "readCoefVme_loop vmes (ii # iis) (cs, inps) =
     (case load_filters (vmes ! ii) [0..<FILTERS] ((cs ! ii)\<lparr>biquad := vbiquad (vmes ! ii)\<rparr>, inps ! ii) of
        Inl (c, inp) \<Rightarrow> ((cs[ii := c], inps[ii := inp]), 1)
      | Inr (c, inp) \<Rightarrow> readCoefVme_loop vmes iis (cs[ii := c], inps[ii := inp]))"

definition readCoefVme ::
  "VME_FM_OP_COEF list \<Rightarrow> nat \<Rightarrow> nat \<Rightarrow> FM_OP_COEF list \<times> FM_OP_IN list \<Rightarrow>
     (FM_OP_COEF list \<times> FM_OP_IN list) \<times> int" where
  "readCoefVme vmes bF sF st = readCoefVme_loop vmes [bF..<sF] st"

section \<open>Loading while running\<close>

text \<open>What \<open>readCoefVme2\<close> works on, for one module: its coefficients and inputs in the front end,
  the static local copy, and the change counts.\<close>

record reload =
  rcoef :: FM_OP_COEF
  rinput :: FM_OP_IN
  localCoeff :: VME_FM_OP_COEF
  changed :: "int list"

definition local_crc :: "u8 list \<Rightarrow> reload \<Rightarrow> reload" where
  "local_crc bytes st = st\<lparr>localCoeff := (localCoeff st)\<lparr>vcrc := crc_ptr bytes (vcrc (localCoeff st))\<rparr>\<rparr>"

text \<open>Cycle 0 of a filter: the head of its description, or the filter is turned off.\<close>

definition reload_begin :: "VME_FM_OP_COEF \<Rightarrow> nat \<Rightarrow> reload \<Rightarrow> reload \<times> int" where
  "reload_begin vme filtNum st =
     (let type = vfilterType vme ! filtNum;
          st = st\<lparr>changed := replicate 10 0\<rparr>;
          sections = vfiltSections vme ! filtNum;
          ii = uint (word_of_int sections :: u32);
          st = (if filtNum = 0 then st\<lparr>localCoeff := (localCoeff st)\<lparr>vcrc := 0\<rparr>\<rparr> else st);
          st = local_crc (int_bytes sections) st
      in if ii > 0 \<and> ii < 11 \<or> ii > 10 \<and> type > 0 then
           let l = localCoeff st;
               l = l\<lparr>vfiltSections := (vfiltSections l)[filtNum := sections],
                    vfilterType := (vfilterType l)[filtNum := type],
                    vsType := (vsType l)[filtNum := vsType vme ! filtNum],
                    vramp := (vramp l)[filtNum := vramp vme ! filtNum],
                    vtimout := (vtimout l)[filtNum := vtimout vme ! filtNum]\<rparr>;
               st = st\<lparr>localCoeff := l\<rparr>;
               st = local_crc (int_bytes (vsType l ! filtNum)) st;
               st = local_crc (int_bytes (vramp l ! filtNum)) st;
               st = local_crc (int_bytes (vtimout l ! filtNum)) st
           in (st, 1)
         else
           (st\<lparr>rinput := (rinput st)\<lparr>opSwitchP := opSwitchP (rinput st) AND NOT (pow2_out ! filtNum)\<rparr>,
               rcoef := (rcoef st)\<lparr>filtSections := (filtSections (rcoef st))[filtNum := 0],
                                   filterType := (filterType (rcoef st))[filtNum := 0]\<rparr>,
               changed := replicate 10 1,
               localCoeff := (localCoeff st)\<lparr>vfiltSections := (vfiltSections (localCoeff st))[filtNum := 0]\<rparr>\<rparr>,
            MAX_UPDATE_CYCLE))"

text \<open>One coefficient into the local copy, counted as changed when the filter runs with another.\<close>

definition take_coeff :: "VME_FM_OP_COEF \<Rightarrow> nat \<Rightarrow> nat \<Rightarrow> reload \<Rightarrow> reload" where
  "take_coeff vme filtNum kk st =
     (let temp = vfiltCoeff vme ! filtNum ! kk;
          st = (if \<not> feq (filtCoeff (rcoef st) ! filtNum ! kk) temp
                then st\<lparr>changed := (changed st)[filtNum := changed st ! filtNum + 1]\<rparr> else st);
          l = localCoeff st;
          st = st\<lparr>localCoeff := l\<lparr>vfiltCoeff :=
                 (vfiltCoeff l)[filtNum := (vfiltCoeff l ! filtNum)[kk := temp]]\<rparr>\<rparr>
      in local_crc (double_bytes temp) st)"

definition reload_section :: "VME_FM_OP_COEF \<Rightarrow> nat \<Rightarrow> int \<Rightarrow> reload \<Rightarrow> reload \<times> int" where
  "reload_section vme filtNum cycle st =
     (let type = vfilterType vme ! filtNum;
          to = nat (cycle * 4 + 1);
          st = (if cycle = 1 \<and> \<not> type > 0 then take_coeff vme filtNum 0 st else st);
          st = (if type > 0 then st else fold (take_coeff vme filtNum) [to - 4..<to] st)
      in (st, if vfiltSections (localCoeff st) ! filtNum > cycle then cycle + 1 else MAX_UPDATE_CYCLE))"

definition clear_changed :: "int list \<Rightarrow> fp list list \<Rightarrow> fp list list" where
  "clear_changed chg hist =
     map2 (\<lambda>c h. if c \<noteq> 0 then replicate MAX_HISTRY f0 else h) chg hist"

text \<open>The last cycle of a filter takes the local copy over; a mismatch of the checksum has no
  consequence (the \<open>return -1\<close> is commented out). The loop counter is unsigned, so the bound of a negative
  count runs it out of the array.\<close>

definition reload_commit :: "VME_FM_OP_COEF \<Rightarrow> nat \<Rightarrow> reload \<Rightarrow> (reload \<times> int) option" where
  "reload_commit vme filtNum st =
     (let type = vfilterType vme ! filtNum;
          l = localCoeff st; n = vfiltSections l ! filtNum
      in if n \<noteq> 0 then
           let c = rcoef st;
               c = (if type \<noteq> 0 then c else c\<lparr>filtHist := clear_changed (changed st) (filtHist c)\<rparr>);
               c = c\<lparr>filtSections := (filtSections c)[filtNum := n],
                    filterType := (filterType c)[filtNum := vfilterType l ! filtNum],
                    sType := (sType c)[filtNum := vsType l ! filtNum]\<rparr>;
               inp = (rinput st)\<lparr>rmpcmp := (rmpcmp (rinput st))[filtNum := vramp l ! filtNum],
                    timeout := (timeout (rinput st))[filtNum := vtimout l ! filtNum]\<rparr>;
               m = nat (n * 4 + 1)
           in if type > 0 then Some (st\<lparr>rcoef := c, rinput := inp\<rparr>, 0)
              else if n < 0 \<or> m > MAX_COEFFS then None
              else Some (st\<lparr>rinput := inp, rcoef := c\<lparr>filtCoeff := (filtCoeff c)[filtNum :=
                     take m (vfiltCoeff l ! filtNum) @ drop m (filtCoeff c ! filtNum)]\<rparr>\<rparr>, 0)
         else Some (st, 0))"

definition readCoefVme2 ::
  "VME_FM_OP_COEF \<Rightarrow> nat \<Rightarrow> int \<Rightarrow> reload \<Rightarrow> (reload \<times> int) option" where
  "readCoefVme2 vme filtNum cycle st =
     (if cycle = 0 then Some (reload_begin vme filtNum st)
      else if cycle > 0 \<and> cycle < MAX_UPDATE_CYCLE then Some (reload_section vme filtNum cycle st)
      else if cycle = MAX_UPDATE_CYCLE then reload_commit vme filtNum st
      else Some (st, 0))"

section \<open>Resets\<close>

record filtResetId =
  fmResetCoeff :: int
  fmResetCounter :: int
  fmSubCounter :: int
  fmResetDsp :: "nat option"
  rchanged :: "int list"

text \<open>One subsystem of the front end: its modules in local memory, the operator inputs and the
  load status in shared memory, the coefficients, the ramps and the globals of the reload.\<close>

record fm_sys =
  inputs :: "FM_OP_IN list"
  fmdata :: "FM_OP_DATA list"
  vinputs :: "FM_OP_IN list"
  coef_load_error :: int
  coeffs :: "FM_OP_COEF list"
  offset_ramp :: "RampParamState list"
  gain_ramp :: "RampParamState list"
  resetId :: "filtResetId list"
  slocal :: VME_FM_OP_COEF

definition clear_history :: "FM_OP_COEF \<Rightarrow> FM_OP_COEF" where
  "clear_history c = c\<lparr>filtHist := replicate FILTERS (replicate MAX_HISTRY f0), decHist := replicate 8 f0\<rparr>"

text \<open>A step of the reload in progress.\<close>

definition reload_step :: "VME_FM_OP_COEF list \<Rightarrow> nat \<Rightarrow> fm_sys \<Rightarrow> fm_sys option" where
  "reload_step vmes sid s =
     (let r = resetId s ! sid; m = nat (fmResetCoeff r - 1); f = nat (fmResetCounter r)
      in if m < length (coeffs s) \<and> m < length (inputs s) \<and> m < length vmes \<and> f < FILTERS then
           case readCoefVme2 (vmes ! m) f (fmSubCounter r)
                  \<lparr>rcoef = coeffs s ! m, rinput = inputs s ! m, localCoeff = slocal s, changed = rchanged r\<rparr> of
             None \<Rightarrow> None
           | Some (st, sub) \<Rightarrow>
               let r = r\<lparr>fmSubCounter := sub, rchanged := changed st\<rparr>;
                   s = s\<lparr>coeffs := (coeffs s)[m := rcoef st], inputs := (inputs s)[m := rinput st],
                        slocal := localCoeff st\<rparr>
               in if sub = -1 then
                    Some (s\<lparr>coef_load_error := -1,
                      resetId := (resetId s)[sid := r\<lparr>fmResetCoeff := 0, fmResetCounter := 0\<rparr>]\<rparr>)
                  else if sub = 0 then
                    let r = r\<lparr>fmResetCounter := fmResetCounter r + 1\<rparr>
                    in if fmResetCounter r \<ge> int FILTERS then
                         Some (s\<lparr>coef_load_error := fmResetCoeff r,
                           resetId := (resetId s)[sid := r\<lparr>fmResetCounter := 0, fmResetCoeff := 0\<rparr>]\<rparr>)
                       else Some (s\<lparr>resetId := (resetId s)[sid := r]\<rparr>)
                  else Some (s\<lparr>resetId := (resetId s)[sid := r]\<rparr>)
         else None)"

definition checkFiltResetId ::
  "VME_FM_OP_COEF list \<Rightarrow> int \<Rightarrow> nat \<Rightarrow> int \<Rightarrow> int \<Rightarrow> fm_sys \<Rightarrow> fm_sys option" where
  "checkFiltResetId vmes bank pL totMod idn s =
     (if idn < 0 \<or> idn > 9 then Some s
      else
        let sid = nat idn; r = resetId s ! sid
        in if fmResetCoeff r \<noteq> 0 then
             if fmResetDsp r = Some pL then reload_step vmes sid s else Some s
           else if bank \<ge> 0 \<and> bank < totMod then
             let b = nat bank
             in if b < length (vinputs s) \<and> b < length (coeffs s) then
                  let status = rset (vinputs s ! b) AND 3;
                      s = (if status \<noteq> 0
                           then s\<lparr>vinputs := (vinputs s)[b := (vinputs s ! b)\<lparr>rset := 0\<rparr>]\<rparr> else s);
                      s = (if status AND 2 \<noteq> 0
                           then s\<lparr>coeffs := (coeffs s)[b := clear_history (coeffs s ! b)]\<rparr> else s);
                      r = (if status AND 1 \<noteq> 0
                           then r\<lparr>fmResetCoeff := bank + 1, fmResetDsp := Some pL\<rparr>
                           else r\<lparr>fmResetCoeff := 0\<rparr>)
                  in Some (s\<lparr>resetId := (resetId s)[sid := r]\<rparr>)
                else None
           else Some s)"

definition checkFiltReset ::
  "VME_FM_OP_COEF list \<Rightarrow> int \<Rightarrow> nat \<Rightarrow> int \<Rightarrow> fm_sys \<Rightarrow> fm_sys option" where
  "checkFiltReset vmes bank pL totMod s = checkFiltResetId vmes bank pL totMod 0 s"

section \<open>Start\<close>

abbreviation (input) OPSWITCH_OFFSET_ENABLE :: u32 where "OPSWITCH_OFFSET_ENABLE \<equiv> 0x8"

definition init_module :: "int \<Rightarrow> nat \<Rightarrow> fm_sys \<Rightarrow> fm_sys" where
  "init_module fe_rate ii s =
     (let pL = inputs s ! ii; pV = vinputs s ! ii;
          inp = pL\<lparr>cnt := replicate FILTERS 0, opSwitchE := opSwitchE pV, opSwitchP := 0, rset := 0,
            offset := offset pV, outgain := outgain pV, limiter := limiter pV,
            gain_ramp_time := gain_ramp_time pV\<rparr>
      in s\<lparr>coeffs := (coeffs s)[ii := clear_history (coeffs s ! ii)],
           inputs := (inputs s)[ii := inp],
           offset_ramp := (offset_ramp s)[ii := RampParamInit (offset_ramp s ! ii)
             (if opSwitchE inp AND OPSWITCH_OFFSET_ENABLE \<noteq> 0 then offset inp else f0) fe_rate],
           gain_ramp := (gain_ramp s)[ii := RampParamInit (gain_ramp s ! ii) (outgain inp) fe_rate]\<rparr>)"

definition initVars :: "int \<Rightarrow> VME_FM_OP_COEF list \<Rightarrow> nat \<Rightarrow> fm_sys \<Rightarrow> fm_sys \<times> int" where
  "initVars fe_rate vmes totMod s =
     (let s = fold (init_module fe_rate) [0..<totMod] s;
          ((cs, inps), status) = readCoefVme vmes 0 totMod (coeffs s, inputs s)
      in (s\<lparr>coeffs := cs, inputs := inps\<rparr>, status))"

end
