(* ===== verification/FilterReload.thy ===== *)
theory FilterReload
  imports FilterCoeff
begin

text \<open>
  The reload of a filter module while the front end runs is a state machine of some hundred
  calls; this theory shows that it amounts to one atomic load. Each filter is taken in a
  cycle for its head, one cycle per section and one to commit; the lemmas follow these
  phases, then the ten filters of a module, then the calls of \<open>checkFiltReset\<close>. The checksum
  of the local copy is shown to be the one the EPICS side publishes.
\<close>

unbundle bit_operations_syntax

section \<open>Shapes\<close>

definition vme_wf :: "VME_FM_OP_COEF \<Rightarrow> bool" where
  "vme_wf v \<longleftrightarrow> length (vfiltCoeff v) = FILTERS \<and> (\<forall>cs \<in> set (vfiltCoeff v). length cs = MAX_COEFFS) \<and>
     length (vfiltSections v) = FILTERS \<and> length (vsType v) = FILTERS \<and> length (vramp v) = FILTERS \<and>
     length (vtimout v) = FILTERS \<and> length (vfilterType v) = FILTERS"

definition coef_wf :: "FM_OP_COEF \<Rightarrow> bool" where
  "coef_wf c \<longleftrightarrow> length (filtCoeff c) = FILTERS \<and> (\<forall>cs \<in> set (filtCoeff c). length cs = MAX_COEFFS) \<and>
     length (filtHist c) = FILTERS \<and> (\<forall>h \<in> set (filtHist c). length h = MAX_HISTRY) \<and>
     length (filtSections c) = FILTERS \<and> length (sType c) = FILTERS \<and> length (filterType c) = FILTERS"

definition in_wf :: "FM_OP_IN \<Rightarrow> bool" where
  "in_wf i \<longleftrightarrow> length (rmpcmp i) = FILTERS \<and> length (timeout i) = FILTERS \<and> length (cnt i) = FILTERS"

definition reload_wf :: "reload \<Rightarrow> bool" where
  "reload_wf st \<longleftrightarrow> coef_wf (rcoef st) \<and> in_wf (rinput st) \<and> vme_wf (localCoeff st) \<and>
     length (changed st) = FILTERS"

section \<open>The sections of a filter\<close>

lemma reload_begin_changed: "changed (fst (reload_begin vme f st)) = replicate 10 (if snd (reload_begin vme f st) = 1 then 0 else 1)"
  by (simp add: reload_begin_def local_crc_def Let_def)

text \<open>What taking the coefficients \<open>ks\<close> of filter \<open>f\<close> does to the local copy.\<close>

definition copied :: "VME_FM_OP_COEF \<Rightarrow> nat \<Rightarrow> nat list \<Rightarrow> VME_FM_OP_COEF \<Rightarrow> VME_FM_OP_COEF" where
  "copied vme f ks l = l\<lparr>vfiltCoeff := (vfiltCoeff l)[f :=
       fold (\<lambda>k cs. cs[k := vfiltCoeff vme ! f ! k]) ks (vfiltCoeff l ! f)],
     vcrc := crc_ptr (concat (map (\<lambda>k. double_bytes (vfiltCoeff vme ! f ! k)) ks)) (vcrc l)\<rparr>"

lemma fold_take_coeff:
  assumes "f < length (vfiltCoeff (localCoeff st))"
  shows "rcoef (fold (take_coeff vme f) ks st) = rcoef st"
    "rinput (fold (take_coeff vme f) ks st) = rinput st"
    "localCoeff (fold (take_coeff vme f) ks st) = copied vme f ks (localCoeff st)"
  using assms
  by (induction ks arbitrary: st)
     (simp_all add: take_coeff_def local_crc_def copied_def Let_def crc.upd_append)

lemma take_coeff_changed:
  "rcoef (take_coeff vme f k st) = rcoef st"
  "changed (take_coeff vme f k st) = (if feq (filtCoeff (rcoef st) ! f ! k) (vfiltCoeff vme ! f ! k)
     then changed st else (changed st)[f := changed st ! f + 1])"
  by (simp_all add: take_coeff_def local_crc_def Let_def)

lemma fold_take_coeff_changed:
  assumes "f < length (changed st)"
  shows "changed (fold (take_coeff vme f) ks st) = (changed st)[f := changed st ! f +
    int (length (filter (\<lambda>k. \<not> feq (filtCoeff (rcoef st) ! f ! k) (vfiltCoeff vme ! f ! k)) ks))]"
  using assms
proof (induction ks arbitrary: st)
  case Nil
  then show ?case by simp
next
  case (Cons k ks)
  show ?case
    using Cons.IH [of "take_coeff vme f k st"] Cons.prems
    by (simp add: take_coeff_changed ac_simps)
qed

lemma fold_update_upt:
  "n \<le> length cs \<Longrightarrow> n \<le> length vs \<Longrightarrow> fold (\<lambda>k cs. cs[k := vs ! k]) [0..<n] cs = take n vs @ drop n cs"
proof (induction n)
  case 0
  then show ?case by simp
next
  case (Suc n)
  then have "fold (\<lambda>k cs. cs[k := vs ! k]) [0..<Suc n] cs = (take n vs @ drop n cs)[n := vs ! n]"
    by simp
  also have "\<dots> = take (Suc n) vs @ drop (Suc n) cs"
    using Suc.prems by (simp add: list_update_append take_Suc_conv_app_nth Cons_nth_drop_Suc [symmetric])
  finally show ?case .
qed

lemma take_map_nth_eq: "m \<le> length xs \<Longrightarrow> map ((!) xs) [0..<m] = take m xs"
  by (rule nth_equalityI) simp_all

text \<open>Successive calls for one filter.\<close>

fun reload_run :: "VME_FM_OP_COEF \<Rightarrow> nat \<Rightarrow> nat \<Rightarrow> reload \<times> int \<Rightarrow> (reload \<times> int) option" where
  "reload_run vme f 0 p = Some p"
| "reload_run vme f (Suc k) (st, c) = Option.bind (readCoefVme2 vme f c st) (reload_run vme f k)"

lemma reload_run_0 [simp]: "reload_run vme f 0 = Some"
  by (rule ext) simp

lemma reload_run_add:
  "reload_run vme f (j + k) p = Option.bind (reload_run vme f j p) (reload_run vme f k)"
proof (induction j arbitrary: p)
  case 0
  then show ?case by simp
next
  case (Suc j)
  obtain st c where "p = (st, c)" by (cases p)
  then show ?case using Suc.IH by (cases "readCoefVme2 vme f c st") simp_all
qed

lemma reload_section_eq:
  assumes "vfilterType vme ! f = 0"
  shows "reload_section vme f (int c + 1) st =
    (let st' = fold (take_coeff vme f) ((if c = 0 then [0] else []) @ [4 * c + 1..<4 * c + 5]) st
     in (st', if vfiltSections (localCoeff st') ! f > int c + 1 then int c + 2 else MAX_UPDATE_CYCLE))"
proof -
  have "nat ((int c + 1) * 4 + 1) = 4 * c + 5" by simp
  then show ?thesis using assms unfolding reload_section_def by (simp add: Let_def)
qed

lemma reload_sections:
  assumes "vfilterType vme ! f = 0" "f < length (vfiltCoeff (localCoeff st))"
    and "vfiltSections (localCoeff st) ! f = int n" "n \<le> 10" "1 \<le> c" "c \<le> n"
  shows "reload_run vme f c (st, 1) =
    Some (fold (take_coeff vme f) [0..<4 * c + 1] st, if c < n then int c + 1 else MAX_UPDATE_CYCLE)"
  using assms(5,6)
proof (induction c)
  case 0
  then show ?case by simp
next
  case (Suc c)
  let ?st = "fold (take_coeff vme f) [0..<if c = 0 then 0 else 4 * c + 1] st"
  have run: "reload_run vme f c (st, 1) = Some (?st, int c + 1)"
    using Suc by (cases "c = 0") simp_all
  have sec: "vfiltSections (localCoeff (fold (take_coeff vme f) ks st)) ! f = int n" for ks
    using fold_take_coeff(3) [OF assms(2)] assms(3) by (simp add: copied_def)
  have ks: "[0..<4 * Suc c + 1] = (if c = 0 then [0] else [0..<4 * c + 1]) @ [4 * c + 1..<4 * c + 5]"
    using upt_add_eq_append [of 0 "4 * c + 1" 4] by (simp add: add.commute)
  have "fold (take_coeff vme f) ((if c = 0 then [0] else []) @ [4 * c + 1..<4 * c + 5]) ?st =
      fold (take_coeff vme f) [0..<4 * Suc c + 1] st"
    unfolding ks by simp
  then have "reload_section vme f (int c + 1) ?st = (fold (take_coeff vme f) [0..<4 * Suc c + 1] st,
      if Suc c < n then int (Suc c) + 1 else MAX_UPDATE_CYCLE)"
    unfolding reload_section_eq [OF assms(1)] Let_def using sec by (simp only:) simp
  then have "readCoefVme2 vme f (int c + 1) ?st = Some (fold (take_coeff vme f) [0..<4 * Suc c + 1] st,
      if Suc c < n then int (Suc c) + 1 else MAX_UPDATE_CYCLE)"
    using Suc.prems assms(4) unfolding readCoefVme2_def by simp
  then show ?case using reload_run_add [of vme f c 1 "(st, 1)"] run by simp
qed

section \<open>One filter\<close>

text \<open>The atomic load of filter \<open>f\<close> that a run of calls amounts to.\<close>

definition filter_ok :: "VME_FM_OP_COEF \<Rightarrow> nat \<Rightarrow> bool" where
  "filter_ok vme f \<longleftrightarrow> 1 \<le> vfiltSections vme ! f \<and> vfiltSections vme ! f \<le> MAX_SO_SECTIONS"

definition coeff_count :: "VME_FM_OP_COEF \<Rightarrow> nat \<Rightarrow> nat" where
  "coeff_count vme f = nat (vfiltSections vme ! f * 4 + 1)"

definition coeffs_differ :: "VME_FM_OP_COEF \<Rightarrow> nat \<Rightarrow> FM_OP_COEF \<Rightarrow> bool" where
  "coeffs_differ vme f c \<longleftrightarrow>
     (\<exists>k < coeff_count vme f. \<not> feq (filtCoeff c ! f ! k) (vfiltCoeff vme ! f ! k))"

definition load_coef :: "VME_FM_OP_COEF \<Rightarrow> nat \<Rightarrow> FM_OP_COEF \<Rightarrow> FM_OP_COEF" where
  "load_coef vme f c =
     (if filter_ok vme f then
        c\<lparr>filtHist := (if coeffs_differ vme f c then (filtHist c)[f := replicate MAX_HISTRY f0]
                      else filtHist c),
          filtSections := (filtSections c)[f := vfiltSections vme ! f],
          filterType := (filterType c)[f := 0], sType := (sType c)[f := vsType vme ! f],
          filtCoeff := (filtCoeff c)[f := take (coeff_count vme f) (vfiltCoeff vme ! f) @
                                         drop (coeff_count vme f) (filtCoeff c ! f)]\<rparr>
      else c\<lparr>filtSections := (filtSections c)[f := 0], filterType := (filterType c)[f := 0]\<rparr>)"

definition load_input :: "VME_FM_OP_COEF \<Rightarrow> nat \<Rightarrow> FM_OP_IN \<Rightarrow> FM_OP_IN" where
  "load_input vme f inp =
     (if filter_ok vme f then
        inp\<lparr>rmpcmp := (rmpcmp inp)[f := vramp vme ! f], timeout := (timeout inp)[f := vtimout vme ! f]\<rparr>
      else inp\<lparr>opSwitchP := opSwitchP inp AND NOT (pow2_out ! f)\<rparr>)"

definition filter_calls :: "VME_FM_OP_COEF \<Rightarrow> nat \<Rightarrow> nat" where
  "filter_calls vme f = (if filter_ok vme f then nat (vfiltSections vme ! f) + 2 else 2)"

definition coef_range :: "VME_FM_OP_COEF \<Rightarrow> bool" where
  "coef_range vme \<longleftrightarrow> (\<forall>f < FILTERS. \<bar>vfiltSections vme ! f\<bar> < 2 ^ 31)"

lemma uint_sections:
  assumes "coef_range vme" "f < FILTERS"
  shows "filter_ok vme f \<longleftrightarrow> 0 < uint (word_of_int (vfiltSections vme ! f) :: u32) \<and>
     uint (word_of_int (vfiltSections vme ! f) :: u32) < 11"
proof -
  have r: "\<bar>vfiltSections vme ! f\<bar> < 2 ^ 31" using assms by (simp add: coef_range_def)
  have "uint (word_of_int i :: u32) = (if 0 \<le> i then i else i + 2 ^ 32)" if "\<bar>i\<bar> < 2 ^ 31" for i :: int
  proof (cases "0 \<le> i")
    case True
    then have "take_bit 32 i = i" using that by (simp add: take_bit_int_eq_self)
    then show ?thesis using True by (simp add: uint_word_of_int_eq)
  next
    case False
    then have "i mod 2 ^ 32 = i + 2 ^ 32"
      using that mod_add_self2 [of i "2 ^ 32"] mod_pos_pos_trivial [of "i + 2 ^ 32" "2 ^ 32"] by simp
    then show ?thesis using False by (simp add: uint_word_of_int_eq take_bit_eq_mod)
  qed
  from this [OF r] r show ?thesis by (auto simp: filter_ok_def split: if_splits)
qed

lemma reload_begin_off:
  assumes "coef_range vme" "f < FILTERS" "vfilterType vme ! f = 0" "\<not> filter_ok vme f"
  shows "reload_begin vme f st =
    (let l = localCoeff st
     in (st\<lparr>rinput := load_input vme f (rinput st), rcoef := load_coef vme f (rcoef st),
            changed := replicate 10 1, localCoeff := l\<lparr>vcrc := crc_ptr (int_bytes (vfiltSections vme ! f))
              (if f = 0 then 0 else vcrc l), vfiltSections := (vfiltSections l)[f := 0]\<rparr>\<rparr>,
         MAX_UPDATE_CYCLE))"
proof -
  have load: "load_input vme f i = i\<lparr>opSwitchP := opSwitchP i AND NOT (pow2_out ! f)\<rparr>"
    "load_coef vme f c = c\<lparr>filtSections := (filtSections c)[f := 0], filterType := (filterType c)[f := 0]\<rparr>"
    for i c
    using assms(4) by (simp_all add: load_input_def load_coef_def)
  have guard: "\<not> (0 < uint (word_of_int (vfiltSections vme ! f) :: u32) \<and>
     uint (word_of_int (vfiltSections vme ! f) :: u32) < 11)"
    using uint_sections [OF assms(1,2)] assms(4) by blast
  show ?thesis
    unfolding reload_begin_def Let_def load assms(3) if_not_P [OF guard]
    using guard by (auto simp: local_crc_def)
qed

lemma reload_begin_on:
  assumes "coef_range vme" "f < FILTERS" "vfilterType vme ! f = 0" "filter_ok vme f" "vme_wf (localCoeff st)"
  shows "reload_begin vme f st =
    (let l = localCoeff st
     in (st\<lparr>changed := replicate 10 0, localCoeff := l\<lparr>
            vcrc := crc_ptr (int_bytes (vfiltSections vme ! f) @ int_bytes (vsType vme ! f) @
              int_bytes (vramp vme ! f) @ int_bytes (vtimout vme ! f)) (if f = 0 then 0 else vcrc l),
            vfiltSections := (vfiltSections l)[f := vfiltSections vme ! f],
            vfilterType := (vfilterType l)[f := 0], vsType := (vsType l)[f := vsType vme ! f],
            vramp := (vramp l)[f := vramp vme ! f], vtimout := (vtimout l)[f := vtimout vme ! f]\<rparr>\<rparr>, 1))"
proof -
  have guard: "0 < uint (word_of_int (vfiltSections vme ! f) :: u32) \<and>
     uint (word_of_int (vfiltSections vme ! f) :: u32) < 11"
    using uint_sections [OF assms(1,2)] assms(4) by blast
  show ?thesis
    unfolding reload_begin_def Let_def assms(3)
    using guard assms(2,5) by (auto simp: local_crc_def crc.upd_append vme_wf_def)
qed

lemma clear_changed_one:
  "length hist = 10 \<Longrightarrow> f < 10 \<Longrightarrow> clear_changed ((replicate 10 0)[f := x]) hist =
     (if x = 0 then hist else hist[f := replicate MAX_HISTRY f0])"
  unfolding clear_changed_def by (rule nth_equalityI) (auto simp: nth_list_update)

lemma coef_crc_bytes_ok:
  assumes "coef_range vme" "f < FILTERS" "filter_ok vme f"
  shows "coef_crc_bytes vme f = int_bytes (vfiltSections vme ! f) @ int_bytes (vsType vme ! f) @
    int_bytes (vramp vme ! f) @ int_bytes (vtimout vme ! f) @
    concat (map double_bytes (take (coeff_count vme f) (vfiltCoeff vme ! f)))"
proof -
  have "0 < unat (word_of_int (vfiltSections vme ! f) :: u32)"
  proof -
    have "0 < uint (word_of_int (vfiltSections vme ! f) :: u32)"
      using uint_sections [OF assms(1,2)] assms(3) by blast
    then have "(word_of_int (vfiltSections vme ! f) :: u32) \<noteq> 0" by auto
    then show ?thesis by (simp add: unat_gt_0)
  qed
  then show ?thesis by (simp add: coef_crc_bytes_def coeff_count_def Let_def add.commute mult.commute)
qed

text \<open>The result of a run for one filter, on a state \<open>st\<close>.\<close>

definition loaded_state :: "VME_FM_OP_COEF \<Rightarrow> nat \<Rightarrow> reload \<Rightarrow> reload \<Rightarrow> bool" where
  "loaded_state vme f st st' \<longleftrightarrow>
     rcoef st' = load_coef vme f (rcoef st) \<and> rinput st' = load_input vme f (rinput st) \<and>
     vme_wf (localCoeff st') \<and> length (changed st') = FILTERS \<and>
     (0 \<le> vfiltSections vme ! f \<and> vfiltSections vme ! f \<le> MAX_SO_SECTIONS \<longrightarrow>
        vcrc (localCoeff st') = crc_ptr (coef_crc_bytes vme f) (if f = 0 then 0 else vcrc (localCoeff st)))"

lemma reload_filter_off:
  assumes "coef_range vme" "f < FILTERS" "vfilterType vme ! f = 0" "\<not> filter_ok vme f" "reload_wf st"
  defines "st' \<equiv> fst (reload_begin vme f st)"
  shows "reload_run vme f 1 (st, 0) = Some (st', MAX_UPDATE_CYCLE)"
    "reload_run vme f 2 (st, 0) = Some (st', 0)" "loaded_state vme f st st'"
proof -
  note off = reload_begin_off [OF assms(1-4), of st]
  have l: "vfiltSections (localCoeff st') ! f = 0"
    using assms(2,5) by (simp add: st'_def off Let_def reload_wf_def vme_wf_def)
  have head: "readCoefVme2 vme f 0 st = Some (st', MAX_UPDATE_CYCLE)"
    by (simp add: readCoefVme2_def st'_def off Let_def)
  then show run: "reload_run vme f 1 (st, 0) = Some (st', MAX_UPDATE_CYCLE)" by simp
  have "readCoefVme2 vme f MAX_UPDATE_CYCLE st' = Some (st', 0)"
    using l by (simp add: readCoefVme2_def reload_commit_def)
  with head show "reload_run vme f 2 (st, 0) = Some (st', 0)" by (simp add: numeral_2_eq_2)
  have "coef_crc_bytes vme f = int_bytes (vfiltSections vme ! f)"
    if "0 \<le> vfiltSections vme ! f" "vfiltSections vme ! f \<le> 10"
  proof -
    have "vfiltSections vme ! f = 0" using that assms(4) by (simp add: filter_ok_def)
    then show ?thesis by (simp add: coef_crc_bytes_def Let_def)
  qed
  then show "loaded_state vme f st st'"
    using assms(5) by (simp add: loaded_state_def st'_def off Let_def reload_wf_def vme_wf_def)
qed

lemma reload_commit_on:
  assumes "filter_ok vme f" "f < FILTERS" "vfilterType vme ! f = 0" "coef_wf (rcoef st)"
    and "vfiltSections (localCoeff st) ! f = vfiltSections vme ! f" "vfilterType (localCoeff st) ! f = 0"
    and "vsType (localCoeff st) ! f = vsType vme ! f" "vramp (localCoeff st) ! f = vramp vme ! f"
    and "vtimout (localCoeff st) ! f = vtimout vme ! f"
    and "take (coeff_count vme f) (vfiltCoeff (localCoeff st) ! f) =
      take (coeff_count vme f) (vfiltCoeff vme ! f)"
    and "changed st = (replicate 10 0)[f := x]" "x \<noteq> 0 \<longleftrightarrow> coeffs_differ vme f (rcoef st)"
  shows "reload_commit vme f st = Some (st\<lparr>rcoef := load_coef vme f (rcoef st),
    rinput := load_input vme f (rinput st)\<rparr>, 0)"
proof -
  have n: "vfiltSections vme ! f \<noteq> 0" "\<not> nat (vfiltSections vme ! f * 4 + 1) > 41" "\<not> vfiltSections vme ! f < 0"
    using assms(1) by (auto simp: filter_ok_def)
  have hist: "clear_changed (changed st) (filtHist (rcoef st)) =
      (if coeffs_differ vme f (rcoef st) then (filtHist (rcoef st))[f := replicate 20 f0]
       else filtHist (rcoef st))"
    using clear_changed_one [of "filtHist (rcoef st)" f x] assms(2,4,11,12) by (auto simp: coef_wf_def)
  show ?thesis
    using n assms(1,10) unfolding reload_commit_def Let_def assms(3,5-9) hist coeff_count_def
    by (simp add: load_coef_def load_input_def coeff_count_def)
qed

lemma reload_filter_on:
  assumes "coef_range vme" "f < FILTERS" "vfilterType vme ! f = 0" "filter_ok vme f" "reload_wf st"
    and "vme_wf vme"
  defines "n \<equiv> nat (vfiltSections vme ! f)"
  shows "\<And>c. c \<le> n \<Longrightarrow> \<exists>st'. reload_run vme f (1 + c) (st, 0) =
      Some (st', if c < n then int c + 1 else MAX_UPDATE_CYCLE)"
    and "\<exists>st'. reload_run vme f (n + 2) (st, 0) = Some (st', 0) \<and> loaded_state vme f st st'"
proof -
  define st0 where "st0 = fst (reload_begin vme f st)"
  define st1 where "st1 = fold (take_coeff vme f) [0..<4 * n + 1] st0"
  have wf: "vme_wf (localCoeff st)" "coef_wf (rcoef st)" using assms(5) by (auto simp: reload_wf_def)
  note on = reload_begin_on [OF assms(1-4) wf(1)]
  have n: "vfiltSections vme ! f = int n" "1 \<le> n" "n \<le> 10" using assms(4) by (auto simp: n_def filter_ok_def)
  then have m: "coeff_count vme f = 4 * n + 1" by (simp add: coeff_count_def nat_add_distrib)
  have l0: "f < length (vfiltCoeff (localCoeff st0))" "vfiltSections (localCoeff st0) ! f = int n"
    using wf(1) assms(2) n(1) by (simp_all add: st0_def on Let_def vme_wf_def)
  have head: "readCoefVme2 vme f 0 st = Some (st0, 1)"
    by (simp add: readCoefVme2_def st0_def on Let_def)
  have secs: "reload_run vme f (1 + c) (st, 0) = Some (fold (take_coeff vme f) [0..<4 * c + 1] st0,
      if c < n then int c + 1 else MAX_UPDATE_CYCLE)" if "1 \<le> c" "c \<le> n" for c
    using reload_sections [OF assms(3) l0 n(3) that] head by simp
  show "\<exists>st'. reload_run vme f (1 + c) (st, 0) =
      Some (st', if c < n then int c + 1 else MAX_UPDATE_CYCLE)" if "c \<le> n" for c
    using secs [of c] head that n(2) by (cases "c = 0") auto
  have cs: "length (vfiltCoeff vme ! f) = 41" "length (vfiltCoeff (localCoeff st) ! f) = 41"
    using assms(2,6) wf(1) by (simp_all add: vme_wf_def)
  have l1: "localCoeff st1 = copied vme f [0..<4 * n + 1] (localCoeff st0)"
    "rcoef st1 = rcoef st" "rinput st1 = rinput st"
    unfolding st1_def fold_take_coeff [OF l0(1)] by (simp_all add: st0_def on Let_def)
  have copy: "vfiltCoeff (localCoeff st1) ! f = take (4 * n + 1) (vfiltCoeff vme ! f) @
      drop (4 * n + 1) (vfiltCoeff (localCoeff st) ! f)"
    using fold_update_upt [of "4 * n + 1" "vfiltCoeff (localCoeff st) ! f" "vfiltCoeff vme ! f"]
      n(3) l0(1) cs by (simp add: l1 copied_def st0_def on Let_def)
  have chg: "\<exists>x. changed st1 = (replicate 10 0)[f := x] \<and> (x \<noteq> 0 \<longleftrightarrow> coeffs_differ vme f (rcoef st))"
  proof -
    let ?x = "int (length (filter (\<lambda>k. \<not> feq (filtCoeff (rcoef st) ! f ! k) (vfiltCoeff vme ! f ! k))
      [0..<4 * n + 1]))"
    have "changed st0 = replicate 10 0" "rcoef st0 = rcoef st" by (simp_all add: st0_def on Let_def)
    then have "changed st1 = (replicate 10 0)[f := ?x]"
      using fold_take_coeff_changed [of f st0 vme "[0..<4 * n + 1]"] assms(2)
      unfolding st1_def by (simp del: upt_Suc)
    moreover have "?x \<noteq> 0 \<longleftrightarrow> coeffs_differ vme f (rcoef st)"
      by (simp del: upt_Suc add: coeffs_differ_def m filter_empty_conv) auto
    ultimately show ?thesis by blast
  qed
  obtain x where "changed st1 = (replicate 10 0)[f := x]" "x \<noteq> 0 \<longleftrightarrow> coeffs_differ vme f (rcoef st1)"
    using chg l1(2) by auto
  then have commit: "reload_commit vme f st1 = Some (st1\<lparr>rcoef := load_coef vme f (rcoef st1),
      rinput := load_input vme f (rinput st1)\<rparr>, 0)"
    using wf assms(2) n(3) cs
    by (intro reload_commit_on [OF assms(4,2,3)])
       (simp_all add: l1(2) copy m, simp_all add: l1(1) copied_def st0_def on Let_def vme_wf_def)
  define st2 where "st2 = st1\<lparr>rcoef := load_coef vme f (rcoef st1), rinput := load_input vme f (rinput st1)\<rparr>"
  have "reload_run vme f (1 + n + 1) (st, 0) = Some (st2, 0)"
    using secs [OF n(2) order.refl] commit reload_run_add [of vme f "1 + n" 1 "(st, 0)"]
    by (simp add: st1_def st2_def readCoefVme2_def)
  moreover have "loaded_state vme f st st2"
  proof -
    have "map (\<lambda>k. double_bytes (vfiltCoeff vme ! f ! k)) [0..<4 * n + 1] =
        map double_bytes (map ((!) (vfiltCoeff vme ! f)) [0..<4 * n + 1])"
      by (simp del: upt_Suc)
    also have "\<dots> = map double_bytes (take (4 * n + 1) (vfiltCoeff vme ! f))"
      by (subst take_map_nth_eq) (use n(3) cs(1) in simp_all)
    finally have "vcrc (localCoeff st1) = crc_ptr (coef_crc_bytes vme f) (if f = 0 then 0 else vcrc (localCoeff st))"
      using coef_crc_bytes_ok [OF assms(1,2,4)]
      by (simp add: l1(1) copied_def st0_def on Let_def crc.upd_append m del: upt_Suc)
    moreover have "vme_wf (localCoeff st1)"
      using wf(1) copy l0 cs assms(2) by (auto simp: l1(1) copied_def st0_def on Let_def vme_wf_def dest!: subsetD [OF set_update_subset_insert])
    ultimately show ?thesis using chg by (auto simp: loaded_state_def st2_def l1)
  qed
  ultimately show "\<exists>st'. reload_run vme f (n + 2) (st, 0) = Some (st', 0) \<and> loaded_state vme f st st'"
    by auto
qed

section \<open>The calls of a reload\<close>

fun check_run ::
  "VME_FM_OP_COEF list \<Rightarrow> nat \<Rightarrow> int \<Rightarrow> int list \<Rightarrow> fm_sys \<Rightarrow> fm_sys option" where
  "check_run vmes pL totMod [] s = Some s"
| "check_run vmes pL totMod (b # bs) s =
     Option.bind (checkFiltReset vmes b pL totMod s) (check_run vmes pL totMod bs)"

lemma check_run_append:
  "check_run vmes pL totMod (as @ bs) s =
     Option.bind (check_run vmes pL totMod as s) (check_run vmes pL totMod bs)"
proof (induction as arbitrary: s)
  case Nil
  then show ?case by simp
next
  case (Cons a as)
  then show ?case by (cases "checkFiltReset vmes a pL totMod s") simp_all
qed

text \<open>The system in the middle of a reload of module \<open>m\<close>, at filter \<open>f\<close>, and after it.\<close>

definition with_module :: "fm_sys \<Rightarrow> nat \<Rightarrow> reload \<Rightarrow> fm_sys" where
  "with_module s m st = s\<lparr>coeffs := (coeffs s)[m := rcoef st], inputs := (inputs s)[m := rinput st],
     slocal := localCoeff st\<rparr>"

definition in_reload :: "fm_sys \<Rightarrow> nat \<Rightarrow> nat \<Rightarrow> nat \<Rightarrow> int \<Rightarrow> reload \<Rightarrow> fm_sys" where
  "in_reload s m pL f sub st = (with_module s m st)\<lparr>resetId := (resetId s)[0 :=
     \<lparr>fmResetCoeff = int m + 1, fmResetCounter = int f, fmSubCounter = sub, fmResetDsp = Some pL,
      rchanged = changed st\<rparr>]\<rparr>"

definition after_reload :: "fm_sys \<Rightarrow> nat \<Rightarrow> nat \<Rightarrow> reload \<Rightarrow> fm_sys" where
  "after_reload s m pL st = (with_module s m st)\<lparr>coef_load_error := int m + 1, resetId := (resetId s)[0 :=
     \<lparr>fmResetCoeff = 0, fmResetCounter = 0, fmSubCounter = 0, fmResetDsp = Some pL,
      rchanged = changed st\<rparr>]\<rparr>"

definition sys_has :: "VME_FM_OP_COEF list \<Rightarrow> nat \<Rightarrow> fm_sys \<Rightarrow> bool" where
  "sys_has vmes m s \<longleftrightarrow> m < length (coeffs s) \<and> m < length (inputs s) \<and> m < length vmes \<and>
     0 < length (resetId s)"

lemma reload_step_eq:
  assumes "sys_has vmes m s" "f < FILTERS" "readCoefVme2 (vmes ! m) f sub st = Some (st', sub')" "0 \<le> sub'"
  shows "checkFiltReset vmes b pL totMod (in_reload s m pL f sub st) =
    (if sub' \<noteq> 0 then Some (in_reload s m pL f sub' st')
     else if f + 1 < FILTERS then Some (in_reload s m pL (f + 1) 0 st')
     else Some (after_reload s m pL st'))"
  using assms
  by (cases st)
     (auto simp: checkFiltReset_def checkFiltResetId_def reload_step_def in_reload_def
        with_module_def after_reload_def sys_has_def Let_def add.commute)

lemma check_run_reload_run:
  assumes "sys_has vmes m s" "f < FILTERS" "length bs = k"
    and "reload_run (vmes ! m) f k (st, sub) = Some (st', sub')"
    and "\<And>j. 0 < j \<Longrightarrow> j \<le> k \<Longrightarrow> \<exists>q c. reload_run (vmes ! m) f j (st, sub) = Some (q, c) \<and> 0 < c"
  shows "check_run vmes pL totMod bs (in_reload s m pL f sub st) = Some (in_reload s m pL f sub' st')"
  using assms(3-5)
proof (induction bs arbitrary: k st sub)
  case Nil
  then show ?case by simp
next
  case (Cons b bs)
  then obtain k' where k: "k = Suc k'" "length bs = k'" by auto
  obtain q c where step: "readCoefVme2 (vmes ! m) f sub st = Some (q, c)" "0 < c"
    using Cons.prems(3) [of 1] k(1) by auto
  have "checkFiltReset vmes b pL totMod (in_reload s m pL f sub st) = Some (in_reload s m pL f c q)"
    using reload_step_eq [OF assms(1,2) step(1)] step(2) by simp
  moreover have "check_run vmes pL totMod bs (in_reload s m pL f c q) = Some (in_reload s m pL f sub' st')"
  proof (rule Cons.IH [OF k(2)])
    show "reload_run (vmes ! m) f k' (q, c) = Some (st', sub')" using Cons.prems(2) k(1) step(1) by simp
    show "\<exists>q' c'. reload_run (vmes ! m) f j (q, c) = Some (q', c') \<and> 0 < c'" if "0 < j" "j \<le> k'" for j
      using Cons.prems(3) [of "Suc j"] that k(1) step(1) by simp
  qed
  ultimately show ?case by simp
qed

text \<open>All the calls for one filter.\<close>

lemma check_run_filter:
  assumes "sys_has vmes m s" "f < FILTERS" "length bs = filter_calls (vmes ! m) f"
    and "coef_range (vmes ! m)" "vfilterType (vmes ! m) ! f = 0" "vme_wf (vmes ! m)" "reload_wf st"
  shows "\<exists>st'. loaded_state (vmes ! m) f st st' \<and>
    check_run vmes pL totMod bs (in_reload s m pL f 0 st) =
      (if f + 1 < FILTERS then Some (in_reload s m pL (f + 1) 0 st') else Some (after_reload s m pL st'))"
proof -
  define k where "k = filter_calls (vmes ! m) f - 1"
  have calls: "filter_calls (vmes ! m) f = Suc k" by (simp add: filter_calls_def k_def)
  have pos: "\<exists>q c. reload_run (vmes ! m) f j (st, 0) = Some (q, c) \<and> 0 < c" if "0 < j" "j \<le> k" for j
  proof (cases "filter_ok (vmes ! m) f")
    case True
    then have "j - 1 \<le> nat (vfiltSections (vmes ! m) ! f)" using that by (simp add: k_def filter_calls_def)
    from reload_filter_on(1) [OF assms(4,2,5) True assms(7,6) this] that show ?thesis
      by (fastforce split: if_splits)
  next
    case False
    then have "j = 1" using that by (simp add: k_def filter_calls_def)
    then show ?thesis using reload_filter_off(1) [OF assms(4,2,5) False assms(7)] by simp
  qed
  obtain st' where st': "reload_run (vmes ! m) f (k + 1) (st, 0) = Some (st', 0)" "loaded_state (vmes ! m) f st st'"
  proof (cases "filter_ok (vmes ! m) f")
    case True
    then show ?thesis
      using reload_filter_on(2) [OF assms(4,2,5) True assms(7,6)] that calls by (auto simp: filter_calls_def)
  next
    case False
    then have "k + 1 = 2" using calls by (simp add: filter_calls_def)
    then show ?thesis using reload_filter_off(2,3) [OF assms(4,2,5) False assms(7)] that by (simp only:)
  qed
  have "k \<noteq> 0" using calls by (simp add: filter_calls_def split: if_splits)
  then obtain q c where q: "reload_run (vmes ! m) f k (st, 0) = Some (q, c)" "0 < c" using pos [of k] by auto
  have last: "readCoefVme2 (vmes ! m) f c q = Some (st', 0)"
    using st'(1) unfolding reload_run_add q(1) by (cases "readCoefVme2 (vmes ! m) f c q") auto
  obtain bs' b where bs: "bs = bs' @ [b]" "length bs' = k"
    using assms(3) calls by (cases bs rule: rev_cases) auto
  have "check_run vmes pL totMod bs' (in_reload s m pL f 0 st) = Some (in_reload s m pL f c q)"
    using check_run_reload_run [OF assms(1,2) bs(2) q(1) pos] by blast
  then show ?thesis
    using reload_step_eq [OF assms(1,2) last] st'(2) by (auto simp: bs(1) check_run_append)
qed

section \<open>A whole module\<close>

lemma loaded_state_wf:
  assumes "loaded_state vme f st st'" "reload_wf st" "vme_wf vme" "f < FILTERS"
  shows "reload_wf st'"
proof -
  have "length (vfiltCoeff vme ! f) = 41" "length (filtCoeff (rcoef st) ! f) = 41"
    using assms by (auto simp: reload_wf_def vme_wf_def coef_wf_def)
  then have "coef_wf (load_coef vme f (rcoef st))"
    using assms(2) by (auto simp: reload_wf_def coef_wf_def load_coef_def dest!: subsetD [OF set_update_subset_insert])
  then show ?thesis
    using assms(1,2) by (simp add: loaded_state_def reload_wf_def in_wf_def load_input_def)
qed

definition reload_calls :: "VME_FM_OP_COEF \<Rightarrow> nat list \<Rightarrow> nat" where
  "reload_calls vme fs = sum_list (map (filter_calls vme) fs)"

definition sections_in_range :: "VME_FM_OP_COEF \<Rightarrow> bool" where
  "sections_in_range vme \<longleftrightarrow>
     (\<forall>f < FILTERS. 0 \<le> vfiltSections vme ! f \<and> vfiltSections vme ! f \<le> MAX_SO_SECTIONS)"

lemma check_run_module:
  assumes "sys_has vmes m s" "coef_range (vmes ! m)" "vme_wf (vmes ! m)"
    and "\<forall>f < FILTERS. vfilterType (vmes ! m) ! f = 0"
    and "f < FILTERS" "reload_wf st" "length bs = reload_calls (vmes ! m) [f..<FILTERS]"
  shows "\<exists>st'. check_run vmes pL totMod bs (in_reload s m pL f 0 st) = Some (after_reload s m pL st') \<and>
    rcoef st' = fold (load_coef (vmes ! m)) [f..<FILTERS] (rcoef st) \<and>
    rinput st' = fold (load_input (vmes ! m)) [f..<FILTERS] (rinput st) \<and>
    (sections_in_range (vmes ! m) \<longrightarrow> vcrc (localCoeff st') =
       coefCrc (vmes ! m) [f..<FILTERS] (if f = 0 then 0 else vcrc (localCoeff st)))"
  using assms(5-7)
proof (induction "FILTERS - f" arbitrary: f st bs)
  case 0
  then show ?case by simp
next
  case (Suc k)
  let ?v = "vmes ! m"
  have fs: "[f..<FILTERS] = f # [f + 1..<FILTERS]" using Suc.prems by (simp add: upt_rec)
  define as where "as = take (filter_calls ?v f) bs"
  define cs where "cs = drop (filter_calls ?v f) bs"
  have bs: "bs = as @ cs" "length as = filter_calls ?v f" "length cs = reload_calls ?v [f + 1..<FILTERS]"
    using Suc.prems(3) by (simp_all add: as_def cs_def fs reload_calls_def)
  obtain st1 where st1: "loaded_state ?v f st st1"
    "check_run vmes pL totMod as (in_reload s m pL f 0 st) =
      (if f + 1 < FILTERS then Some (in_reload s m pL (f + 1) 0 st1) else Some (after_reload s m pL st1))"
    using check_run_filter [OF assms(1) Suc.prems(1) bs(2) assms(2) _ assms(3) Suc.prems(2)]
      assms(4) Suc.prems(1) by blast
  have crc: "sections_in_range ?v \<Longrightarrow> vcrc (localCoeff st1) =
      crc_ptr (coef_crc_bytes ?v f) (if f = 0 then 0 else vcrc (localCoeff st))"
    using st1(1) Suc.prems(1) by (simp add: loaded_state_def sections_in_range_def)
  note loaded = st1(1) [unfolded loaded_state_def]
  show ?case
  proof (cases "f + 1 < FILTERS")
    case True
    have "reload_wf st1" using loaded_state_wf [OF st1(1) Suc.prems(2) assms(3) Suc.prems(1)] .
    moreover have "k = FILTERS - (f + 1)" using Suc.hyps(2) by simp
    ultimately obtain st' where
      "check_run vmes pL totMod cs (in_reload s m pL (f + 1) 0 st1) = Some (after_reload s m pL st')"
      "rcoef st' = fold (load_coef ?v) [f + 1..<FILTERS] (rcoef st1)"
      "rinput st' = fold (load_input ?v) [f + 1..<FILTERS] (rinput st1)"
      "sections_in_range ?v \<longrightarrow> vcrc (localCoeff st') =
         coefCrc ?v [f + 1..<FILTERS] (vcrc (localCoeff st1))"
      using Suc.hyps(1) [of "f + 1" st1 cs] True bs(3) by auto
    then show ?thesis
      using st1(2) True loaded crc unfolding bs(1) fs by (intro exI [of _ st']) (simp add: check_run_append)
  next
    case False
    then have "f = 9" using Suc.prems(1) by simp
    then have "[f + 1..<FILTERS] = []" "cs = []" using bs(3) by (simp_all add: reload_calls_def)
    then show ?thesis
      using st1(2) False loaded crc unfolding bs(1) fs by (intro exI [of _ st1]) simp
  qed
qed

text \<open>The ten loads, filter by filter.\<close>

lemma coeffs_differ_load_coef [simp]:
  "i \<noteq> j \<Longrightarrow> coeffs_differ vme j (load_coef vme i c) = coeffs_differ vme j c"
  by (simp add: coeffs_differ_def load_coef_def)

lemma load_coef_nth:
  "i \<noteq> j \<Longrightarrow> filtSections (load_coef vme i c) ! j = filtSections c ! j"
  "i \<noteq> j \<Longrightarrow> sType (load_coef vme i c) ! j = sType c ! j"
  "i \<noteq> j \<Longrightarrow> filtCoeff (load_coef vme i c) ! j = filtCoeff c ! j"
  "i \<noteq> j \<Longrightarrow> filtHist (load_coef vme i c) ! j = filtHist c ! j"
  by (simp_all add: load_coef_def)

lemma fold_load_coef_other:
  assumes "j \<notin> set fs"
  shows "filtSections (fold (load_coef vme) fs c) ! j = filtSections c ! j"
    "sType (fold (load_coef vme) fs c) ! j = sType c ! j"
    "filtCoeff (fold (load_coef vme) fs c) ! j = filtCoeff c ! j"
    "filtHist (fold (load_coef vme) fs c) ! j = filtHist c ! j"
    "coeffs_differ vme j (fold (load_coef vme) fs c) = coeffs_differ vme j c"
  using assms by (induction fs arbitrary: c) (simp_all add: load_coef_nth)

lemma coef_wf_load_coef: "coef_wf c \<Longrightarrow> vme_wf vme \<Longrightarrow> f < FILTERS \<Longrightarrow> coef_wf (load_coef vme f c)"
  by (auto simp: coef_wf_def vme_wf_def load_coef_def dest!: subsetD [OF set_update_subset_insert])

lemma coef_wf_fold: "coef_wf c \<Longrightarrow> vme_wf vme \<Longrightarrow> set fs \<subseteq> {..<FILTERS} \<Longrightarrow> coef_wf (fold (load_coef vme) fs c)"
  by (induction fs arbitrary: c) (simp_all add: coef_wf_load_coef)

definition filter_loaded :: "VME_FM_OP_COEF \<Rightarrow> nat \<Rightarrow> FM_OP_COEF \<Rightarrow> FM_OP_COEF \<Rightarrow> bool" where
  "filter_loaded vme f c c' \<longleftrightarrow>
     (if filter_ok vme f then
        filtSections c' ! f = vfiltSections vme ! f \<and> sType c' ! f = vsType vme ! f \<and>
        take (coeff_count vme f) (filtCoeff c' ! f) = take (coeff_count vme f) (vfiltCoeff vme ! f) \<and>
        filtHist c' ! f = (if coeffs_differ vme f c then replicate MAX_HISTRY f0 else filtHist c ! f)
      else filtSections c' ! f = 0)"

lemma filter_loaded_fold:
  assumes "coef_wf c" "vme_wf vme" "f < FILTERS"
  shows "filter_loaded vme f c (fold (load_coef vme) [0..<FILTERS] c)"
proof -
  have split: "[0..<FILTERS] = [0..<f] @ f # [f + 1..<FILTERS]"
    using assms(3) upt_add_eq_append [of 0 f "FILTERS - f"] by (simp add: upt_conv_Cons)
  define c1 where "c1 = fold (load_coef vme) [0..<f] c"
  have wf: "coef_wf c1" unfolding c1_def by (rule coef_wf_fold [OF assms(1,2)]) (use assms(3) in auto)
  have c1: "filtHist c1 ! f = filtHist c ! f" "coeffs_differ vme f c1 = coeffs_differ vme f c"
    by (simp_all add: c1_def fold_load_coef_other)
  have c: "fold (load_coef vme) [0..<FILTERS] c = fold (load_coef vme) [f + 1..<FILTERS] (load_coef vme f c1)"
    unfolding split c1_def by simp
  have "coeff_count vme f \<le> length (vfiltCoeff vme ! f)" if "filter_ok vme f"
    using that assms(2,3) by (auto simp: coeff_count_def filter_ok_def vme_wf_def)
  then show ?thesis
    using wf assms(3) c1 unfolding filter_loaded_def c
    by (simp add: fold_load_coef_other) (auto simp: load_coef_def coef_wf_def)
qed

lemma filter_calls_bound: "filter_calls vme f \<le> 12"
  by (auto simp: filter_calls_def filter_ok_def)

section \<open>Properties\<close>

text \<open>A subsystem at rest between reloads, with module \<open>b\<close> present.\<close>

definition fm_idle :: "VME_FM_OP_COEF list \<Rightarrow> nat \<Rightarrow> int \<Rightarrow> fm_sys \<Rightarrow> bool" where
  "fm_idle vmes b totMod s \<longleftrightarrow>
     sys_has vmes b s \<and> b < length (vinputs s) \<and> int b < totMod \<and>
     coef_wf (coeffs s ! b) \<and> in_wf (inputs s ! b) \<and> vme_wf (slocal s) \<and> vme_wf (vmes ! b) \<and>
     coef_range (vmes ! b) \<and> (\<forall>f < FILTERS. vfilterType (vmes ! b) ! f = 0) \<and>
     length (rchanged (resetId s ! 0)) = FILTERS \<and> fmResetCoeff (resetId s ! 0) = 0 \<and>
     fmResetCounter (resetId s ! 0) = 0 \<and> fmSubCounter (resetId s ! 0) = 0"

lemma request_reload:
  assumes "fm_idle vmes b totMod s" "rset (vinputs s ! b) AND 3 = 1"
  shows "checkFiltReset vmes (int b) pL totMod s =
    Some (in_reload (s\<lparr>vinputs := (vinputs s)[b := (vinputs s ! b)\<lparr>rset := 0\<rparr>]\<rparr>) b pL 0 0
      \<lparr>rcoef = coeffs s ! b, rinput = inputs s ! b, localCoeff = slocal s, changed = rchanged (resetId s ! 0)\<rparr>)"
  using assms
  by (cases "resetId s ! 0")
     (auto simp: checkFiltReset_def checkFiltResetId_def fm_idle_def sys_has_def in_reload_def
       with_module_def Let_def)

lemma reload_result:
  assumes "fm_idle vmes b totMod s" "rset (vinputs s ! b) AND 3 = 1"
    and "length bs = reload_calls (vmes ! b) [0..<FILTERS]"
  obtains st' where "check_run vmes pL totMod (int b # bs) s =
      Some (after_reload (s\<lparr>vinputs := (vinputs s)[b := (vinputs s ! b)\<lparr>rset := 0\<rparr>]\<rparr>) b pL st')"
    "rcoef st' = fold (load_coef (vmes ! b)) [0..<FILTERS] (coeffs s ! b)"
    "rinput st' = fold (load_input (vmes ! b)) [0..<FILTERS] (inputs s ! b)"
    "sections_in_range (vmes ! b) \<Longrightarrow> vcrc (localCoeff st') = coefCrc (vmes ! b) [0..<FILTERS] 0"
proof -
  let ?s = "s\<lparr>vinputs := (vinputs s)[b := (vinputs s ! b)\<lparr>rset := 0\<rparr>]\<rparr>"
  let ?st = "\<lparr>rcoef = coeffs s ! b, rinput = inputs s ! b, localCoeff = slocal s,
    changed = rchanged (resetId s ! 0)\<rparr>"
  have "sys_has vmes b ?s" "reload_wf ?st"
    using assms(1) by (auto simp: fm_idle_def sys_has_def reload_wf_def)
  then obtain st' where "check_run vmes pL totMod bs (in_reload ?s b pL 0 0 ?st) = Some (after_reload ?s b pL st')"
    "rcoef st' = fold (load_coef (vmes ! b)) [0..<FILTERS] (coeffs s ! b)"
    "rinput st' = fold (load_input (vmes ! b)) [0..<FILTERS] (inputs s ! b)"
    "sections_in_range (vmes ! b) \<longrightarrow> vcrc (localCoeff st') = coefCrc (vmes ! b) [0..<FILTERS] 0"
    using check_run_module [of vmes b ?s 0 ?st bs pL totMod] assms(1,3) by (auto simp: fm_idle_def)
  with that show thesis using request_reload [OF assms(1,2)] by simp
qed

lemma reload_calls_bound: "reload_calls vme [0..<FILTERS] \<le> 120"
proof -
  have "sum_list (map (filter_calls vme) fs) \<le> 12 * length fs" for fs
  proof (induction fs)
    case (Cons f fs)
    then show ?case using filter_calls_bound [of vme f] by simp
  qed simp
  from this [of "[0..<FILTERS]"] show ?thesis by (simp add: reload_calls_def)
qed

text \<open>C7: A coefficient reload completes and is exact. After the operator's request for module
  \<open>b\<close>, at most 120 further calls of \<open>checkFiltReset\<close>, for whichever banks, end the reload: every
  filter with one to ten sections runs with the published sections, switch type and coefficients,
  its history cleared exactly when a coefficient changed; every other filter
  is off; the request flag is cleared, the load status names the module, and no other module
  is touched.\<close>

theorem reload_completes:
  assumes "fm_idle vmes b totMod s" "rset (vinputs s ! b) AND 3 = 1"
    and "length bs = reload_calls (vmes ! b) [0..<FILTERS]"
  shows "length bs \<le> 120 \<and> (\<exists>s'. check_run vmes pL totMod (int b # bs) s = Some s' \<and>
    (\<forall>f < FILTERS. filter_loaded (vmes ! b) f (coeffs s ! b) (coeffs s' ! b)) \<and>
    (\<forall>j. j \<noteq> b \<longrightarrow> coeffs s' ! j = coeffs s ! j \<and> inputs s' ! j = inputs s ! j) \<and>
    rset (vinputs s' ! b) = 0 \<and> coef_load_error s' = int b + 1 \<and> fmResetCoeff (resetId s' ! 0) = 0)"
proof -
  let ?s = "s\<lparr>vinputs := (vinputs s)[b := (vinputs s ! b)\<lparr>rset := 0\<rparr>]\<rparr>"
  obtain st' where st': "check_run vmes pL totMod (int b # bs) s = Some (after_reload ?s b pL st')"
    "rcoef st' = fold (load_coef (vmes ! b)) [0..<FILTERS] (coeffs s ! b)"
    using reload_result [OF assms] by blast
  have "length bs \<le> 120" using assms(3) reload_calls_bound by simp
  moreover have "filter_loaded (vmes ! b) f (coeffs s ! b) (rcoef st')" if "f < FILTERS" for f
    using filter_loaded_fold st'(2) assms(1) that by (simp add: fm_idle_def)
  ultimately show ?thesis
    using st' assms(1)
    by (intro conjI exI [of _ "after_reload ?s b pL st'"])
       (auto simp: after_reload_def with_module_def fm_idle_def sys_has_def)
qed

text \<open>A module with one filter of one section to be loaded, and nine that are off.\<close>

definition ex_vme :: VME_FM_OP_COEF where
  "ex_vme = \<lparr>vfiltCoeff = replicate 10 (replicate 41 (of_cint 1)),
     vfiltName = replicate 10 [], bankNum = 0,
     vfiltSections = 1 # replicate 9 0, vsType = replicate 10 21, vramp = replicate 10 0,
     vtimout = replicate 10 0, vcrc = 0, vfilterType = replicate 10 0, vbiquad = 0\<rparr>"

definition ex_input :: FM_OP_IN where
  "ex_input = \<lparr>opSwitchE = 0, opSwitchP = 0, rset = 1, offset = f0, outgain = of_cint 1, limiter = f0,
     rmpcmp = replicate 10 0, timeout = replicate 10 0, cnt = replicate 10 0, gain_ramp_time = f0,
     ctl_mask = 0, control = 0, swReq = 0, swMask = 0\<rparr>"

definition ex_coef :: FM_OP_COEF where
  "ex_coef = \<lparr>filtCoeff = replicate 10 (replicate 41 f0), filtHist = replicate 10 (replicate 20 (of_cint 7)),
     filtSections = replicate 10 0, sType = replicate 10 0, decHist = replicate 8 f0,
     filterType = replicate 10 0, biquad = 0\<rparr>"

definition ex_fm_sys :: fm_sys where
  "ex_fm_sys = \<lparr>inputs = [ex_input], fmdata = [], vinputs = [ex_input], coef_load_error = 0,
     coeffs = [ex_coef], offset_ramp = [], gain_ramp = [],
     resetId = [\<lparr>fmResetCoeff = 0, fmResetCounter = 0, fmSubCounter = 0, fmResetDsp = None,
       rchanged = replicate 10 0\<rparr>], slocal = ex_vme\<rparr>"

lemma ex_fm_idle: "fm_idle [publish ex_vme 0 ex_vme] 0 1 ex_fm_sys"
  "rset (vinputs ex_fm_sys ! 0) AND 3 = 1" "vme_wf ex_vme" "sections_in_range ex_vme"
  "length (replicate 21 (-1 :: int)) = reload_calls (publish ex_vme 0 ex_vme) [0..<FILTERS]"
  by code_simp+

theorem reload_completes_witness:
  "\<exists>s'. check_run [publish ex_vme 0 ex_vme] 5 1 (0 # replicate 21 (-1)) ex_fm_sys = Some s' \<and>
     filter_loaded (publish ex_vme 0 ex_vme) 0 ex_coef (coeffs s' ! 0) \<and> coef_load_error s' = 1"
  using reload_completes [of "[publish ex_vme 0 ex_vme]" 0 1 ex_fm_sys "replicate 21 (-1)" 5]
    ex_fm_idle by (auto simp: ex_fm_sys_def)

text \<open>The checksum depends on what is published only.\<close>

lemma coef_crc_bytes_publish:
  assumes "vme_wf fmd" "vme_wf old" "sections_in_range fmd" "j < FILTERS"
  shows "coef_crc_bytes (publish fmd bq old) j = coef_crc_bytes fmd j"
proof -
  have "nat (1 + vfiltSections fmd ! j * 4) \<le> 41" "length (vfiltCoeff fmd ! j) = 41"
    using assms by (auto simp: sections_in_range_def vme_wf_def)
  then show ?thesis
    using assms by (simp add: coef_crc_bytes_def publish_def vme_wf_def Let_def)
qed

lemma coefCrc_publish:
  "vme_wf fmd \<Longrightarrow> vme_wf old \<Longrightarrow> sections_in_range fmd \<Longrightarrow> set js \<subseteq> {..<FILTERS} \<Longrightarrow>
     coefCrc (publish fmd bq old) js crc = coefCrc fmd js crc"
  by (induction js arbitrary: crc) (simp_all add: coef_crc_bytes_publish)

text \<open>C27: The two sides of the coefficient memory agree on the checksum: after a reload of
  coefficients that the EPICS side published, with at most ten sections per filter, the
  checksum the front end accumulated over the cycles is the published one.\<close>

theorem reload_checksum_agrees:
  assumes "fm_idle vmes b totMod s" "rset (vinputs s ! b) AND 3 = 1"
    and "length bs = reload_calls (vmes ! b) [0..<FILTERS]"
    and "vmes ! b = publish fmd bq old" "vme_wf fmd" "vme_wf old" "sections_in_range fmd"
  shows "\<exists>s'. check_run vmes pL totMod (int b # bs) s = Some s' \<and> vcrc (slocal s') = vcrc (vmes ! b)"
proof -
  have "sections_in_range (vmes ! b)" using assms(4,7) by (simp add: sections_in_range_def publish_def)
  note range = this
  have crc: "coefCrc (vmes ! b) [0..<FILTERS] 0 = vcrc (vmes ! b)"
  proof -
    have "coefCrc (publish fmd bq old) [0..<FILTERS] 0 = coefCrc fmd [0..<FILTERS] 0"
      by (rule coefCrc_publish [OF assms(5-7)]) auto
    then show ?thesis unfolding assms(4) by (simp only:) (simp add: publish_def del: upt_conv_Cons)
  qed
  let ?s = "s\<lparr>vinputs := (vinputs s)[b := (vinputs s ! b)\<lparr>rset := 0\<rparr>]\<rparr>"
  obtain st' where "check_run vmes pL totMod (int b # bs) s = Some (after_reload ?s b pL st')"
    "vcrc (localCoeff st') = coefCrc (vmes ! b) [0..<FILTERS] 0"
    using reload_result [OF assms(1-3), of pL thesis] range by blast
  with crc show ?thesis
    by (intro exI [of _ "after_reload ?s b pL st'"]) (simp add: after_reload_def with_module_def)
qed

theorem reload_checksum_agrees_witness:
  "\<exists>s'. check_run [publish ex_vme 0 ex_vme] 5 1 (0 # replicate 21 (-1)) ex_fm_sys = Some s' \<and>
     vcrc (slocal s') = vcrc (publish ex_vme 0 ex_vme)"
  using reload_checksum_agrees [of "[publish ex_vme 0 ex_vme]" 0 1 ex_fm_sys "replicate 21 (-1)"
      ex_vme 0 ex_vme 5] ex_fm_idle by simp

end
