(* ===== verification/FilterSwitch.thy ===== *)
theory FilterSwitch
  imports FilterModule
begin

text \<open>
  How long a filter of a module takes to follow a switching request: the readback bit of a
  filter against its request bit over successive calls of the module, for the kinds of
  switching that take time. A filter that ramps needs exactly its ramp count plus one calls;
  one that waits for a small difference or a zero crossing needs at most its timeout,
  whatever the signals do.
\<close>

unbundle bit_operations_syntax

section \<open>Request and readback\<close>

definition request :: "FM_OP_IN \<Rightarrow> nat \<Rightarrow> bool" where
  "request inp f \<longleftrightarrow> opSwitchE inp AND pow2_in ! f \<noteq> 0"

definition readback :: "FM_OP_IN \<Rightarrow> nat \<Rightarrow> bool" where
  "readback inp f \<longleftrightarrow> opSwitchP inp AND pow2_out ! f \<noteq> 0"

lemma less_10_cases: "f < 10 \<Longrightarrow> f \<in> {0, 1, 2, 3, 4, 5, 6, 7, 8, 9 :: nat}"
  by (auto simp: numeral_eq_Suc less_Suc_eq)

lemma pow2_bits:
  assumes "f < FILTERS"
  shows "pow2_in ! f = push_bit (4 + 2 * f) 1" "pow2_out ! f = push_bit (5 + 2 * f) 1"
  using less_10_cases [OF assms] by (auto simp: pow2_in_def pow2_out_def)

lemma readback_bit: "f < FILTERS \<Longrightarrow> readback inp f \<longleftrightarrow> bit (opSwitchP inp) (5 + 2 * f)"
  unfolding readback_def pow2_bits by (rule and_single_iff) simp

lemma shifted_readback:
  assumes "f < FILTERS"
  shows "drop_bit 1 (opSwitchP inp) AND pow2_in ! f \<noteq> 0 \<longleftrightarrow> readback inp f"
proof -
  have "drop_bit 1 (opSwitchP inp) AND pow2_in ! f \<noteq> 0 \<longleftrightarrow> bit (drop_bit 1 (opSwitchP inp)) (4 + 2 * f)"
    unfolding pow2_bits(1) [OF assms] using assms by (intro and_single_iff) simp
  also have "\<dots> \<longleftrightarrow> bit (opSwitchP inp) (5 + 2 * f)" by (simp add: bit_drop_bit_eq)
  finally show ?thesis using readback_bit [OF assms] by simp
qed

text \<open>The operations on the switch word that leave the readback of filter \<open>f\<close> alone, and those that
  set it.\<close>

lemma readback_other:
  assumes "f < FILTERS" "k \<noteq> 5 + 2 * f"
  shows "readback (inp\<lparr>opSwitchP := w OR push_bit k 1\<rparr>) f = readback (inp\<lparr>opSwitchP := w\<rparr>) f"
    "readback (inp\<lparr>opSwitchP := w AND NOT (push_bit k 1)\<rparr>) f = readback (inp\<lparr>opSwitchP := w\<rparr>) f"
  using assms bit_imp_le_length [of w "5 + 2 * f"]
  by (auto simp: readback_bit bit_or_iff bit_and_iff bit_not_iff bit_single simp del: push_bit_of_1)

lemma readback_set:
  assumes "f < FILTERS"
  shows "readback (inp\<lparr>opSwitchP := w OR pow2_out ! f\<rparr>) f"
    "\<not> readback (inp\<lparr>opSwitchP := w AND NOT (pow2_out ! f)\<rparr>) f"
  using assms
  by (auto simp: readback_bit pow2_bits bit_or_iff bit_and_iff bit_not_iff bit_single simp del: push_bit_of_1)

text \<open>The two ramping flags, with their complements as the simplifier writes them.\<close>

lemma ramping_bits:
  "(0x20000000 :: u32) = push_bit 29 1" "(0x10000000 :: u32) = push_bit 28 1"
  "(- 536870913 :: u32) = NOT (push_bit 29 1)" "(- 268435457 :: u32) = NOT (push_bit 28 1)"
  by simp_all

lemma readback_ramping:
  assumes "f < FILTERS"
  shows "readback (inp\<lparr>opSwitchP := w OR 0x20000000\<rparr>) f = readback (inp\<lparr>opSwitchP := w\<rparr>) f"
    "readback (inp\<lparr>opSwitchP := w AND - 536870913\<rparr>) f = readback (inp\<lparr>opSwitchP := w\<rparr>) f"
    "readback (inp\<lparr>opSwitchP := w OR 0x10000000\<rparr>) f = readback (inp\<lparr>opSwitchP := w\<rparr>) f"
    "readback (inp\<lparr>opSwitchP := w AND - 268435457\<rparr>) f = readback (inp\<lparr>opSwitchP := w\<rparr>) f"
proof -
  have ne: "29 \<noteq> 5 + 2 * f" "28 \<noteq> 5 + 2 * f" using assms by presburger+
  show "readback (inp\<lparr>opSwitchP := w OR 0x20000000\<rparr>) f = readback (inp\<lparr>opSwitchP := w\<rparr>) f"
    "readback (inp\<lparr>opSwitchP := w AND - 536870913\<rparr>) f = readback (inp\<lparr>opSwitchP := w\<rparr>) f"
    "readback (inp\<lparr>opSwitchP := w OR 0x10000000\<rparr>) f = readback (inp\<lparr>opSwitchP := w\<rparr>) f"
    "readback (inp\<lparr>opSwitchP := w AND - 268435457\<rparr>) f = readback (inp\<lparr>opSwitchP := w\<rparr>) f"
    unfolding ramping_bits using readback_other [OF assms ne(1)] readback_other [OF assms ne(2)] by (simp_all only:)
qed

lemma readback_offset:
  "f < FILTERS \<Longrightarrow> fm_offset_ramp rate (inp, r) = (inp', r') \<Longrightarrow> readback inp' f = readback inp f"
  by (auto simp: fm_offset_ramp_def Let_def readback_ramping split: if_splits)

lemma readback_input:
  "f < FILTERS \<Longrightarrow> fm_input rate x (inp, dat, r) = ((inp', dat', r'), y) \<Longrightarrow> readback inp' f = readback inp f"
  by (auto simp: fm_input_def Let_def split: prod.splits dest: readback_offset)

lemma readback_gain:
  "f < FILTERS \<Longrightarrow> fm_gain rate x (inp, r) = ((inp', r'), y) \<Longrightarrow> readback inp' f = readback inp f"
  by (auto simp: fm_gain_def Let_def readback_ramping split: if_splits prod.splits)

section \<open>One call\<close>

lemma switch_request_out:
  "switch_request inp f st sw so x d = (v, so', k') \<Longrightarrow> so' = sw \<or> so' = so"
  by (auto simp: switch_request_def switch_ramp_def switch_compare_def switch_now_def Let_def
      split: if_splits)

lemma filter_apply_step:
  assumes "filter_apply sw so f inp c x d = (inp', c', y)" "f < FILTERS" "f < length (cnt inp)"
    and "so = readback inp f"
  shows "if sw = so then cnt inp' ! f = cnt inp ! f \<and> readback inp' f = so
     else \<exists>v. switch_request inp f (sType c ! f) sw so x d = (v, readback inp' f, cnt inp' ! f)"
proof (cases "sw = so")
  case True
  then show ?thesis using assms by (auto simp: filter_apply_def)
next
  case False
  obtain v so' k' where req: "switch_request inp f (sType c ! f) sw so x d = (v, so', k')"
    by (metis prod.exhaust)
  have "readback (inp\<lparr>cnt := cs, opSwitchP := w OR pow2_out ! f\<rparr>) f"
    "\<not> readback (inp\<lparr>cnt := cs, opSwitchP := w AND NOT (pow2_out ! f)\<rparr>) f"
    "readback (inp\<lparr>cnt := cs\<rparr>) f = readback inp f" for cs w
    using readback_set [OF assms(2), where inp = "inp\<lparr>cnt := cs\<rparr>" and w = w] by (simp_all add: readback_def)
  then show ?thesis
    using assms False req switch_request_out [OF req]
    by (auto simp: filter_apply_def Let_def split: if_splits)
qed

lemma filter_apply_other:
  assumes "filter_apply sw so g inp c x d = (inp', c', y)" "f < FILTERS" "g < FILTERS" "f \<noteq> g"
  shows "cnt inp' ! f = cnt inp ! f \<and> readback inp' f = readback inp f"
proof -
  have "5 + 2 * g \<noteq> 5 + 2 * f" using assms(4) by simp
  note other = readback_other [OF assms(2) this, folded pow2_bits(2) [OF assms(3)]]
  have "readback (inp\<lparr>cnt := cs\<rparr>) f = readback inp f" for cs by (simp add: readback_def)
  with assms(1,4) other [where inp = "inp\<lparr>cnt := cs\<rparr>" for cs] show ?thesis
    by (auto simp: filter_apply_def Let_def split: if_splits prod.splits)
qed

lemma fm_filter_other:
  assumes "fm_filter opE opP g (inp, c, x) = Some (inp', c', y)" "f < FILTERS" "g < FILTERS" "f \<noteq> g"
  shows "cnt inp' ! f = cnt inp ! f \<and> readback inp' f = readback inp f"
  using assms filter_apply_other [OF _ assms(2-4)]
  by (auto simp: fm_filter_def Let_def split: if_splits)

lemma fm_filters_other:
  assumes "fm_filters opE opP gs (inp, c, x) = Some (inp', c', y)" "f < FILTERS" "f \<notin> set gs"
    "set gs \<subseteq> {..<FILTERS}"
  shows "cnt inp' ! f = cnt inp ! f \<and> readback inp' f = readback inp f"
  using assms
proof (induction gs arbitrary: inp c x)
  case Nil
  then show ?case by simp
next
  case (Cons g gs)
  then obtain i1 c1 x1 where "fm_filter opE opP g (inp, c, x) = Some (i1, c1, x1)"
    "fm_filters opE opP gs (i1, c1, x1) = Some (inp', c', y)"
    by (auto simp: bind_eq_Some_conv)
  with Cons fm_filter_other [of opE opP g inp c x i1 c1 x1 f] show ?case by auto
qed

lemma fm_filters_append:
  "fm_filters opE opP (gs @ hs) m = Option.bind (fm_filters opE opP gs m) (fm_filters opE opP hs)"
proof (induction gs arbitrary: m)
  case Nil
  then show ?case by simp
next
  case (Cons g gs)
  then show ?case by (cases "fm_filter opE opP g m") simp_all
qed

lemma fm_filters_at:
  assumes "fm_filters opE opP [0..<FILTERS] (inp, c, x) = Some (inp', c', y)" "f < FILTERS"
    and "filtSections c ! f \<noteq> 0" "f < length (cnt inp)"
    and "sw = (opE AND pow2_in ! f \<noteq> 0)" "so = (opP AND pow2_in ! f \<noteq> 0)" "so = readback inp f"
  shows "if sw = so then cnt inp' ! f = cnt inp ! f \<and> readback inp' f = so
     else \<exists>i1 x1 d v. cnt i1 ! f = cnt inp ! f \<and> rmpcmp i1 = rmpcmp inp \<and> timeout i1 = timeout inp \<and>
       switch_request i1 f (sType c ! f) sw so x1 d = (v, readback inp' f, cnt inp' ! f)"
proof -
  have split: "[0..<FILTERS] = [0..<f] @ f # [f + 1..<FILTERS]"
    using assms(2) upt_add_eq_append [of 0 f "FILTERS - f"] by (simp add: upt_conv_Cons)
  obtain i1 c1 x1 i2 c2 x2 where st: "fm_filters opE opP [0..<f] (inp, c, x) = Some (i1, c1, x1)"
    "fm_filter opE opP f (i1, c1, x1) = Some (i2, c2, x2)"
    "fm_filters opE opP [f + 1..<FILTERS] (i2, c2, x2) = Some (inp', c', y)"
    using assms(1) unfolding split fm_filters_append by (auto simp: bind_eq_Some_conv)
  have o1: "cnt i1 ! f = cnt inp ! f \<and> readback i1 f = readback inp f"
    by (rule fm_filters_other [OF st(1) assms(2)]) (use assms(2) in auto)
  have o2: "cnt inp' ! f = cnt i2 ! f \<and> readback inp' f = readback i2 f"
    by (rule fm_filters_other [OF st(3) assms(2)]) auto
  note fr = fm_filters_frame [OF st(1)]
  have "filtSections c1 ! f \<noteq> 0" using fr assms(3) by simp
  then obtain d h where "filter_apply sw so f i1 (c1\<lparr>filtHist := h\<rparr>) x1 d = (i2, c2, x2)"
    using st(2) assms(5,6) by (auto simp: fm_filter_def)
  have ap: "sType (c1\<lparr>filtHist := h\<rparr>) = sType c" "f < length (cnt i1)" "so = readback i1 f"
    using fr assms(4,7) o1 by simp_all
  from filter_apply_step [OF \<open>filter_apply sw so f i1 _ x1 d = _\<close> assms(2) ap(2,3), unfolded ap(1)]
  show ?thesis using o1 o2 fr by (auto split: if_splits)
qed

text \<open>A call of the module from the operator's own switches: the request, the parameters of the
  switching and the loaded filters stay, and the filter takes its step.\<close>

definition switch_frame :: "fm_unit \<Rightarrow> fm_unit \<Rightarrow> bool" where
  "switch_frame u u' \<longleftrightarrow> opSwitchE (uin u') = opSwitchE (uin u) \<and> rmpcmp (uin u') = rmpcmp (uin u) \<and>
     timeout (uin u') = timeout (uin u) \<and> length (cnt (uin u')) = length (cnt (uin u)) \<and>
     filtSections (ucoef u') = filtSections (ucoef u) \<and> sType (ucoef u') = sType (ucoef u)"

lemma fm_output_coef:
  "fm_output rate opE v (dat, c) = Some ((dat', c'), out) \<Longrightarrow>
     filtSections c' = filtSections c \<and> sType c' = sType c"
  by (auto simp: fm_output_def Let_def split: if_splits option.splits)

lemma fm_unit_step_switch:
  assumes "fm_unit_step rate x ctl 0 o_in g_in r_in u = Some (u', out)" "f < FILTERS"
    and "filtSections (ucoef u) ! f \<noteq> 0" "f < length (cnt (uin u))"
  shows "switch_frame u u'"
    and "if request (uin u) f = readback (uin u) f
     then cnt (uin u') ! f = cnt (uin u) ! f \<and> readback (uin u') f = readback (uin u) f
     else \<exists>i1 x1 d v. cnt i1 ! f = cnt (uin u) ! f \<and> rmpcmp i1 = rmpcmp (uin u) \<and> timeout i1 = timeout (uin u) \<and>
       switch_request i1 f (sType (ucoef u) ! f) (request (uin u) f) (readback (uin u) f) x1 d =
         (v, readback (uin u') f, cnt (uin u') ! f)"
proof -
  let ?i0 = "fm_control ctl 0 o_in g_in r_in (uin u)"
  have i0: "opSwitchE ?i0 = opSwitchE (uin u)" "rmpcmp ?i0 = rmpcmp (uin u)" "timeout ?i0 = timeout (uin u)"
    "cnt ?i0 = cnt (uin u)" "readback ?i0 f = readback (uin u) f"
    by (simp_all add: fm_control_def readback_def)
  obtain inp1 dat1 or1 x1 inp2 c2 x2 inp3 gr3 x3 dat4 c4 where st:
    "fm_input rate x (?i0, udata u, uoffset u) = ((inp1, dat1, or1), x1)"
    "fm_filters (opSwitchE ?i0) (drop_bit 1 (opSwitchP (uin u))) [0..<FILTERS] (inp1, ucoef u, x1) = Some (inp2, c2, x2)"
    "fm_gain rate x2 (inp2, ugain u) = ((inp3, gr3), x3)"
    "\<exists>v dat. fm_output rate (opSwitchE ?i0) v (dat, c2) = Some ((dat4, c4), out)"
    "u' = \<lparr>uin = inp3, udata = dat4, ucoef = c4, uoffset = or1, ugain = gr3\<rparr>"
    using fm_unit_stepE [OF assms(1)] by metis
  note fr = fm_input_frame [OF st(1)] fm_filters_frame [OF st(2)] fm_gain_frame [OF st(3)]
  have c4: "filtSections c4 = filtSections c2 \<and> sType c4 = sType c2" using st(4) fm_output_coef by blast
  have rb: "readback inp1 f = readback (uin u) f" "readback inp3 f = readback inp2 f"
    using readback_input [OF assms(2) st(1)] readback_gain [OF assms(2) st(3)] i0 by simp_all
  show "switch_frame u u'" using fr i0 c4 st(5) by (simp add: switch_frame_def)
  have "request (uin u) f = (opSwitchE ?i0 AND pow2_in ! f \<noteq> 0)"
    "readback (uin u) f = (drop_bit 1 (opSwitchP (uin u)) AND pow2_in ! f \<noteq> 0)"
    using i0(1) shifted_readback [OF assms(2)] by (simp_all add: request_def)
  from fm_filters_at [OF st(2) assms(2,3) _ this rb(1) [symmetric]] assms(4)
  show "if request (uin u) f = readback (uin u) f
     then cnt (uin u') ! f = cnt (uin u) ! f \<and> readback (uin u') f = readback (uin u) f
     else \<exists>i1 x1 d v. cnt i1 ! f = cnt (uin u) ! f \<and> rmpcmp i1 = rmpcmp (uin u) \<and> timeout i1 = timeout (uin u) \<and>
       switch_request i1 f (sType (ucoef u) ! f) (request (uin u) f) (readback (uin u) f) x1 d =
         (v, readback (uin u') f, cnt (uin u') ! f)"
    using fr i0 st(5) rb by (auto split: if_splits)
qed

section \<open>Successive calls\<close>

fun module_calls :: "int \<Rightarrow> nat \<Rightarrow> fp list \<Rightarrow> fm_sys \<Rightarrow> fm_sys option" where
  "module_calls rate m [] s = Some s"
| "module_calls rate m (x # xs) s =
     Option.bind (filterModuleD rate m x 0 0 s) (\<lambda>(s', out). module_calls rate m xs s')"

definition filter_ready :: "nat \<Rightarrow> nat \<Rightarrow> nat \<Rightarrow> fm_sys \<Rightarrow> bool" where
  "filter_ready n m f s \<longleftrightarrow> fe_inv n s \<and> m < n \<and> f < FILTERS \<and> filtSections (coeffs s ! m) ! f \<noteq> 0 \<and>
     length (cnt (inputs s ! m)) = FILTERS"

lemma unit_of_sel [simp]: "uin (unit_of s m) = inputs s ! m" "ucoef (unit_of s m) = coeffs s ! m"
  by (simp_all add: unit_of_def)

lemma module_call:
  assumes "filter_ready n m f s"
  obtains s' out where "filterModuleD rate m x 0 0 s = Some (s', out)" "filter_ready n m f s'"
    "switch_frame (unit_of s m) (unit_of s' m)"
    "if request (inputs s ! m) f = readback (inputs s ! m) f
     then cnt (inputs s' ! m) ! f = cnt (inputs s ! m) ! f \<and> readback (inputs s' ! m) f = readback (inputs s ! m) f
     else \<exists>i1 x1 d v. cnt i1 ! f = cnt (inputs s ! m) ! f \<and> rmpcmp i1 = rmpcmp (inputs s ! m) \<and>
       timeout i1 = timeout (inputs s ! m) \<and>
       switch_request i1 f (sType (coeffs s ! m) ! f) (request (inputs s ! m) f) (readback (inputs s ! m) f) x1 d =
         (v, readback (inputs s' ! m) f, cnt (inputs s' ! m) ! f)"
proof -
  have pre: "fe_inv n s" "m < n" "f < FILTERS" "filtSections (ucoef (unit_of s m)) ! f \<noteq> 0"
    "f < length (cnt (uin (unit_of s m)))"
    using assms by (simp_all add: filter_ready_def)
  obtain s' out where run: "filterModuleD2 rate m x 0 0 f0 f0 f0 s = Some (s', out)" "fe_inv n s'"
    using fe_inv_filter [OF pre(1,2)] by blast
  obtain u where "fm_unit_step rate x 0 0 f0 f0 f0 (unit_of s m) = Some (u, out)" "unit_of s' m = u"
    using filterModuleD2_Some [OF run(1)] .
  note st = fm_unit_step_switch [OF this(1) pre(3-5), folded this(2), unfolded unit_of_sel]
  have "filter_ready n m f s'" using assms run(2) st(1) by (simp add: filter_ready_def switch_frame_def)
  with that run(1) st show ?thesis by (simp add: filterModuleD_def)
qed

text \<open>A filter that already follows its request stays so.\<close>

lemma settled_calls:
  assumes "filter_ready n m f s" "request (inputs s ! m) f = readback (inputs s ! m) f"
  shows "\<exists>s'. module_calls rate m xs s = Some s' \<and> readback (inputs s' ! m) f = request (inputs s ! m) f"
  using assms
proof (induction xs arbitrary: s)
  case Nil
  then show ?case by simp
next
  case (Cons x xs)
  obtain s1 out where call: "filterModuleD rate m x 0 0 s = Some (s1, out)" "filter_ready n m f s1"
    "switch_frame (unit_of s m) (unit_of s1 m)" "readback (inputs s1 ! m) f = readback (inputs s ! m) f"
    by (rule module_call [OF Cons.prems(1), of rate x]) (use Cons.prems(2) in auto)
  have "request (inputs s1 ! m) f = request (inputs s ! m) f" using call(3) by (simp add: switch_frame_def request_def)
  with Cons.IH [OF call(2)] Cons.prems(2) call show ?case by simp
qed

text \<open>The shape of every bound below: while the request and the readback disagree, a call either
  settles the filter or moves its count on by one within some bound.\<close>

definition switching :: "int \<Rightarrow> nat \<Rightarrow> nat \<Rightarrow> fm_sys \<Rightarrow> bool" where
  "switching kind m f s \<longleftrightarrow> sType (coeffs s ! m) ! f smod 10 = kind \<and>
     readback (inputs s ! m) f = (\<not> request (inputs s ! m) f)"

lemma switching_call:
  assumes "filter_ready n m f s" "switching kind m f s"
  obtains s' out i1 x1 d v where "filterModuleD rate m x 0 0 s = Some (s', out)" "filter_ready n m f s'"
    "request (inputs s' ! m) f = request (inputs s ! m) f"
    "rmpcmp (inputs s' ! m) = rmpcmp (inputs s ! m)" "timeout (inputs s' ! m) = timeout (inputs s ! m)"
    "readback (inputs s' ! m) f = request (inputs s ! m) f \<or> switching kind m f s'"
    "cnt i1 ! f = cnt (inputs s ! m) ! f" "rmpcmp i1 = rmpcmp (inputs s ! m)" "timeout i1 = timeout (inputs s ! m)"
    "switch_request i1 f (sType (coeffs s ! m) ! f) (request (inputs s ! m) f) (readback (inputs s ! m) f) x1 d =
         (v, readback (inputs s' ! m) f, cnt (inputs s' ! m) ! f)"
proof (rule module_call [OF assms(1), of rate x])
  fix s' out
  assume call: "filterModuleD rate m x 0 0 s = Some (s', out)" "filter_ready n m f s'"
    "switch_frame (unit_of s m) (unit_of s' m)" and
    step: "if request (inputs s ! m) f = readback (inputs s ! m) f
     then cnt (inputs s' ! m) ! f = cnt (inputs s ! m) ! f \<and> readback (inputs s' ! m) f = readback (inputs s ! m) f
     else \<exists>i1 x1 d v. cnt i1 ! f = cnt (inputs s ! m) ! f \<and> rmpcmp i1 = rmpcmp (inputs s ! m) \<and>
       timeout i1 = timeout (inputs s ! m) \<and>
       switch_request i1 f (sType (coeffs s ! m) ! f) (request (inputs s ! m) f) (readback (inputs s ! m) f) x1 d =
         (v, readback (inputs s' ! m) f, cnt (inputs s' ! m) ! f)"
  have fr: "request (inputs s' ! m) f = request (inputs s ! m) f" "rmpcmp (inputs s' ! m) = rmpcmp (inputs s ! m)"
    "timeout (inputs s' ! m) = timeout (inputs s ! m)" "sType (coeffs s' ! m) = sType (coeffs s ! m)"
    using call(3) by (simp_all add: switch_frame_def request_def)
  with assms(2) have "readback (inputs s' ! m) f = request (inputs s ! m) f \<or> switching kind m f s'"
    by (auto simp: switching_def)
  moreover have "request (inputs s ! m) f \<noteq> readback (inputs s ! m) f"
    using assms(2) by (simp add: switching_def)
  ultimately show thesis using that call fr step by (simp only: if_False) blast
qed

lemma ramp_calls:
  assumes "filter_ready n m f s" "switching 2 m f s"
    and "0 \<le> cnt (inputs s ! m) ! f" "cnt (inputs s ! m) ! f \<le> rmpcmp (inputs s ! m) ! f"
  shows "\<exists>s'. module_calls rate m xs s = Some s' \<and>
    (if cnt (inputs s ! m) ! f + int (length xs) \<le> rmpcmp (inputs s ! m) ! f
     then readback (inputs s' ! m) f = (\<not> request (inputs s ! m) f) \<and>
       cnt (inputs s' ! m) ! f = cnt (inputs s ! m) ! f + int (length xs)
     else readback (inputs s' ! m) f = request (inputs s ! m) f)"
  using assms
proof (induction xs arbitrary: s)
  case Nil
  then show ?case by (simp add: switching_def)
next
  case (Cons x xs)
  obtain s1 out i1 x1 d v where call: "filterModuleD rate m x 0 0 s = Some (s1, out)" "filter_ready n m f s1"
    "request (inputs s1 ! m) f = request (inputs s ! m) f"
    "rmpcmp (inputs s1 ! m) = rmpcmp (inputs s ! m)" "timeout (inputs s1 ! m) = timeout (inputs s ! m)"
    "readback (inputs s1 ! m) f = request (inputs s ! m) f \<or> switching 2 m f s1"
    "cnt i1 ! f = cnt (inputs s ! m) ! f" "rmpcmp i1 = rmpcmp (inputs s ! m)" "timeout i1 = timeout (inputs s ! m)"
    "switch_request i1 f (sType (coeffs s ! m) ! f) (request (inputs s ! m) f) (readback (inputs s ! m) f) x1 d =
         (v, readback (inputs s1 ! m) f, cnt (inputs s1 ! m) ! f)"
    by (rule switching_call [OF Cons.prems(1,2), of rate x])
  have ramp: "switch_ramp (rmpcmp (inputs s ! m) ! f) (cnt (inputs s ! m) ! f) (request (inputs s ! m) f)
      (\<not> request (inputs s ! m) f) x1 d = (v, readback (inputs s1 ! m) f, cnt (inputs s1 ! m) ! f)"
    using call(7,8,10) Cons.prems(2) by (simp add: switch_request_def switching_def)
  show ?case
  proof (cases "cnt (inputs s ! m) ! f = rmpcmp (inputs s ! m) ! f")
    case True
    with ramp have "readback (inputs s1 ! m) f = request (inputs s1 ! m) f"
      using call(3) by (simp add: switch_ramp_def switch_now_def)
    with settled_calls [OF call(2)] call(1,3) True show ?thesis by simp
  next
    case False
    with ramp have "readback (inputs s1 ! m) f \<noteq> request (inputs s ! m) f"
      "cnt (inputs s1 ! m) ! f = cnt (inputs s ! m) ! f + 1"
      by (simp_all add: switch_ramp_def)
    with Cons.IH [OF call(2)] call(1,3,4,6) Cons.prems(3,4) False show ?thesis
      by (auto simp: add.assoc split: if_splits)
  qed
qed

lemma compare_calls:
  assumes "filter_ready n m f s" "switching kind m f s" "kind = 3 \<or> kind = 4"
    and "timeout (inputs s ! m) ! f \<le> cnt (inputs s ! m) ! f + int (length xs)" "xs \<noteq> []"
  shows "\<exists>s'. module_calls rate m xs s = Some s' \<and> readback (inputs s' ! m) f = request (inputs s ! m) f"
  using assms
proof (induction xs arbitrary: s)
  case Nil
  then show ?case by simp
next
  case (Cons x xs)
  obtain s1 out i1 x1 d v where call: "filterModuleD rate m x 0 0 s = Some (s1, out)" "filter_ready n m f s1"
    "request (inputs s1 ! m) f = request (inputs s ! m) f"
    "rmpcmp (inputs s1 ! m) = rmpcmp (inputs s ! m)" "timeout (inputs s1 ! m) = timeout (inputs s ! m)"
    "readback (inputs s1 ! m) f = request (inputs s ! m) f \<or> switching kind m f s1"
    "cnt i1 ! f = cnt (inputs s ! m) ! f" "rmpcmp i1 = rmpcmp (inputs s ! m)" "timeout i1 = timeout (inputs s ! m)"
    "switch_request i1 f (sType (coeffs s ! m) ! f) (request (inputs s ! m) f) (readback (inputs s ! m) f) x1 d =
         (v, readback (inputs s1 ! m) f, cnt (inputs s1 ! m) ! f)"
    by (rule switching_call [OF Cons.prems(1,2), of rate x])
  show ?case
  proof (cases "readback (inputs s1 ! m) f = request (inputs s ! m) f")
    case True
    with settled_calls [OF call(2)] call(1,3) show ?thesis by simp
  next
    case False
    have cmp: "switch_compare kind (rmpcmp (inputs s ! m) ! f) (timeout (inputs s ! m) ! f) (cnt (inputs s ! m) ! f)
        (request (inputs s ! m) f) (\<not> request (inputs s ! m) f) x1 d = (v, readback (inputs s1 ! m) f, cnt (inputs s1 ! m) ! f)"
      using call(7-10) Cons.prems(2,3) by (auto simp: switch_request_def switching_def Let_def)
    with False have "cnt (inputs s1 ! m) ! f = cnt (inputs s ! m) ! f + 1"
      "cnt (inputs s ! m) ! f + 1 < timeout (inputs s ! m) ! f"
      by (auto simp: switch_compare_def switch_now_def Let_def split: if_splits)
    with Cons.IH [OF call(2) _ Cons.prems(3)] call(1,3,5,6) Cons.prems(4) False show ?thesis
      by (cases xs) auto
  qed
qed

text \<open>C19: A ramped switch takes exactly its ramp count plus one calls. When a loaded filter with
  switch type 2 (ramp) has just been asked to switch on or off (its count is 0), then after any sequence
  of calls of the module, whatever their input signals, the calls have all returned, and the
  readback still shows the old state with the count at the number of calls while that is at most the
  ramp count, and shows the requested state from the next call on.\<close>

theorem ramp_switch_time:
  assumes "filter_ready n m f s" "switching 2 m f s"
    and "cnt (inputs s ! m) ! f = 0" "rmpcmp (inputs s ! m) ! f = int R"
  shows "\<exists>s'. module_calls rate m xs s = Some s' \<and>
    (if length xs \<le> R
     then readback (inputs s' ! m) f = (\<not> request (inputs s ! m) f) \<and> cnt (inputs s' ! m) ! f = int (length xs)
     else readback (inputs s' ! m) f = request (inputs s ! m) f)"
  using ramp_calls [OF assms(1,2), where xs = xs and rate = rate] assms(3,4)
  by (auto split: if_splits)

text \<open>C29: A switch that waits for its input to match its output (switch type 3) or to cross zero
  (switch type 4) cannot wait for ever: once as many calls of the module have been made
  as its timeout, and at least one, the readback shows the requested state, whatever the
  input signals are.\<close>

theorem compare_switch_times_out:
  assumes "filter_ready n m f s" "switching kind m f s" "kind = 3 \<or> kind = 4"
    and "0 \<le> cnt (inputs s ! m) ! f" "timeout (inputs s ! m) ! f \<le> int (length xs)" "xs \<noteq> []"
  shows "\<exists>s'. module_calls rate m xs s = Some s' \<and> readback (inputs s' ! m) f = request (inputs s ! m) f"
  using compare_calls [OF assms(1-3) _ assms(6)] assms(4,5) by simp

text \<open>A module whose first filter has one section and is asked on, by a ramp of two counts or by
  matching with a timeout of three.\<close>

definition ex_switch :: "int \<Rightarrow> fm_sys" where
  "ex_switch kind = ex_module\<lparr>inputs := [ex_input\<lparr>opSwitchE := 0x5000014, rmpcmp := 2 # replicate 9 0,
       timeout := 3 # replicate 9 0\<rparr>],
     coeffs := [ex_coef\<lparr>filtSections := 1 # replicate 9 0, sType := kind # replicate 9 0\<rparr>]\<rparr>"

lemma ex_switch_ready:
  "filter_ready 1 0 0 (ex_switch 12) \<and> switching 2 0 0 (ex_switch 12)"
  "filter_ready 1 0 0 (ex_switch 13) \<and> switching 3 0 0 (ex_switch 13)"
  by code_simp+

lemma ex_switch_inputs:
  "request (inputs (ex_switch k) ! 0) 0" "cnt (inputs (ex_switch k) ! 0) ! 0 = 0"
  "rmpcmp (inputs (ex_switch k) ! 0) ! 0 = int 2" "timeout (inputs (ex_switch k) ! 0) ! 0 = 3"
  by (simp_all add: ex_switch_def request_def pow2_in_def ex_input_def)

theorem ramp_switch_time_witness:
  "\<exists>s'. module_calls 16384 0 (replicate 3 (of_cint 2)) (ex_switch 12) = Some s' \<and> readback (inputs s' ! 0) 0"
  using ramp_switch_time [of 1 0 0 "ex_switch 12" 2 16384 "replicate 3 (of_cint 2)"] ex_switch_ready(1)
    ex_switch_inputs [of 12] by simp

theorem compare_switch_times_out_witness:
  "\<exists>s'. module_calls 16384 0 (replicate 3 (of_cint 2)) (ex_switch 13) = Some s' \<and> readback (inputs s' ! 0) 0"
  using compare_switch_times_out [of 1 0 0 "ex_switch 13" 3 "replicate 3 (of_cint 2)" 16384] ex_switch_ready(2)
    ex_switch_inputs [of 13] by simp

end
