(* ===== verification/EpicsXfer.thy ===== *)
theory EpicsXfer
  imports FilterModule
begin

text \<open>
  The exchange of a model's filter module data with the EPICS shared memory
  (\<open>src/include/drv/epicsXfer.c\<close>): the readbacks a cycle copies out, the setpoints it takes
  in, the stop command, and the gain ramp of the product part. The setpoints are joined with
  the filter modules: the limit an operator sets bounds what the module puts out.
\<close>

unbundle bit_operations_syntax

section \<open>The exchange\<close>

text \<open>The front end (which has the operator's side of the inputs as \<open>vinputs\<close>) and the module data
  in shared memory.\<close>

record fe_epics =
  fe :: fm_sys
  vdata :: "FM_OP_DATA list"

definition copy_data :: "FM_OP_DATA \<Rightarrow> FM_OP_DATA \<Rightarrow> FM_OP_DATA" where
  "copy_data d v = v\<lparr>filterInput := filterInput d, exciteInput := exciteInput d, output16Hz := output16Hz d,
     fmOutput := fmOutput d, testpoint := testpoint d, swStatus := swStatus d\<rparr>"

definition copy_switches :: "FM_OP_IN \<Rightarrow> FM_OP_IN \<Rightarrow> FM_OP_IN" where
  "copy_switches d v = v\<lparr>opSwitchP := opSwitchP d, ctl_mask := ctl_mask d, control := control d\<rparr>"

definition updateEpics ::
  "VME_FM_OP_COEF list \<Rightarrow> nat \<Rightarrow> nat \<Rightarrow> int \<Rightarrow> fe_epics \<Rightarrow> fe_epics option" where
  "updateEpics vmes pL MAX_MODULES subcycle e =
     (if subcycle \<ge> 0 \<and> subcycle < int MAX_MODULES then
        case checkFiltReset vmes subcycle pL (int MAX_MODULES) (fe e) of
          None \<Rightarrow> None
        | Some s \<Rightarrow>
            let ii = nat subcycle
            in if ii < length (inputs s) \<and> ii < length (fmdata s) \<and> ii < length (vinputs s) \<and> ii < length (vdata e)
               then Some \<lparr>fe = s\<lparr>vinputs := (vinputs s)[ii := copy_switches (inputs s ! ii) (vinputs s ! ii)]\<rparr>,
                 vdata = (vdata e)[ii := copy_data (fmdata s ! ii) (vdata e ! ii)]\<rparr>
               else None
      else Some e)"

text \<open>One module of the setpoint transfer: the local input and the operator's.\<close>

definition sync_setpoints :: "FM_OP_IN \<Rightarrow> FM_OP_IN \<Rightarrow> FM_OP_IN \<times> FM_OP_IN" where
  "sync_setpoints d v =
     (let d = d\<lparr>opSwitchE := opSwitchE v\<rparr>;
          d = d\<lparr>limiter := limiter v\<rparr>;
          (d, v) = (if ctl_mask d AND 0x20000000 \<noteq> 0 then (d, v\<lparr>offset := offset d\<rparr>)
                    else (d\<lparr>offset := offset v\<rparr>, v));
          (d, v) = (if ctl_mask d AND 0x40000000 \<noteq> 0 then (d, v\<lparr>outgain := outgain d\<rparr>)
                    else (d\<lparr>outgain := outgain v\<rparr>, v))
      in if ctl_mask d AND 0x80000000 \<noteq> 0 then (d, v\<lparr>gain_ramp_time := gain_ramp_time d\<rparr>)
         else (d\<lparr>gain_ramp_time := gain_ramp_time v\<rparr>, v))"

definition setpoint_pass :: "nat \<Rightarrow> fm_sys \<Rightarrow> fm_sys" where
  "setpoint_pass ii s =
     (let (d, v) = sync_setpoints (inputs s ! ii) (vinputs s ! ii)
      in s\<lparr>inputs := (inputs s)[ii := d], vinputs := (vinputs s)[ii := v]\<rparr>)"

definition updateFmSetpoints :: "nat \<Rightarrow> fm_sys \<Rightarrow> fm_sys option" where
  "updateFmSetpoints MAX_MODULES s =
     (if MAX_MODULES \<le> length (inputs s) \<and> MAX_MODULES \<le> length (vinputs s)
      then Some (fold setpoint_pass [0..<MAX_MODULES] s) else None)"

definition checkEpicsReset :: "nat \<Rightarrow> int \<Rightarrow> int \<Rightarrow> int" where
  "checkEpicsReset MAX_MODULES subcycle vmeReset =
     (if subcycle = int MAX_MODULES \<and> vmeReset \<noteq> 0 then 1 else 0)"

section \<open>The gain ramp\<close>

text \<open>The entries of the static arrays for one ramp. The product of ramp time and rate is an \<open>int\<close>
  whose overflow is undefined; every single precision operation is a double precision one
  rounded once more.\<close>

record gain_ramp_state =
  gdir :: int
  ginc :: fp
  gainFinal :: fp
  gainOut :: fp

definition gainRamp_request :: "fp \<Rightarrow> int \<Rightarrow> int \<Rightarrow> gain_ramp_state \<Rightarrow> gain_ramp_state" where
  "gainRamp_request gainReq rampTime gainRate g =
     (let inc = to_float (of_cint (rampTime * gainRate));
          inc = to_float (fdiv (to_float (fsub gainReq (gainOut g))) inc)
      in g\<lparr>ginc := inc, gdir := (if fle inc f0 then 0 else 1), gainFinal := gainReq\<rparr>)"

definition gainRamp_advance :: "gain_ramp_state \<Rightarrow> gain_ramp_state" where
  "gainRamp_advance g =
     (let v = to_float (fadd (gainOut g) (ginc g));
          v = (if gdir g = 1 \<and> fle (gainFinal g) v then gainFinal g else v);
          v = (if gdir g = 0 \<and> fle v (gainFinal g) then gainFinal g else v)
      in g\<lparr>gainOut := v\<rparr>)"

text \<open>The result, the value left in \<open>*gain\<close> and the arrays.\<close>

definition gainRamp ::
  "fp \<Rightarrow> int \<Rightarrow> nat \<Rightarrow> fp \<Rightarrow> int \<Rightarrow> gain_ramp_state list \<Rightarrow> (int \<times> fp \<times> gain_ramp_state list) option" where
  "gainRamp gainReq rampTime idn gain gainRate gs =
     (if rampTime \<le> 0 then Some (0, gain, gs)
      else if idn < length gs then
        let g = gs ! idn
        in if \<not> feq (gainFinal g) gainReq \<and> \<not> (- (2 ^ 31) \<le> rampTime * gainRate \<and> rampTime * gainRate < 2 ^ 31)
           then None
           else
             let g = (if \<not> feq (gainFinal g) gainReq then gainRamp_request gainReq rampTime gainRate g else g)
             in if feq (gainFinal g) (gainOut g) then Some (0, gainOut g, gs[idn := g])
                else let g = gainRamp_advance g in Some (1, gainOut g, gs[idn := g])
      else None)"

section \<open>Setpoints\<close>

lemma setpoint_pass_frame [simp]:
  "length (inputs (setpoint_pass ii s)) = length (inputs s)"
  "length (vinputs (setpoint_pass ii s)) = length (vinputs s)"
  "fmdata (setpoint_pass ii s) = fmdata s" "coeffs (setpoint_pass ii s) = coeffs s"
  "offset_ramp (setpoint_pass ii s) = offset_ramp s" "gain_ramp (setpoint_pass ii s) = gain_ramp s"
  "slocal (setpoint_pass ii s) = slocal s" "resetId (setpoint_pass ii s) = resetId s"
  by (simp_all add: setpoint_pass_def Let_def split_def)

lemma setpoint_fold:
  assumes "k \<le> length (inputs s)" "k \<le> length (vinputs s)"
  defines "s' \<equiv> fold setpoint_pass [0..<k] s"
  shows "length (inputs s') = length (inputs s) \<and> length (vinputs s') = length (vinputs s) \<and>
    fmdata s' = fmdata s \<and> coeffs s' = coeffs s \<and> offset_ramp s' = offset_ramp s \<and> gain_ramp s' = gain_ramp s \<and>
    slocal s' = slocal s \<and> resetId s' = resetId s \<and>
    (\<forall>m. (inputs s' ! m, vinputs s' ! m) = (if m < k then sync_setpoints (inputs s ! m) (vinputs s ! m)
       else (inputs s ! m, vinputs s ! m)))"
  unfolding s'_def using assms(1,2)
proof (induction k)
  case 0
  then show ?case by simp
next
  case (Suc k)
  define t where "t = fold setpoint_pass [0..<k] s"
  have IH: "length (inputs t) = length (inputs s)" "length (vinputs t) = length (vinputs s)"
    "(inputs t ! k, vinputs t ! k) = (inputs s ! k, vinputs s ! k)"
    "(inputs t ! m, vinputs t ! m) = (if m < k then sync_setpoints (inputs s ! m) (vinputs s ! m)
       else (inputs s ! m, vinputs s ! m))"
    "fmdata t = fmdata s \<and> coeffs t = coeffs s \<and> offset_ramp t = offset_ramp s \<and> gain_ramp t = gain_ramp s \<and>
     slocal t = slocal s \<and> resetId t = resetId s" for m
    using Suc by (simp_all add: t_def)
  define s' where "s' = setpoint_pass k t"
  have s'_eq: "fold setpoint_pass [0..<Suc k] s = s'" by (simp add: s'_def t_def)
  have at: "(inputs s' ! k, vinputs s' ! k) = sync_setpoints (inputs s ! k) (vinputs s ! k)"
    using IH(1-3) Suc.prems(1,2) by (simp add: s'_def setpoint_pass_def Let_def split_def)
  have "(inputs s' ! m, vinputs s' ! m) = (inputs t ! m, vinputs t ! m)" if "m \<noteq> k" for m
    using that by (simp add: s'_def setpoint_pass_def Let_def split_def)
  then show ?case unfolding s'_eq using at IH by (auto simp: s'_def less_Suc_eq)
qed

lemma updateFmSetpoints_eq:
  "updateFmSetpoints n s = Some s' \<Longrightarrow>
     n \<le> length (inputs s) \<and> n \<le> length (vinputs s) \<and> s' = fold setpoint_pass [0..<n] s"
  by (auto simp: updateFmSetpoints_def split: if_splits)

lemma updateFmSetpoints_total:
  assumes "fe_inv n s"
  shows "\<exists>s'. updateFmSetpoints n s = Some s' \<and> fe_inv n s' \<and>
    (\<forall>m < n. (inputs s' ! m, vinputs s' ! m) = sync_setpoints (inputs s ! m) (vinputs s ! m))"
proof -
  let ?s' = "fold setpoint_pass [0..<n] s"
  have len: "n \<le> length (inputs s)" "n \<le> length (vinputs s)" using assms by (simp_all add: fe_inv_def)
  note all = setpoint_fold [OF len]
  have "updateFmSetpoints n s = Some ?s'" using len by (simp add: updateFmSetpoints_def)
  moreover have "fe_inv n ?s'" using assms all by (simp add: fe_inv_def Let_def)
  ultimately show ?thesis using all by auto
qed

lemma sync_setpoints_props:
  assumes "(d', v') = sync_setpoints d v"
  shows "opSwitchE d' = opSwitchE v \<and> limiter d' = limiter v \<and>
    offset d' = (if bit (ctl_mask d) 29 then offset d else offset v) \<and>
    outgain d' = (if bit (ctl_mask d) 30 then outgain d else outgain v) \<and>
    gain_ramp_time d' = (if bit (ctl_mask d) 31 then gain_ramp_time d else gain_ramp_time v) \<and>
    offset v' = offset d' \<and> outgain v' = outgain d' \<and> gain_ramp_time v' = gain_ramp_time d'"
proof -
  have "ctl_mask d AND 0x20000000 \<noteq> 0 \<longleftrightarrow> bit (ctl_mask d) 29" "ctl_mask d AND 0x40000000 \<noteq> 0 \<longleftrightarrow> bit (ctl_mask d) 30"
    "ctl_mask d AND 0x80000000 \<noteq> 0 \<longleftrightarrow> bit (ctl_mask d) 31"
    using and_single_iff [of 29 "ctl_mask d"] and_single_iff [of 30 "ctl_mask d"] and_single_iff [of 31 "ctl_mask d"]
    by simp_all
  with assms show ?thesis by (simp add: sync_setpoints_def Let_def split: if_splits)
qed

text \<open>C30: The setpoint transfer keeps the two sides of every filter module in step. It always returns
  on a system of that many modules and keeps the invariant of the front end; afterwards the
  local switches and limit of each module are the operator's, and offset, gain and ramp time are
  the same on both sides: the front end's own where its control mask claims them, the operator's
  elsewhere.\<close>

theorem setpoints_in_step:
  assumes "fe_inv n s"
  shows "\<exists>s'. updateFmSetpoints n s = Some s' \<and> fe_inv n s' \<and>
    (\<forall>m < n. opSwitchE (inputs s' ! m) = opSwitchE (vinputs s ! m) \<and> limiter (inputs s' ! m) = limiter (vinputs s ! m) \<and>
       offset (inputs s' ! m) = (if bit (ctl_mask (inputs s ! m)) 29 then offset (inputs s ! m) else offset (vinputs s ! m)) \<and>
       outgain (inputs s' ! m) = (if bit (ctl_mask (inputs s ! m)) 30 then outgain (inputs s ! m) else outgain (vinputs s ! m)) \<and>
       gain_ramp_time (inputs s' ! m) =
         (if bit (ctl_mask (inputs s ! m)) 31 then gain_ramp_time (inputs s ! m) else gain_ramp_time (vinputs s ! m)) \<and>
       offset (vinputs s' ! m) = offset (inputs s' ! m) \<and> outgain (vinputs s' ! m) = outgain (inputs s' ! m) \<and>
       gain_ramp_time (vinputs s' ! m) = gain_ramp_time (inputs s' ! m))"
proof -
  obtain s' where s': "updateFmSetpoints n s = Some s'" "fe_inv n s'"
    "\<And>m. m < n \<Longrightarrow> (inputs s' ! m, vinputs s' ! m) = sync_setpoints (inputs s ! m) (vinputs s ! m)"
    using updateFmSetpoints_total [OF assms] by blast
  show ?thesis using s'(1,2) sync_setpoints_props [OF s'(3)] by blast
qed

theorem setpoints_in_step_witness:
  "\<exists>s'. updateFmSetpoints 1 (ex_module\<lparr>vinputs := [ex_input\<lparr>limiter := of_cint 7\<rparr>]\<rparr>) = Some s' \<and>
     limiter (inputs s' ! 0) = of_cint 7"
proof -
  have "fe_inv 1 (ex_module\<lparr>vinputs := [ex_input\<lparr>limiter := of_cint 7\<rparr>]\<rparr>)" by code_simp
  from setpoints_in_step [OF this] show ?thesis by auto
qed

text \<open>The control input of a module cannot touch the limiter switch or the limit.\<close>

lemma fm_control_limiter:
  "bit (opSwitchE (fm_control ctl msk o_in g_in r_in inp)) 24 = bit (opSwitchE inp) 24"
  "limiter (fm_control ctl msk o_in g_in r_in inp) = limiter inp"
proof -
  show "limiter (fm_control ctl msk o_in g_in r_in inp) = limiter inp"
    by (simp add: fm_control_def Let_def split_def)
  have "24 \<noteq> switch_bit ix" if "ix < 13" for ix
    using switch_bit_inj [of 13 ix] that by (simp add: switch_bit_def)
  moreover have "\<not> bit (push_bit 16 (msk AND 0xe000)) 24"
    by (simp add: bit_push_bit_iff bit_and_iff)
  ultimately show "bit (opSwitchE (fm_control ctl msk o_in g_in r_in inp)) 24 = bit (opSwitchE inp) 24"
    using fm_control_switches [of msk ctl o_in g_in r_in inp 24]
    by (cases "0 < sint msk") (auto simp: fm_control_def Let_def)
qed

lemma fm_unit_step_limited:
  assumes "fm_unit_step rate x ctl msk o_in g_in r_in u = Some (u', out)" "bit (opSwitchE (uin u)) 24"
  defines "L \<equiv> limiter (uin u)"
  assumes "\<not> flt L (fneg L)"
  shows "\<not> flt L (testpoint (udata u')) \<and> \<not> flt (testpoint (udata u')) (fneg L)"
proof -
  obtain v where v: "testpoint (udata u') = fm_limit (opSwitchE (uin u')) (uin u') v"
    using fm_unit_step_switches(2) [OF assms(1)] by blast
  have sw: "opSwitchE (uin u') AND OPSWITCH_LIMITER_ENABLE \<noteq> 0"
    using and_single_iff [of 24 "opSwitchE (uin u')"] fm_unit_step_switches(1) [OF assms(1)] fm_control_limiter(1) assms(2)
    by simp
  have lim: "limiter (uin u') = L"
    using fm_unit_stepE [OF assms(1)] fm_input_frame(2) fm_filters_frame fm_gain_frame(2) fm_control_limiter(2) L_def
    by (metis fm_unit.select_convs(1))
  define w where "w = (if flt (lit (10 ^ 20) 1) v then lit (10 ^ 20) 1 else v)"
  have "testpoint (udata u') = (if flt L w then L else if flt w (fneg L) then fneg L else w)"
    unfolding v fm_limit_def Let_def w_def lim using sw by simp
  from fp.clamp_within [OF _ this] assms(4) show ?thesis by simp
qed

text \<open>C12: The operator's limit is enforced end to end. When the operator has switched the limiter of
  module \<open>m\<close> on in shared memory with a limit that is not negative, then after the setpoint
  transfer the next call of the module returns and leaves its output test point within the
  limit, whatever the input, the control input of the model and the filters do.\<close>

theorem operator_limit_enforced:
  assumes "fe_inv n s" "m < n" "bit (opSwitchE (vinputs s ! m)) 24"
    and "\<not> flt (limiter (vinputs s ! m)) (fneg (limiter (vinputs s ! m)))"
  shows "\<exists>s1 s' out. updateFmSetpoints n s = Some s1 \<and>
    filterModuleD2 rate m x ctl msk o_in g_in r_in s1 = Some (s', out) \<and>
    \<not> flt (limiter (vinputs s ! m)) (testpoint (fmdata s' ! m)) \<and>
    \<not> flt (testpoint (fmdata s' ! m)) (fneg (limiter (vinputs s ! m)))"
proof -
  obtain s1 where s1: "updateFmSetpoints n s = Some s1" "fe_inv n s1"
    "(inputs s1 ! m, vinputs s1 ! m) = sync_setpoints (inputs s ! m) (vinputs s ! m)"
    using updateFmSetpoints_total [OF assms(1)] assms(2) by blast
  obtain s' out where s': "filterModuleD2 rate m x ctl msk o_in g_in r_in s1 = Some (s', out)"
    using fe_inv_filter [OF s1(2) assms(2)] by blast
  obtain u where u: "fm_unit_step rate x ctl msk o_in g_in r_in (unit_of s1 m) = Some (u, out)" "unit_of s' m = u"
    using filterModuleD2_Some [OF s'] .
  have inp: "opSwitchE (uin (unit_of s1 m)) = opSwitchE (vinputs s ! m)" "limiter (uin (unit_of s1 m)) = limiter (vinputs s ! m)"
    using sync_setpoints_props [OF s1(3)] by (simp_all add: unit_of_def)
  have "udata u = fmdata s' ! m" using u(2) by (auto simp: unit_of_def)
  with fm_unit_step_limited [OF u(1)] assms(3,4) s1(1) s' show ?thesis unfolding inp by auto
qed

theorem operator_limit_enforced_witness:
  "\<exists>s1 s' out. updateFmSetpoints 1 (ex_module\<lparr>vinputs := [ex_input\<lparr>opSwitchE := 0x5000004, limiter := of_cint 2\<rparr>]\<rparr>) = Some s1 \<and>
     filterModuleD2 16384 0 (of_cint 9) 0 0 f0 f0 f0 s1 = Some (s', out) \<and> \<not> flt (of_cint 2) (testpoint (fmdata s' ! 0))"
proof -
  let ?s = "ex_module\<lparr>vinputs := [ex_input\<lparr>opSwitchE := 0x5000004, limiter := of_cint 2\<rparr>]\<rparr>"
  have "fe_inv 1 ?s" "bit (opSwitchE (vinputs ?s ! 0)) 24" "\<not> flt (limiter (vinputs ?s ! 0)) (fneg (limiter (vinputs ?s ! 0)))"
    by code_simp+
  from operator_limit_enforced [OF this(1) _ this(2,3)] show ?thesis by (simp; blast)
qed

section \<open>Readbacks\<close>

lemma reload_step_fmdata: "reload_step vmes sid s = Some s' \<Longrightarrow> fmdata s' = fmdata s"
  by (auto simp: reload_step_def Let_def split: if_splits option.splits prod.splits)

lemma checkFiltReset_fmdata: "checkFiltReset vmes bank pL n s = Some s' \<Longrightarrow> fmdata s' = fmdata s"
  by (auto simp: checkFiltReset_def checkFiltResetId_def Let_def reload_step_fmdata split: if_splits)

text \<open>C31: The readback transfer of a cycle serves the module whose number is the cycle number and no
  other: it returns on every system of that size and keeps the invariant of the front end. In shared memory it
  gives that module the local filter input, excitation, test point, output, 16 Hz output and status word, each in
  its own field, and the local switch readback, control mask and control word; the input test point keeps its value, the
  data of every other module and all the local module data stay as they are.\<close>

theorem updateEpics_shows_module:
  assumes "fe_inv n (fe e)" "length (vdata e) = n" "length vmes = n" "\<forall>v \<in> set vmes. vme_iir v"
  shows "\<exists>e'. updateEpics vmes pL n subcycle e = Some e' \<and> fe_inv n (fe e') \<and> length (vdata e') = n \<and>
    (\<forall>m < n. if int m = subcycle
       then vdata e' ! m = \<lparr>filterInput = filterInput (fmdata (fe e) ! m), exciteInput = exciteInput (fmdata (fe e) ! m),
           inputTestpoint = inputTestpoint (vdata e ! m), testpoint = testpoint (fmdata (fe e) ! m),
           fmOutput = fmOutput (fmdata (fe e) ! m), output16Hz = output16Hz (fmdata (fe e) ! m),
           swStatus = swStatus (fmdata (fe e) ! m)\<rparr> \<and>
         opSwitchP (vinputs (fe e') ! m) = opSwitchP (inputs (fe e') ! m) \<and>
         ctl_mask (vinputs (fe e') ! m) = ctl_mask (inputs (fe e') ! m) \<and>
         control (vinputs (fe e') ! m) = control (inputs (fe e') ! m)
       else vdata e' ! m = vdata e ! m) \<and> fmdata (fe e') = fmdata (fe e)"
proof (cases "subcycle \<ge> 0 \<and> subcycle < int n")
  case False
  then show ?thesis using assms(1,2) by (auto simp: updateEpics_def)
next
  case True
  obtain s where s: "checkFiltReset vmes subcycle pL (int n) (fe e) = Some s" "fe_inv n s"
    using fe_inv_check [OF assms(1,3,4)] by blast
  have data: "fmdata s = fmdata (fe e)" using checkFiltReset_fmdata [OF s(1)] .
  have m: "nat subcycle < n" "int m = subcycle \<longleftrightarrow> m = nat subcycle" for m using True by auto
  have len: "length (inputs s) = n" "length (fmdata s) = n" "length (vinputs s) = n" "length (vdata e) = n"
    using s(2) assms(2) by (simp_all add: fe_inv_def)
  let ?e' = "\<lparr>fe = s\<lparr>vinputs := (vinputs s)[nat subcycle := copy_switches (inputs s ! nat subcycle) (vinputs s ! nat subcycle)]\<rparr>,
    vdata = (vdata e)[nat subcycle := copy_data (fmdata s ! nat subcycle) (vdata e ! nat subcycle)]\<rparr>"
  have "updateEpics vmes pL n subcycle e = Some ?e'"
    using True s(1) len m(1) by (simp add: updateEpics_def Let_def)
  moreover have "fe_inv n (fe ?e')" using s(2) by (simp add: fe_inv_def)
  ultimately show ?thesis using len m data by (auto simp: copy_switches_def copy_data_def nth_list_update)
qed

text \<open>Six different values, one in each field.\<close>

theorem updateEpics_shows_module_witness:
  "\<exists>e'. updateEpics [ex_vme] 5 1 0
      \<lparr>fe = ex_module\<lparr>fmdata := [\<lparr>filterInput = of_cint 1, exciteInput = of_cint 2, inputTestpoint = of_cint 9,
         testpoint = of_cint 3, fmOutput = of_cint 4, output16Hz = of_cint 5, swStatus = 6\<rparr>]\<rparr>, vdata = [ex_data]\<rparr> = Some e' \<and>
     vdata e' = [\<lparr>filterInput = of_cint 1, exciteInput = of_cint 2, inputTestpoint = f0, testpoint = of_cint 3,
       fmOutput = of_cint 4, output16Hz = of_cint 5, swStatus = 6\<rparr>]"
proof -
  let ?d = "\<lparr>filterInput = of_cint 1, exciteInput = of_cint 2, inputTestpoint = of_cint 9,
         testpoint = of_cint 3, fmOutput = of_cint 4, output16Hz = of_cint 5, swStatus = 6\<rparr>"
  let ?e = "\<lparr>fe = ex_module\<lparr>fmdata := [?d]\<rparr>, vdata = [ex_data]\<rparr>"
  have "\<forall>v \<in> set [ex_vme]. vme_iir v" by code_simp
  moreover have "fe_inv 1 (fe ?e)" using ex_module_inv by (simp add: fe_inv_def)
  ultimately obtain e' where e': "updateEpics [ex_vme] 5 1 0 ?e = Some e'" "length (vdata e') = 1"
    "vdata e' ! 0 = \<lparr>filterInput = of_cint 1, exciteInput = of_cint 2, inputTestpoint = f0, testpoint = of_cint 3,
       fmOutput = of_cint 4, output16Hz = of_cint 5, swStatus = 6\<rparr>"
    using updateEpics_shows_module [of 1 ?e "[ex_vme]" 5 0] by (auto simp: ex_data_def)
  then show ?thesis by (auto simp: length_Suc_conv)
qed

section \<open>The gain ramp does not overshoot\<close>

lemma flt_feq:
  assumes "feq x y"
  shows "flt x z = flt y z" "flt z x = flt z y"
proof -
  have "is_nan x = is_nan y" "rank x = rank y" "valof x = valof y"
    using assms by (auto simp: feq_def elim!: is_zero.elims)
  then show "flt x z = flt y z" "flt z x = flt z y" unfolding flt_rank by simp_all
qed

lemma gainRamp_advance_sides:
  "gdir g = 1 \<Longrightarrow> \<not> flt (gainFinal g) (gainOut (gainRamp_advance g))"
  "gdir g = 0 \<Longrightarrow> \<not> flt (gainOut (gainRamp_advance g)) (gainFinal g)"
  by (auto simp: gainRamp_advance_def Let_def fle_def fp.lt_irrefl)

lemma gainRamp_advance_frame [simp]:
  "gdir (gainRamp_advance g) = gdir g" "gainFinal (gainRamp_advance g) = gainFinal g" "ginc (gainRamp_advance g) = ginc g"
  by (simp_all add: gainRamp_advance_def Let_def)

text \<open>C32: The gain ramp goes towards the request and stops there. A call with a positive ramp time and
  a request that is a number reports the ramp's own value; it returns 0 only with
  that value at the request, and while it returns 1 an upward ramp is not above the request and a
  downward ramp not below it. Once at the request it stays there: every further call with the same
  request returns 0 and changes nothing.\<close>

theorem gain_ramp_no_overshoot:
  assumes "gainRamp gainReq rampTime idn gain rate gs = Some (r, gain', gs')" "0 < rampTime" "\<not> is_nan gainReq"
    and "gdir (gs ! idn) \<in> {0, 1}"
  shows "gain' = gainOut (gs' ! idn) \<and> gdir (gs' ! idn) \<in> {0, 1} \<and>
    (if r = 0 then feq gain' gainReq
     else r = 1 \<and> (if gdir (gs' ! idn) = 1 then \<not> flt gainReq gain' else \<not> flt gain' gainReq)) \<and>
    (feq gain' gainReq \<longrightarrow> gainRamp gainReq rampTime idn x rate gs' = Some (0, gain', gs'))"
proof -
  define g where "g = (if \<not> feq (gainFinal (gs ! idn)) gainReq then gainRamp_request gainReq rampTime rate (gs ! idn) else gs ! idn)"
  have idn: "idn < length gs" using assms(1,2) by (auto simp: gainRamp_def split: if_splits)
  have run: "if feq (gainFinal g) (gainOut g) then r = 0 \<and> gain' = gainOut g \<and> gs' = gs[idn := g]
      else r = 1 \<and> gain' = gainOut (gainRamp_advance g) \<and> gs' = gs[idn := gainRamp_advance g]"
    using assms(1,2) idn by (auto simp: gainRamp_def Let_def g_def split: if_splits)
  have fin: "feq (gainFinal g) gainReq" using assms(3) by (auto simp: g_def gainRamp_request_def Let_def feq_def)
  have dir: "gdir g \<in> {0, 1}" using assms(4) by (auto simp: g_def gainRamp_request_def Let_def)
  have at: "gs' ! idn = g \<or> gs' ! idn = gainRamp_advance g" "gainOut (gs' ! idn) = gain'"
    using run idn by (auto split: if_splits)
  have fin': "feq (gainFinal (gs' ! idn)) gainReq" "gdir (gs' ! idn) = gdir g" using at(1) fin by auto
  have same: "feq gain' gainReq \<longleftrightarrow> feq (gainFinal (gs' ! idn)) (gainOut (gs' ! idn))"
    using fin' at(2) by (auto simp: feq_def)
  have stay: "gainRamp gainReq rampTime idn x rate gs' = Some (0, gain', gs')" if "feq gain' gainReq"
    using that fin' same at(2) assms(2) idn run by (auto simp: gainRamp_def Let_def split: if_splits)
  have sides: "r = 1 \<Longrightarrow> if gdir g = 1 then \<not> flt gainReq gain' else \<not> flt gain' gainReq"
    using run gainRamp_advance_sides [of g] dir flt_feq [OF fin] by (auto split: if_splits)
  have "r = 0 \<Longrightarrow> feq gain' gainReq" using run fin by (auto simp: feq_def split: if_splits)
  then show ?thesis using sides at(2) fin'(2) dir stay run by (auto split: if_splits)
qed

text \<open>A ramp of two steps from 0 to 1.\<close>

definition ex_ramp :: gain_ramp_state where
  "ex_ramp = \<lparr>gdir = 0, ginc = f0, gainFinal = f0, gainOut = f0\<rparr>"

lemma ex_ramp_run:
  "gainRamp (of_cint 1) 1 0 f0 2 [ex_ramp] =
     Some (1, lit 1 2, [\<lparr>gdir = 1, ginc = lit 1 2, gainFinal = of_cint 1, gainOut = lit 1 2\<rparr>])"
  by code_simp

theorem gain_ramp_no_overshoot_witness:
  "\<not> flt (of_cint 1) (lit 1 2) \<and> gdir ex_ramp \<in> {0, 1} \<and>
   (\<exists>gs'. gainRamp (of_cint 1) 1 0 f0 2 [ex_ramp] = Some (1, lit 1 2, gs'))"
proof -
  have "\<not> is_nan (of_cint 1)" "gdir ([ex_ramp] ! 0) \<in> {0, 1}" by code_simp+
  from gain_ramp_no_overshoot [OF ex_ramp_run _ this] show ?thesis
    using ex_ramp_run by (simp add: ex_ramp_def)
qed

section \<open>The gain ramp may stall\<close>

fun gainRamp_calls :: "nat \<Rightarrow> fp \<Rightarrow> int \<Rightarrow> int \<Rightarrow> fp \<times> gain_ramp_state list \<Rightarrow> (fp \<times> gain_ramp_state list) option" where
  "gainRamp_calls 0 gainReq rampTime rate p = Some p"
| "gainRamp_calls (Suc k) gainReq rampTime rate (gain, gs) =
     Option.bind (gainRamp gainReq rampTime 0 gain rate gs)
       (\<lambda>(r, gain', gs'). gainRamp_calls k gainReq rampTime rate (gain', gs'))"

text \<open>The request of a gain of 1.001, in single precision, from a gain of 1, over ten seconds at 16384
  calls a second.\<close>

definition stall_req :: fp where
  "stall_req = to_float (lit 1001 1000)"

definition stall_start :: gain_ramp_state where
  "stall_start = \<lparr>gdir = 1, ginc = f0, gainFinal = of_cint 1, gainOut = of_cint 1\<rparr>"

definition stalled :: gain_ramp_state where
  "stalled = gainRamp_request stall_req 10 16384 stall_start"

lemma stall_first: "gainRamp stall_req 10 0 (of_cint 1) 16384 [stall_start] = Some (1, of_cint 1, [stalled])"
  by code_simp

lemma stall_again: "gainRamp stall_req 10 0 (of_cint 1) 16384 [stalled] = Some (1, of_cint 1, [stalled])"
  by code_simp

lemma stall_calls: "gainRamp_calls k stall_req 10 16384 (of_cint 1, [stalled]) = Some (of_cint 1, [stalled])"
  by (induction k) (simp_all add: stall_again)

text \<open>The gain ramp may never arrive. From a gain of 1 and asked for a gain of 1.001 over ten
  seconds at 16384 calls a second, the step is below half the spacing of single precision numbers at 1:
  after any number of calls the gain is still 1, and the ramp still reports itself
  under way.\<close>

theorem gain_ramp_may_stall:
  "flt (of_cint 1) stall_req \<and>
   gainRamp_calls (Suc k) stall_req 10 16384 (of_cint 1, [stall_start]) = Some (of_cint 1, [stalled]) \<and>
   gainRamp stall_req 10 0 (of_cint 1) 16384 [stalled] = Some (1, of_cint 1, [stalled])"
proof -
  have "flt (of_cint 1) stall_req" by code_simp
  then show ?thesis by (simp add: stall_first stall_calls stall_again)
qed

end
