(* ===== verification/Testpoint.thy ===== *)
theory Testpoint
  imports Prelude
begin

text \<open>
  The test point manager (\<open>src/gds/testpoint_server.c\<close>, with the numbering of test points in
  \<open>src/gds/rmorg.h\<close>): the remote procedures that request and clear test points by number and by
  name, the client handles, the scheduled tasks that expire and publish test points, and the
  server's mutex. A procedure that waits for ever for the mutex is the value \<open>None\<close>.
\<close>

section \<open>Test point numbers\<close>

abbreviation (input) TP_MAX_NODE :: int where "TP_MAX_NODE \<equiv> 256"
abbreviation (input) TP_MAX_INTERFACE :: nat where "TP_MAX_INTERFACE \<equiv> 4"
abbreviation (input) TP_MAX_INDEX :: nat where "TP_MAX_INDEX \<equiv> 64"
abbreviation (input) TP_HIGHEST_INDEX :: nat where "TP_HIGHEST_INDEX \<equiv> 60000"
abbreviation (input) TP_DAC_INTERFACE :: int where "TP_DAC_INTERFACE \<equiv> 100"
abbreviation (input) TP_CLEAR_ALL :: nat where "TP_CLEAR_ALL \<equiv> 65535"
abbreviation (input) TP_MAX_USER :: nat where "TP_MAX_USER \<equiv> 1000"
abbreviation (input) MAX_TPNAMES :: nat where "MAX_TPNAMES \<equiv> 1000"
abbreviation (input) KEEPALIVE_TIMEOUT :: int where "KEEPALIVE_TIMEOUT \<equiv> 60"
abbreviation (input) KEEP_AROUND :: int where "KEEP_AROUND \<equiv> 240"
abbreviation (input) ONESEC :: int where "ONESEC \<equiv> 1000000000"
abbreviation (input) EPOCH :: int where "EPOCH \<equiv> 62500000"
abbreviation (input) TESTPOINT_UPDATE_EPOCH :: int where "TESTPOINT_UPDATE_EPOCH \<equiv> 8"
abbreviation (input) DAQ_DCU_SIZE :: int where "DAQ_DCU_SIZE \<equiv> 0x400000"

definition TP_ID_TO_INTERFACE :: "nat \<Rightarrow> int" where
  "TP_ID_TO_INTERFACE a =
     (if a = 0 then -1 else if a < 10000 then 0 else if a < 20000 then 2 else if a < 30000 then 1
      else if a < 40000 then 3 else if a < 50000 then TP_DAC_INTERFACE else if a < 60000 then 101 else -1)"

definition TP_INTERFACE_TO_INDEX_LEN :: "int \<Rightarrow> nat" where
  "TP_INTERFACE_TO_INDEX_LEN a = (if a = 0 then 64 else if a = 1 then 64 else if a = 2 then 64 else if a = 3 then 64 else 0)"

text \<open>The interface whose index holds a test point; \<open>None\<close> where the loops skip the number.\<close>

definition tpinterface :: "nat \<Rightarrow> nat option" where
  "tpinterface tp =
     (let i = TP_ID_TO_INTERFACE tp; i = (if i = TP_DAC_INTERFACE then 0 else i)
      in if i < 0 \<or> i \<ge> int TP_MAX_INTERFACE then None else Some (nat i))"

section \<open>State\<close>

text \<open>
  An entry of the index keeps the users that its use count names, so the count is the length of
  the list; what the array holds behind them is never read before it is written and is not kept.
\<close>

record tpUsage =
  reqTime :: int
  usrTimeout :: int
  clntId :: int

record tpEntry =
  tpid :: nat
  users :: "tpUsage list"
  tpname :: string

record tpClient =
  clvalid :: int
  lastTime :: int

record tpserver =
  locked :: bool
  tpvalid :: bool
  tpnode :: int
  preselect :: "nat list"
  indx :: "tpEntry list list"
  tpclnts :: "tpClient list"
  tpclntID :: int

text \<open>What the server finds around it: the channel that each known test point number names, the size
  of a channel name, the data rate already in use and the multiple of 16384 Hz the system runs at.\<close>

record tpenv =
  tplookup :: "nat \<Rightarrow> string option"
  CHNNAME_SIZE :: nat
  curDaqBlockSize :: int
  sys_freq_mult :: int

record resultRequestTP =
  status :: int
  rtime :: int
  repoch :: int

definition MUTEX_GET :: "tpserver \<Rightarrow> tpserver option" where
  "MUTEX_GET s = (if locked s then None else Some (s\<lparr>locked := True\<rparr>))"

definition MUTEX_RELEASE :: "tpserver \<Rightarrow> tpserver" where
  "MUTEX_RELEASE s = s\<lparr>locked := False\<rparr>"

definition known_tp :: "tpenv \<Rightarrow> nat \<Rightarrow> bool" where
  "known_tp env tp \<longleftrightarrow> \<not> (tp = 0 \<or> tp \<ge> TP_HIGHEST_INDEX \<or> tplookup env tp = None)"

section \<open>Requests\<close>

text \<open>The projected use of the data stream: the first loop counts a slot for every number that meets
  an empty slot before its own entry, the second the entries in use.\<close>

fun new_slot :: "nat \<Rightarrow> tpEntry list \<Rightarrow> int" where
  "new_slot tp [] = 0"
| "new_slot tp (e # es) = (if tpid e = tp then 0 else if tpid e = 0 then 1 else new_slot tp es)"

definition projected :: "tpenv \<Rightarrow> nat list \<Rightarrow> tpEntry list list \<Rightarrow> int" where
  "projected env tps ix =
     sum_list (map (\<lambda>tp. if known_tp env tp then
         (case tpinterface tp of None \<Rightarrow> 0
          | Some i \<Rightarrow> new_slot tp (take (TP_INTERFACE_TO_INDEX_LEN (int i)) (ix ! i))) else 0) tps) +
     sum_list (map (\<lambda>i. int (length (filter (\<lambda>e. tpid e \<noteq> 0) (take (TP_INTERFACE_TO_INDEX_LEN (int i)) (ix ! i)))))
       [0..<TP_MAX_INTERFACE])"

definition daq_overload :: "tpenv \<Rightarrow> nat list \<Rightarrow> tpEntry list list \<Rightarrow> bool" where
  "daq_overload env tps ix \<longleftrightarrow>
     (projected env tps ix * 4 * 16384 * sys_freq_mult env + curDaqBlockSize env) mod 2 ^ 32 > DAQ_DCU_SIZE"

text \<open>The search for a slot: \<open>-2\<close> and the place of an entry that takes one more user, \<open>-1\<close> when
  there is no room, else the first empty slot.\<close>

fun find_slot :: "nat \<Rightarrow> tpEntry list \<Rightarrow> nat \<Rightarrow> int \<Rightarrow> int \<times> nat" where
  "find_slot tp [] j k = (k, j)"
| "find_slot tp (e # es) j k =
     (if tpid e = tp then (if length (users e) < TP_MAX_USER then (-2, j) else (-1, j))
      else find_slot tp es (j + 1) (if k = -1 \<and> tpid e = 0 then int j else k))"

definition request_one ::
  "tpenv \<Rightarrow> tpUsage \<Rightarrow> nat \<Rightarrow> tpEntry list list \<Rightarrow> tpEntry list list option" where
  "request_one env u tp ix =
     (if \<not> known_tp env tp then Some ix
      else case tpinterface tp of
        None \<Rightarrow> Some ix
      | Some i \<Rightarrow>
          let es = ix ! i; (k, j) = find_slot tp (take (TP_INTERFACE_TO_INDEX_LEN (int i)) es) 0 (-1)
          in if k = -2 then Some (ix[i := es[j := (es ! j)\<lparr>users := users (es ! j) @ [u]\<rparr>]])
             else if k \<ge> 0 then
               Some (ix[i := es[nat k := \<lparr>tpid = tp, users = [u],
                 tpname = take (CHNNAME_SIZE env - 1) (the (tplookup env tp))\<rparr>]])
             else None)"

text \<open>The loop: the status, and the index as far as the loop got.\<close>

fun request_loop ::
  "tpenv \<Rightarrow> tpUsage \<Rightarrow> nat list \<Rightarrow> nat \<Rightarrow> tpEntry list list \<Rightarrow> int \<times> tpEntry list list" where
  "request_loop env u [] i ix = (0, ix)"
| "request_loop env u (tp # tps) i ix =
     (case request_one env u tp ix of
        None \<Rightarrow> (- (int i + 1), ix)
      | Some ix' \<Rightarrow> request_loop env u tps (i + 1) ix')"

definition bad_node :: "int \<Rightarrow> int \<Rightarrow> tpserver \<Rightarrow> bool" where
  "bad_node cid node s \<longleftrightarrow> cid < 0 \<or> node < 0 \<or> node \<ge> TP_MAX_NODE \<or> \<not> tpvalid s \<or> tpnode s \<noteq> node"

definition activation :: "int \<Rightarrow> resultRequestTP \<Rightarrow> resultRequestTP" where
  "activation now r =
     r\<lparr>rtime := now div ONESEC + 1 + (if (now mod ONESEC) div EPOCH \<ge> TESTPOINT_UPDATE_EPOCH then 1 else 0),
       repoch := 0\<rparr>"

text \<open>The request, over the call \<open>clr\<close> it makes to clear what a failed request had set. One reading
  of the clock serves the whole call.\<close>

definition request_call ::
  "(nat list \<Rightarrow> tpserver \<Rightarrow> tpserver option) \<Rightarrow> tpenv \<Rightarrow> int \<Rightarrow> int \<Rightarrow> int \<Rightarrow> nat list \<Rightarrow> int \<Rightarrow>
     resultRequestTP \<Rightarrow> tpserver \<Rightarrow> (resultRequestTP \<times> tpserver) option" where
  "request_call clr env now cid node tps tmout r s =
     (if bad_node cid node s then Some (r\<lparr>status := -2\<rparr>, s)
      else case MUTEX_GET s of
        None \<Rightarrow> None
      | Some s \<Rightarrow>
          let r = r\<lparr>status := 0\<rparr>
          in if daq_overload env tps (indx s) then Some (r, MUTEX_RELEASE s)
             else
               let (st, ix) = request_loop env \<lparr>reqTime = now, usrTimeout = tmout, clntId = cid\<rparr> tps 0 (indx s);
                   r = r\<lparr>status := st\<rparr>; s = s\<lparr>indx := ix\<rparr>
               in case (if st < 0 then clr (take (nat (- st)) tps) s else Some s) of
                    None \<Rightarrow> None
                  | Some s \<Rightarrow> Some (activation now r, MUTEX_RELEASE s))"

section \<open>Clearing\<close>

definition remove_user :: "nat \<Rightarrow> tpEntry \<Rightarrow> tpEntry" where
  "remove_user k e =
     (let us = take k (users e) @ drop (k + 1) (users e)
      in e\<lparr>users := us, tpid := (if us = [] then 0 else tpid e)\<rparr>)"

fun find_user :: "int \<Rightarrow> tpUsage list \<Rightarrow> nat \<Rightarrow> nat" where
  "find_user cid [] k = k"
| "find_user cid (u # us) k = (if clntId u = cid \<and> usrTimeout u \<le> 0 then k else find_user cid us (k + 1))"

text \<open>The search through the index of one interface stops at the first entry with the number.\<close>

fun clear_in :: "int \<Rightarrow> nat \<Rightarrow> tpEntry list \<Rightarrow> tpEntry list" where
  "clear_in cid tp [] = []"
| "clear_in cid tp (e # es) =
     (if tpid e = tp then
        (let k = find_user cid (users e) 0 in if k < length (users e) then remove_user k e # es else e # es)
      else e # clear_in cid tp es)"

definition clear_one :: "int \<Rightarrow> nat \<Rightarrow> tpEntry list list \<Rightarrow> tpEntry list list" where
  "clear_one cid tp ix =
     (case tpinterface tp of None \<Rightarrow> ix
      | Some i \<Rightarrow> ix[i := clear_in cid tp (take (TP_INTERFACE_TO_INDEX_LEN (int i)) (ix ! i)) @
                          drop (TP_INTERFACE_TO_INDEX_LEN (int i)) (ix ! i)])"

definition no_entry :: tpEntry where
  "no_entry = \<lparr>tpid = 0, users = [], tpname = ''''\<rparr>"

fun clear_loop :: "int \<Rightarrow> nat list \<Rightarrow> tpEntry list list \<Rightarrow> bool \<times> tpEntry list list" where
  "clear_loop cid [] ix = (False, ix)"
| "clear_loop cid (tp # tps) ix =
     (if tp = TP_CLEAR_ALL then (True, replicate TP_MAX_INTERFACE (replicate TP_MAX_INDEX no_entry))
      else clear_loop cid tps (clear_one cid tp ix))"

text \<open>The clearing, over the call \<open>pre\<close> that sets the preselected test points again.\<close>

definition clear_call ::
  "(tpserver \<Rightarrow> tpserver option) \<Rightarrow> int \<Rightarrow> int \<Rightarrow> nat list \<Rightarrow> tpserver \<Rightarrow> (int \<times> tpserver) option" where
  "clear_call pre cid node tps s =
     (if bad_node cid node s then Some (-2, s)
      else case MUTEX_GET s of
        None \<Rightarrow> None
      | Some s \<Rightarrow>
          let (clearall, ix) = clear_loop cid tps (indx s);
              s = MUTEX_RELEASE (s\<lparr>indx := ix\<rparr>)
          in map_option (Pair 0) (if clearall then pre s else Some s))"

text \<open>The procedures. The request and the clearing call each other; the clearing inside a failed
  request finds the mutex taken and never comes to the preselection, which ends the recursion.\<close>

definition requesttp_1_svc ::
  "tpenv \<Rightarrow> int \<Rightarrow> int \<Rightarrow> int \<Rightarrow> nat list \<Rightarrow> int \<Rightarrow> resultRequestTP \<Rightarrow> tpserver \<Rightarrow>
     (resultRequestTP \<times> tpserver) option" where
  "requesttp_1_svc env now cid node =
     request_call (\<lambda>tps s. map_option snd (clear_call (\<lambda>_. None) cid node tps s)) env now cid node"

definition setPreselect :: "tpenv \<Rightarrow> int \<Rightarrow> int \<Rightarrow> tpserver \<Rightarrow> tpserver option" where
  "setPreselect env now node s =
     (let tps = filter (\<lambda>tp. tp > 0) (preselect s)
      in if tps \<noteq> []
         then map_option snd (requesttp_1_svc env now 0x7fffffff node tps 0 \<lparr>status = 0, rtime = 0, repoch = 0\<rparr> s)
         else Some s)"

definition cleartp_1_svc :: "tpenv \<Rightarrow> int \<Rightarrow> int \<Rightarrow> int \<Rightarrow> nat list \<Rightarrow> tpserver \<Rightarrow> (int \<times> tpserver) option" where
  "cleartp_1_svc env now cid node = clear_call (setPreselect env now node) cid node"

section \<open>Names\<close>

text \<open>\<open>strtok_r\<close>, and the list of names. \<open>chn\<close> gives the node and number of a channel name that is a
  valid test point.\<close>

definition strtok :: "char list \<Rightarrow> string \<Rightarrow> (string \<times> string) option" where
  "strtok delims cs =
     (let cs = dropWhile (\<lambda>c. c \<in> set delims) cs
      in if cs = [] then None
         else Some (takeWhile (\<lambda>c. c \<notin> set delims) cs, drop 1 (dropWhile (\<lambda>c. c \<notin> set delims) cs)))"

lemma strtok_shorter: "strtok ds cs = Some (p, rest) \<Longrightarrow> length rest < length cs"
proof -
  assume a: "strtok ds cs = Some (p, rest)"
  have "length (dropWhile P xs) \<le> length xs" for P and xs :: string by (induction xs) auto
  note le = this
  show ?thesis
    using a le [of "\<lambda>c. c \<in> set ds" cs] le [of "\<lambda>c. c \<notin> set ds" "dropWhile (\<lambda>c. c \<in> set ds) cs"]
    by (cases "dropWhile (\<lambda>c. c \<in> set ds) cs") (auto simp: strtok_def Let_def split: if_splits)
qed

function name_loop ::
  "(string \<Rightarrow> (int \<times> nat) option) \<Rightarrow> int \<Rightarrow> (string \<times> string) option \<Rightarrow> nat list \<Rightarrow> nat list" where
  "name_loop chn node t tps =
     (case t of
        None \<Rightarrow> tps
      | Some (p, rest) \<Rightarrow>
          if length tps < MAX_TPNAMES then
            name_loop chn node (strtok [CHR '' '', CHR 0x09, CHR 0x0A] rest)
              (case chn p of Some (tp_node, tp) \<Rightarrow> if node = tp_node then tps @ [tp] else tps | None \<Rightarrow> tps)
          else tps)"
  by pat_completeness auto
termination
  by (relation "measure (\<lambda>(chn, node, t, tps). case t of None \<Rightarrow> 0 | Some (p, rest) \<Rightarrow> Suc (length rest))")
    (auto split: option.splits dest: strtok_shorter)

declare name_loop.simps [simp del]

definition tpName2Index :: "(string \<Rightarrow> (int \<times> nat) option) \<Rightarrow> int \<Rightarrow> string \<Rightarrow> nat list" where
  "tpName2Index chn node tpNames =
     name_loop chn node (strtok [CHR '' '', CHR '','', CHR 0x09, CHR 0x0A] tpNames) []"

definition requesttpname_1_svc ::
  "tpenv \<Rightarrow> (string \<Rightarrow> (int \<times> nat) option) \<Rightarrow> int \<Rightarrow> int \<Rightarrow> string \<Rightarrow> int \<Rightarrow> resultRequestTP \<Rightarrow> tpserver \<Rightarrow>
     (resultRequestTP \<times> tpserver) option" where
  "requesttpname_1_svc env chn now cid tpNames tmout r s =
     (if tpvalid s then
        map_option (\<lambda>(r, s). (if status r < 0 then r\<lparr>status := -2\<rparr> else r, s))
          (requesttp_1_svc env now cid (tpnode s) (tpName2Index chn (tpnode s) tpNames) tmout r s)
      else Some (r, s))"

definition cleartpname_1_svc ::
  "tpenv \<Rightarrow> (string \<Rightarrow> (int \<times> nat) option) \<Rightarrow> int \<Rightarrow> int \<Rightarrow> string \<Rightarrow> tpserver \<Rightarrow> (int \<times> tpserver) option" where
  "cleartpname_1_svc env chn now cid tpNames s =
     map_option (\<lambda>(_, s). (0, s))
       (cleartp_1_svc env now cid (tpnode s) (tpName2Index chn (tpnode s) tpNames) s)"

section \<open>Client handles\<close>

fun free_client :: "tpClient list \<Rightarrow> nat \<Rightarrow> nat option" where
  "free_client [] i = None"
| "free_client (c # cs) i = (if clvalid c = 0 then Some i else free_client cs (i + 1))"

definition keepalive_1_svc :: "int \<Rightarrow> int \<Rightarrow> tpserver \<Rightarrow> (int \<times> tpserver) option" where
  "keepalive_1_svc now cid s =
     map_option (\<lambda>s.
       let (ret, s) =
         (if cid < -1 then (tpclntID s, s\<lparr>tpclntID := tpclntID s + 1\<rparr>)
          else if cid < 0 then
            (case free_client (tpclnts s) 0 of
               Some i \<Rightarrow> (int i, s\<lparr>tpclnts := (tpclnts s)[i := \<lparr>clvalid = 1, lastTime = now\<rparr>]\<rparr>)
             | None \<Rightarrow> (-1, s))
          else if cid \<ge> int TP_MAX_USER \<or> clvalid (tpclnts s ! nat cid) = 0 then (-1, s)
          else (cid, s\<lparr>tpclnts := (tpclnts s)[nat cid := (tpclnts s ! nat cid)\<lparr>lastTime := now\<rparr>]\<rparr>))
       in (ret, MUTEX_RELEASE s)) (MUTEX_GET s)"

section \<open>Scheduled tasks\<close>

definition expired :: "int \<Rightarrow> tpUsage \<Rightarrow> bool" where
  "expired t u \<longleftrightarrow> usrTimeout u > 0 \<and> reqTime u + usrTimeout u < t"

text \<open>The loop over the users of an entry goes on to the next place also after it has moved the users
  up by one.\<close>

function cleanup_entry :: "int \<Rightarrow> nat \<Rightarrow> tpEntry \<Rightarrow> tpEntry" where
  "cleanup_entry t k e =
     (if k < length (users e)
      then cleanup_entry t (k + 1) (if expired t (users e ! k) then remove_user k e else e) else e)"
  by pat_completeness auto
termination
  by (relation "measure (\<lambda>(t, k, e). length (users e) - k)") (auto simp: remove_user_def Let_def)

declare cleanup_entry.simps [simp del]

definition cleanup_client :: "int \<Rightarrow> tpClient \<Rightarrow> tpClient" where
  "cleanup_client t c =
     (if clvalid c \<noteq> 0 \<and> lastTime c + KEEPALIVE_TIMEOUT * ONESEC < t
      then c\<lparr>clvalid := (if clvalid c + 1 > KEEP_AROUND then 0 else clvalid c + 1)\<rparr> else c)"

definition cleanup_interface :: "int \<Rightarrow> nat \<Rightarrow> tpserver \<Rightarrow> tpserver option" where
  "cleanup_interface t j s =
     map_option (\<lambda>s.
       let len = TP_INTERFACE_TO_INDEX_LEN (int j); es = indx s ! j
       in MUTEX_RELEASE (s\<lparr>indx := (indx s)[j :=
            map (\<lambda>e. if tpid e = 0 then e else cleanup_entry t 0 e) (take len es) @ drop len es]\<rparr>)) (MUTEX_GET s)"

definition cleanupTestpoints :: "int \<Rightarrow> int \<Rightarrow> tpserver \<Rightarrow> tpserver option" where
  "cleanupTestpoints time epoch s =
     (let t = time * ONESEC + epoch * EPOCH
      in map_option (\<lambda>s. s\<lparr>tpclnts := map (cleanup_client t) (tpclnts s)\<rparr>)
           (if tpvalid s
            then fold (\<lambda>j so. Option.bind so (cleanup_interface t j)) [0..<TP_MAX_INTERFACE] (Some s)
            else Some s))"

text \<open>The published index: what each interface's table in shared memory holds. \<open>addr\<close> is its address,
  not positive where the node has none.\<close>

definition update_interface ::
  "(nat \<Rightarrow> int) \<Rightarrow> nat \<Rightarrow> tpserver \<times> (nat \<Rightarrow> nat list) \<Rightarrow> (tpserver \<times> (nat \<Rightarrow> nat list)) option" where
  "update_interface addr j = (\<lambda>(s, rm).
     map_option (\<lambda>s.
       let len = TP_INTERFACE_TO_INDEX_LEN (int j);
           tp = map (\<lambda>e. if tpid e \<noteq> 0 then tpid e else 0) (take len (indx s ! j));
           s = MUTEX_RELEASE s
       in (s, if len = 0 \<or> addr j \<le> 0 then rm else rm(j := tp))) (MUTEX_GET s))"

definition updateTestpoints ::
  "(nat \<Rightarrow> int) \<Rightarrow> tpserver \<times> (nat \<Rightarrow> nat list) \<Rightarrow> (tpserver \<times> (nat \<Rightarrow> nat list)) option" where
  "updateTestpoints addr p =
     (if tpvalid (fst p)
      then fold (\<lambda>j po. Option.bind po (update_interface addr j)) [0..<TP_MAX_INTERFACE] (Some p) else Some p)"

text \<open>Whether the excitation engine of each interface is alive: its cycle count, read through a pointer
  that may be null, has changed.\<close>

record tpwriter =
  IPC_cycle :: "int option"
  alive :: bool
  oldCycleCount :: int

definition awgAlive :: "tpwriter list \<Rightarrow> tpwriter list" where
  "awgAlive = map (\<lambda>w.
     case IPC_cycle w of
       None \<Rightarrow> w\<lparr>alive := False\<rparr>
     | Some cycleCount \<Rightarrow> w\<lparr>alive := (cycleCount \<noteq> oldCycleCount w), oldCycleCount := cycleCount\<rparr>)"

end
