(* ===== verification/TestpointUsage.thy ===== *)
theory TestpointUsage
  imports Testpoint
begin

text \<open>
  The test point index as a table from test point numbers to users. The interface is a locale
  with the laws of adding and removing a user; the index of \<open>src/gds/testpoint_server.c\<close> is
  interpreted in it, and the behaviour of whole requests and clearings follows.
\<close>

section \<open>The table\<close>

fun remove_first :: "('u \<Rightarrow> bool) \<Rightarrow> 'u list \<Rightarrow> 'u list" where
  "remove_first P [] = []"
| "remove_first P (u # us) = (if P u then us else u # remove_first P us)"

lemma remove_first_append:
  "\<forall>u \<in> set us. \<not> P u \<Longrightarrow> remove_first P (us @ vs) = us @ remove_first P vs"
  by (induction us) auto

lemma remove_first_none: "\<forall>u \<in> set us. \<not> P u \<Longrightarrow> remove_first P us = us"
  by (induction us) auto

text \<open>Adding a user to a table may fail, for lack of room; numbers that are not allowed are passed
  over.\<close>

locale usage_table =
  fixes usage :: "'ix \<Rightarrow> nat \<Rightarrow> 'u list"
    and wf :: "'ix \<Rightarrow> bool"
    and allowed :: "nat \<Rightarrow> bool"
    and add :: "'u \<Rightarrow> nat \<Rightarrow> 'ix \<Rightarrow> 'ix option"
    and mine :: "int \<Rightarrow> 'u \<Rightarrow> bool"
    and sub :: "int \<Rightarrow> nat \<Rightarrow> 'ix \<Rightarrow> 'ix"
  assumes add_skip: "\<not> allowed tp \<Longrightarrow> add u tp ix = Some ix"
    and add_wf: "wf ix \<Longrightarrow> add u tp ix = Some ix' \<Longrightarrow> wf ix'"
    and add_usage: "wf ix \<Longrightarrow> allowed tp \<Longrightarrow> add u tp ix = Some ix' \<Longrightarrow>
      usage ix' = (usage ix)(tp := usage ix tp @ [u])"
    and sub_wf: "wf ix \<Longrightarrow> wf (sub c tp ix)"
    and sub_usage: "wf ix \<Longrightarrow> usage (sub c tp ix) = (usage ix)(tp := remove_first (mine c) (usage ix tp))"
begin

fun adds :: "'u \<Rightarrow> nat list \<Rightarrow> 'ix \<Rightarrow> 'ix option" where
  "adds u [] ix = Some ix"
| "adds u (tp # tps) ix = Option.bind (add u tp ix) (adds u tps)"

lemma adds_usage:
  assumes "wf ix" "adds u tps ix = Some ix'"
  shows "wf ix' \<and> (\<forall>tp. usage ix' tp = usage ix tp @ (if allowed tp then replicate (count_list tps tp) u else []))"
  using assms
proof (induction tps arbitrary: ix)
  case Nil
  then show ?case by simp
next
  case (Cons tp tps)
  then obtain i1 where i1: "add u tp ix = Some i1" "adds u tps i1 = Some ix'" by (auto simp: bind_eq_Some_conv)
  have IH: "wf ix'" "\<And>t. usage ix' t = usage i1 t @ (if allowed t then replicate (count_list tps t) u else [])"
    using Cons.IH [OF add_wf [OF Cons.prems(1) i1(1)] i1(2)] by auto
  show ?case
  proof (cases "allowed tp")
    case True
    then show ?thesis using IH add_usage [OF Cons.prems(1) True i1(1)] by auto
  next
    case False
    then show ?thesis using IH add_skip [OF False] i1(1) by auto
  qed
qed

lemma subs_usage:
  assumes "wf ix"
  shows "wf (fold (sub c) tps ix) \<and>
    (\<forall>tp. usage (fold (sub c) tps ix) tp = (remove_first (mine c) ^^ count_list tps tp) (usage ix tp))"
  using assms
proof (induction tps arbitrary: ix)
  case Nil
  then show ?case by simp
next
  case (Cons tp tps)
  show ?case
    using Cons.IH [OF sub_wf [OF Cons.prems]] sub_usage [OF Cons.prems] by (auto simp: funpow_Suc_right simp del: funpow.simps)
qed

lemma remove_first_replicate:
  assumes "mine c u" "\<forall>v \<in> set us. \<not> mine c v"
  shows "(remove_first (mine c) ^^ n) (us @ replicate n u) = us"
  using assms by (induction n) (auto simp: remove_first_append funpow_Suc_right simp del: funpow.simps)

text \<open>What a client adds and then takes back is gone, if it had nothing there before.\<close>

lemma adds_subs:
  assumes "wf ix" "adds u tps ix = Some ix'" "mine c u"
    and "\<And>tp. tp \<in> set tps \<Longrightarrow> allowed tp" "\<And>tp v. tp \<in> set tps \<Longrightarrow> v \<in> set (usage ix tp) \<Longrightarrow> \<not> mine c v"
  shows "usage (fold (sub c) tps ix') = usage ix"
proof
  fix tp
  have ix': "wf ix'" "usage ix' tp = usage ix tp @ (if allowed tp then replicate (count_list tps tp) u else [])"
    using adds_usage [OF assms(1,2)] by auto
  show "usage (fold (sub c) tps ix') tp = usage ix tp"
  proof (cases "tp \<in> set tps")
    case True
    then show ?thesis
      using subs_usage [OF ix'(1), of c tps] ix'(2) assms(3-5) remove_first_replicate [OF assms(3)] by simp
  next
    case False
    then show ?thesis using subs_usage [OF ix'(1), of c tps] ix'(2) by (simp add: count_list_0_iff)
  qed
qed

end

section \<open>The index of one interface\<close>

definition entry_ok :: "nat \<Rightarrow> tpEntry \<Rightarrow> bool" where
  "entry_ok i e \<longleftrightarrow> (if tpid e = 0 then users e = []
     else users e \<noteq> [] \<and> length (users e) \<le> TP_MAX_USER \<and> tpinterface (tpid e) = Some i)"

definition entries_ok :: "nat \<Rightarrow> tpEntry list \<Rightarrow> bool" where
  "entries_ok i es \<longleftrightarrow> length es = TP_MAX_INDEX \<and> (\<forall>j < length es. entry_ok i (es ! j)) \<and>
     (\<forall>a < length es. \<forall>b < length es. tpid (es ! a) = tpid (es ! b) \<and> tpid (es ! a) \<noteq> 0 \<longrightarrow> a = b)"

definition users_in :: "nat \<Rightarrow> tpEntry list \<Rightarrow> tpUsage list" where
  "users_in tp es = (case find (\<lambda>e. tpid e = tp) es of None \<Rightarrow> [] | Some e \<Rightarrow> users e)"

lemma entries_ok_inj:
  assumes "entries_ok i es" "a < length es" "b < length es" "tpid (es ! a) = tpid (es ! b)" "tpid (es ! a) \<noteq> 0"
  shows "a = b"
  using assms unfolding entries_ok_def by blast

lemma users_in_at:
  assumes "entries_ok i es" "j < length es" "tpid (es ! j) = tp" "tp \<noteq> 0"
  shows "users_in tp es = users (es ! j)"
proof -
  have "find (\<lambda>e. tpid e = tp) es = Some (es ! j)"
    unfolding find_Some_iff using assms unfolding entries_ok_def by (metis order.strict_trans less_irrefl)
  then show ?thesis by (simp add: users_in_def)
qed

lemma users_in_none: "(\<And>j. j < length es \<Longrightarrow> tpid (es ! j) \<noteq> tp) \<Longrightarrow> users_in tp es = []"
  by (cases "find (\<lambda>e. tpid e = tp) es") (auto simp: users_in_def find_Some_iff)

lemma users_in_empty: "entries_ok i es \<Longrightarrow> tpinterface tp \<noteq> Some i \<Longrightarrow> tp \<noteq> 0 \<Longrightarrow> users_in tp es = []"
  by (rule users_in_none) (auto simp: entries_ok_def entry_ok_def split: if_splits)

lemma entries_ok_update:
  assumes "entries_ok i es" "entry_ok i e" "j < length es"
    and "tpid e = 0 \<or> (\<forall>b < length es. b \<noteq> j \<longrightarrow> tpid (es ! b) \<noteq> tpid e)"
  shows "entries_ok i (es[j := e])"
  unfolding entries_ok_def
proof (intro conjI allI impI)
  show "length (es[j := e]) = TP_MAX_INDEX" using assms(1) by (simp add: entries_ok_def)
  show "entry_ok i (es[j := e] ! k)" if "k < length (es[j := e])" for k
    using that assms(1,2) by (cases "k = j") (simp_all add: entries_ok_def)
  show "a = b" if "a < length (es[j := e])" "b < length (es[j := e])"
    "tpid (es[j := e] ! a) = tpid (es[j := e] ! b) \<and> tpid (es[j := e] ! a) \<noteq> 0" for a b
    using that assms(3,4) entries_ok_inj [OF assms(1), of a b] by (auto simp: nth_list_update split: if_splits)
qed

lemma users_in_update:
  assumes "entries_ok i es" "entries_ok i (es[j := e])" "j < length es" "tp \<noteq> 0"
  shows "users_in tp (es[j := e]) =
    (if tpid e = tp then users e else if tpid (es ! j) = tp then [] else users_in tp es)"
proof (cases "\<exists>b < length es. tpid (es[j := e] ! b) = tp")
  case True
  then obtain b where b: "b < length es" "tpid (es[j := e] ! b) = tp" by blast
  have at: "users_in tp (es[j := e]) = users (es[j := e] ! b)" using users_in_at [OF assms(2) _ b(2) assms(4)] b(1) by simp
  show ?thesis
  proof (cases "b = j")
    case True
    then show ?thesis using at b assms(3) by simp
  next
    case False
    then have "tpid (es ! b) = tp" using b by simp
    moreover have "tpid e \<noteq> tp"
      using entries_ok_inj [OF assms(2), of b j] assms(3,4) b False by auto
    moreover have "tpid (es ! j) \<noteq> tp"
      using entries_ok_inj [OF assms(1), of b j] assms(3,4) b(1) False calculation(1) by auto
    ultimately show ?thesis using at False users_in_at [OF assms(1) b(1) _ assms(4)] by simp
  qed
next
  case False
  then have no: "tpid e \<noteq> tp" "\<And>b. b < length es \<Longrightarrow> b \<noteq> j \<Longrightarrow> tpid (es ! b) \<noteq> tp"
    using assms(3) by (auto simp: nth_list_update)
  have "users_in tp (es[j := e]) = []" using False by (intro users_in_none) auto
  moreover have "tpid (es ! j) \<noteq> tp \<Longrightarrow> users_in tp es = []" using no(2) by (intro users_in_none) metis
  ultimately show ?thesis using no(1) by simp
qed

section \<open>Slots\<close>

lemma find_slot_present:
  assumes "m < length es" "tpid (es ! m) = tp" "\<And>b. b < m \<Longrightarrow> tpid (es ! b) \<noteq> tp"
  shows "find_slot tp es j k = (if length (users (es ! m)) < TP_MAX_USER then -2 else -1, j + m)"
  using assms
proof (induction es arbitrary: j k m)
  case Nil
  then show ?case by simp
next
  case (Cons e es)
  show ?case
  proof (cases m)
    case 0
    then show ?thesis using Cons.prems by simp
  next
    case (Suc n)
    have "tpid e \<noteq> tp" using Cons.prems(3) [of 0] Suc by simp
    moreover have "n < length es" "tpid (es ! n) = tp" "\<And>b. b < n \<Longrightarrow> tpid (es ! b) \<noteq> tp"
      using Cons.prems Suc Cons.prems(3) [of "Suc b" for b] by auto
    ultimately show ?thesis using Cons.IH [of n] Suc by simp
  qed
qed

lemma find_slot_absent:
  assumes "\<And>b. b < length es \<Longrightarrow> tpid (es ! b) \<noteq> tp" "find_slot tp es j k = (k', j')"
  shows "if k \<noteq> -1 then k' = k
    else if \<exists>m < length es. tpid (es ! m) = 0 then \<exists>m < length es. tpid (es ! m) = 0 \<and> k' = int (j + m)
    else k' = -1"
  using assms
proof (induction es arbitrary: j k)
  case Nil
  then show ?case by simp
next
  case (Cons e es)
  have ne: "tpid e \<noteq> tp" "\<And>b. b < length es \<Longrightarrow> tpid (es ! b) \<noteq> tp"
    using Cons.prems(1) [of 0] Cons.prems(1) [of "Suc b" for b] by auto
  note IH = Cons.IH [OF ne(2)]
  show ?case
  proof (cases "k = -1 \<and> tpid e = 0")
    case True
    then have "k' = int j" using IH [of "j + 1" "int j"] Cons.prems(2) ne(1) by simp
    then show ?thesis using True by (auto intro!: exI [of _ 0])
  next
    case False
    have kk: "(if k = -1 \<and> tpid e = 0 then int j else k) = k" by (rule if_not_P [OF False])
    have "find_slot tp es (j + 1) k = (k', j')"
      using Cons.prems(2) ne(1) by (simp only: find_slot.simps if_False kk)
    from IH [OF _ this] False show ?thesis
      by (auto simp: Ex_less_Suc2 split: if_splits)
  qed
qed

section \<open>Requests and clearings of one number\<close>

definition index_ok :: "tpEntry list list \<Rightarrow> bool" where
  "index_ok ix \<longleftrightarrow> length ix = TP_MAX_INTERFACE \<and> (\<forall>i < TP_MAX_INTERFACE. entries_ok i (ix ! i))"

definition users_of :: "tpEntry list list \<Rightarrow> nat \<Rightarrow> tpUsage list" where
  "users_of ix tp = (case tpinterface tp of None \<Rightarrow> [] | Some i \<Rightarrow> users_in tp (ix ! i))"

definition requestable :: "tpenv \<Rightarrow> nat \<Rightarrow> bool" where
  "requestable env tp \<longleftrightarrow> known_tp env tp \<and> tpinterface tp \<noteq> None"

lemma tpinterface_Some: "tpinterface tp = Some i \<Longrightarrow> i < TP_MAX_INTERFACE \<and> tp \<noteq> 0"
  by (auto simp: tpinterface_def TP_ID_TO_INTERFACE_def Let_def split: if_splits)

lemma index_len [simp]: "i < TP_MAX_INTERFACE \<Longrightarrow> TP_INTERFACE_TO_INDEX_LEN (int i) = TP_MAX_INDEX"
  by (auto simp: TP_INTERFACE_TO_INDEX_LEN_def)

lemma entries_length: "entries_ok i es \<Longrightarrow> length es = TP_MAX_INDEX"
  by (simp add: entries_ok_def)

text \<open>Where a number is in the index, or that it is not.\<close>

lemma entry_cases:
  assumes "entries_ok i es" "tp \<noteq> 0"
  obtains (present) m where "m < length es" "tpid (es ! m) = tp" "\<And>b. b < length es \<Longrightarrow> b \<noteq> m \<Longrightarrow> tpid (es ! b) \<noteq> tp"
  | (absent) "\<And>b. b < length es \<Longrightarrow> tpid (es ! b) \<noteq> tp"
  using entries_ok_inj [OF assms(1)] assms(2) by metis

lemma request_entries:
  assumes "entries_ok i es" "tpinterface tp = Some i" "find_slot tp es 0 (-1) = (k, j)"
  obtains (join) "k = -2" "j < length es" "tpid (es ! j) = tp" "length (users (es ! j)) < TP_MAX_USER"
      "\<And>b. b < length es \<Longrightarrow> b \<noteq> j \<Longrightarrow> tpid (es ! b) \<noteq> tp"
    | (fresh) m where "k = int m" "m < length es" "tpid (es ! m) = 0" "\<And>b. b < length es \<Longrightarrow> tpid (es ! b) \<noteq> tp"
    | (full) "k = -1"
proof -
  have tp: "tp \<noteq> 0" using tpinterface_Some [OF assms(2)] by simp
  show thesis
  proof (rule entry_cases [OF assms(1) tp])
    fix m
    assume m: "m < length es" "tpid (es ! m) = tp" "\<And>b. b < length es \<Longrightarrow> b \<noteq> m \<Longrightarrow> tpid (es ! b) \<noteq> tp"
    have "find_slot tp es 0 (-1) = (if length (users (es ! m)) < TP_MAX_USER then -2 else -1, 0 + m)"
      using m by (intro find_slot_present) auto
    then show thesis using assms(3) join full m by (auto split: if_splits)
  next
    assume no: "\<And>b. b < length es \<Longrightarrow> tpid (es ! b) \<noteq> tp"
    from find_slot_absent [OF no assms(3)] show thesis using fresh full no by (auto split: if_splits)
  qed
qed

lemma index_ok_update:
  assumes "index_ok ix" "i < TP_MAX_INTERFACE" "entries_ok i es"
  shows "index_ok (ix[i := es])"
  using assms by (auto simp: index_ok_def nth_list_update)

lemma users_of_update:
  assumes "index_ok ix" "tpinterface tp = Some i" "entries_ok i es"
    and "\<And>t. t \<noteq> tp \<Longrightarrow> t \<noteq> 0 \<Longrightarrow> users_in t es = users_in t (ix ! i)"
  shows "users_of (ix[i := es]) = (users_of ix)(tp := users_in tp es)"
proof
  fix t
  have i: "i < length ix" using tpinterface_Some [OF assms(2)] assms(1) by (simp add: index_ok_def)
  show "users_of (ix[i := es]) t = ((users_of ix)(tp := users_in tp es)) t"
    using assms(2,4) i tpinterface_Some [of t]
    by (auto simp: users_of_def nth_list_update split: option.splits)
qed

lemma request_one_ok:
  assumes "index_ok ix" "requestable env tp" "request_one env u tp ix = Some ix'"
  shows "index_ok ix' \<and> users_of ix' = (users_of ix)(tp := users_of ix tp @ [u])"
proof -
  obtain i where i: "tpinterface tp = Some i" "i < TP_MAX_INTERFACE" "tp \<noteq> 0"
    using assms(2) tpinterface_Some by (auto simp: requestable_def)
  let ?es = "ix ! i"
  have ok: "entries_ok i ?es" using assms(1) i(2) by (simp add: index_ok_def)
  obtain k j where k: "find_slot tp ?es 0 (-1) = (k, j)" by fastforce
  have known: "known_tp env tp" using assms(2) by (simp add: requestable_def)
  have upd: "index_ok ix' \<and> users_of ix' = (users_of ix)(tp := users_of ix tp @ [u])"
    if "m < length ?es" "ix' = ix[i := ?es[m := e]]" "entries_ok i (?es[m := e])" "tpid e = tp" "users e = users_in tp ?es @ [u]"
      "tpid (?es ! m) \<in> {0, tp}" for m e
  proof -
    have "users_in t (?es[m := e]) = (if t = tp then users_in tp ?es @ [u] else users_in t ?es)" if "t \<noteq> 0" for t
      using users_in_update [OF ok \<open>entries_ok i (?es[m := e])\<close> \<open>m < length ?es\<close> that] that
        \<open>tpid e = tp\<close> \<open>users e = _\<close> \<open>tpid (?es ! m) \<in> _\<close> by auto
    then show ?thesis
      using that(2,3) users_of_update [OF assms(1) i(1), of "?es[m := e]"] index_ok_update [OF assms(1) i(2)] i
      by (auto simp: users_of_def)
  qed
  show ?thesis using k
  proof (cases rule: request_entries [OF ok i(1) k, case_names join fresh full])
    case join
    let ?e = "(?es ! j)\<lparr>users := users (?es ! j) @ [u]\<rparr>"
    have "entry_ok i (?es ! j)" using ok join by (simp add: entries_ok_def)
    then have "entry_ok i ?e" using join i by (auto simp: entry_ok_def)
    then have "entries_ok i (?es[j := ?e])" using join ok by (intro entries_ok_update) auto
    moreover have "ix' = ix[i := ?es[j := ?e]]"
      using assms(3) known i k join(1) entries_length [OF ok] by (simp add: request_one_def Let_def)
    ultimately show ?thesis using upd [of j ?e] join users_in_at [OF ok join(2,3) i(3)] by simp
  next
    case (fresh m)
    let ?e = "\<lparr>tpid = tp, users = [u], tpname = take (CHNNAME_SIZE env - 1) (the (tplookup env tp))\<rparr>"
    have "entries_ok i (?es[m := ?e])" using fresh i ok by (intro entries_ok_update) (auto simp: entry_ok_def)
    moreover have "ix' = ix[i := ?es[m := ?e]]"
      using assms(3) known i k fresh(1) entries_length [OF ok] by (simp add: request_one_def Let_def)
    ultimately show ?thesis using upd [of m ?e] fresh users_in_none [OF fresh(4)] by simp
  next
    case full
    then show ?thesis using assms(3) known i k entries_length [OF ok] by (simp add: request_one_def)
  qed
qed

lemma request_one_skip: "\<not> requestable env tp \<Longrightarrow> request_one env u tp ix = Some ix"
  by (auto simp: request_one_def requestable_def split: option.splits)

section \<open>Clearing one number\<close>

definition owned :: "int \<Rightarrow> tpUsage \<Rightarrow> bool" where
  "owned cid u \<longleftrightarrow> clntId u = cid \<and> usrTimeout u \<le> 0"

lemma find_user_remove:
  "let n = find_user cid us k in k \<le> n \<and> n \<le> k + length us \<and>
     (if n < k + length us then take (n - k) us @ drop (n - k + 1) us = remove_first (owned cid) us
      else remove_first (owned cid) us = us)"
proof (induction us arbitrary: k)
  case Nil
  then show ?case by simp
next
  case (Cons u us)
  show ?case
  proof (cases "clntId u = cid \<and> usrTimeout u \<le> 0")
    case True
    then show ?thesis by (simp add: owned_def)
  next
    case False
    then have "find_user cid (u # us) k = find_user cid us (k + 1)" by auto
    moreover obtain d where "find_user cid us (k + 1) = k + 1 + d"
      using Cons [of "k + 1"] by (auto simp: Let_def dest: le_Suc_ex)
    ultimately show ?thesis using Cons [of "k + 1"] False by (auto simp: Let_def owned_def split: if_splits)
  qed
qed

definition clear_entry :: "int \<Rightarrow> tpEntry \<Rightarrow> tpEntry" where
  "clear_entry cid e = (let k = find_user cid (users e) 0 in if k < length (users e) then remove_user k e else e)"

lemma clear_entry_props:
  assumes "entry_ok i e"
  shows "entry_ok i (clear_entry cid e)" "users (clear_entry cid e) = remove_first (owned cid) (users e)"
    "tpid (clear_entry cid e) \<in> {0, tpid e}" "tpid (clear_entry cid e) = 0 \<longleftrightarrow> users (clear_entry cid e) = []"
proof -
  note fu = find_user_remove [of cid "users e" 0, unfolded Let_def]
  show us: "users (clear_entry cid e) = remove_first (owned cid) (users e)"
    using fu by (auto simp: clear_entry_def Let_def remove_user_def split: if_splits)
  show "tpid (clear_entry cid e) \<in> {0, tpid e}"
    by (simp add: clear_entry_def Let_def remove_user_def)
  show zero: "tpid (clear_entry cid e) = 0 \<longleftrightarrow> users (clear_entry cid e) = []"
    using assms by (auto simp: clear_entry_def Let_def remove_user_def entry_ok_def split: if_splits)
  have "length (remove_first P vs) \<le> length vs" for P and vs :: "tpUsage list" by (induction vs) auto
  from this [of "owned cid" "users e"] show "entry_ok i (clear_entry cid e)"
    using assms zero us \<open>tpid (clear_entry cid e) \<in> {0, tpid e}\<close> by (auto simp: entry_ok_def split: if_splits)
qed

lemma clear_in_absent: "(\<And>b. b < length es \<Longrightarrow> tpid (es ! b) \<noteq> tp) \<Longrightarrow> clear_in cid tp es = es"
proof (induction es)
  case Nil
  then show ?case by simp
next
  case (Cons e es)
  then show ?case using Cons.prems [of 0] Cons.prems [of "Suc b" for b] by auto
qed

lemma clear_in_present:
  "m < length es \<Longrightarrow> tpid (es ! m) = tp \<Longrightarrow> (\<And>b. b < m \<Longrightarrow> tpid (es ! b) \<noteq> tp) \<Longrightarrow>
     clear_in cid tp es = es[m := clear_entry cid (es ! m)]"
proof (induction es arbitrary: m)
  case Nil
  then show ?case by simp
next
  case (Cons e es)
  show ?case
  proof (cases m)
    case 0
    then show ?thesis using Cons.prems by (simp add: clear_entry_def Let_def)
  next
    case (Suc n)
    then have "tpid e \<noteq> tp" "\<And>b. b < n \<Longrightarrow> tpid (es ! b) \<noteq> tp"
      using Cons.prems(3) [of 0] Cons.prems(3) [of "Suc b" for b] by auto
    then show ?thesis using Cons.IH [of n] Cons.prems(1,2) Suc by simp
  qed
qed

lemma clear_one_ok:
  assumes "index_ok ix"
  shows "index_ok (clear_one cid tp ix) \<and>
    users_of (clear_one cid tp ix) = (users_of ix)(tp := remove_first (owned cid) (users_of ix tp))"
proof (cases "tpinterface tp")
  case None
  then show ?thesis using assms by (auto simp: clear_one_def users_of_def)
next
  case (Some i)
  have i: "i < TP_MAX_INTERFACE" "tp \<noteq> 0" using tpinterface_Some [OF Some] by auto
  let ?es = "ix ! i"
  have ok: "entries_ok i ?es" using assms i by (simp add: index_ok_def)
  have eq: "clear_one cid tp ix = ix[i := clear_in cid tp ?es]"
    using Some i entries_length [OF ok] by (simp add: clear_one_def)
  have "entries_ok i (clear_in cid tp ?es) \<and> users_in tp (clear_in cid tp ?es) = remove_first (owned cid) (users_in tp ?es) \<and>
    (\<forall>t. t \<noteq> tp \<longrightarrow> t \<noteq> 0 \<longrightarrow> users_in t (clear_in cid tp ?es) = users_in t ?es)"
  proof (rule entry_cases [OF ok i(2)])
    fix m
    assume m: "m < length ?es" "tpid (?es ! m) = tp" "\<And>b. b < length ?es \<Longrightarrow> b \<noteq> m \<Longrightarrow> tpid (?es ! b) \<noteq> tp"
    let ?e = "clear_entry cid (?es ! m)"
    have "entry_ok i (?es ! m)" using ok m(1) by (simp add: entries_ok_def)
    note ce = clear_entry_props [OF this, of cid]
    have new: "clear_in cid tp ?es = ?es[m := ?e]" using m by (intro clear_in_present) auto
    have ok': "entries_ok i (?es[m := ?e])" using ok m ce(1,3) by (intro entries_ok_update) auto
    have "users_in t (?es[m := ?e]) = (if t = tp then remove_first (owned cid) (users_in tp ?es) else users_in t ?es)"
      if "t \<noteq> 0" for t
      using users_in_update [OF ok ok' m(1) that] users_in_at [OF ok m(1,2) i(2)] ce m(2) that by auto
    then show ?thesis using new ok' i(2) by simp
  next
    assume no: "\<And>b. b < length ?es \<Longrightarrow> tpid (?es ! b) \<noteq> tp"
    then show ?thesis using clear_in_absent [OF no] users_in_none [OF no] ok by simp
  qed
  then show ?thesis
    unfolding eq using users_of_update [OF assms Some] index_ok_update [OF assms i(1)] Some by (simp add: users_of_def)
qed

text \<open>The index is such a table.\<close>

interpretation tpindex: usage_table users_of index_ok "requestable env" "request_one env" owned clear_one for env
proof
  show "\<not> requestable env tp \<Longrightarrow> request_one env u tp ix = Some ix" for tp u ix by (rule request_one_skip)
  show "index_ok ix \<Longrightarrow> request_one env u tp ix = Some ix' \<Longrightarrow> index_ok ix'" for ix u tp ix'
    using request_one_ok request_one_skip by (cases "requestable env tp") auto
  show "index_ok ix \<Longrightarrow> requestable env tp \<Longrightarrow> request_one env u tp ix = Some ix' \<Longrightarrow>
      users_of ix' = (users_of ix)(tp := users_of ix tp @ [u])" for ix u tp ix'
    using request_one_ok by blast
  show "index_ok ix \<Longrightarrow> index_ok (clear_one c tp ix)" for ix c tp using clear_one_ok by blast
  show "index_ok ix \<Longrightarrow> users_of (clear_one c tp ix) = (users_of ix)(tp := remove_first (owned c) (users_of ix tp))"
    for ix c tp using clear_one_ok by blast
qed

end
