(* ===== verification/TestpointServer.thy ===== *)
theory TestpointServer
  imports TestpointUsage
begin

text \<open>
  The behaviour of the test point manager as a whole: which requests come back, what they and the
  clearings do to the table of users, the invariant of the server over any sequence of remote
  procedures and scheduled tasks, the expiry of users and the published index.
\<close>

section \<open>Requests\<close>

abbreviation adds :: "tpenv \<Rightarrow> tpUsage \<Rightarrow> nat list \<Rightarrow> tpEntry list list \<Rightarrow> tpEntry list list option" where
  "adds env \<equiv> usage_table.adds (request_one env)"

lemma request_loop_adds:
  "request_loop env u tps i ix = (st, ix') \<Longrightarrow>
     (case adds env u tps ix of Some ix'' \<Rightarrow> st = 0 \<and> ix' = ix'' | None \<Rightarrow> st < 0)"
proof (induction tps arbitrary: i ix)
  case Nil
  then show ?case by simp
next
  case (Cons tp tps)
  show ?case
  proof (cases "request_one env u tp ix")
    case None
    then show ?thesis using Cons.prems by auto
  next
    case (Some ix1)
    then show ?thesis using Cons.IH [of "i + 1" ix1] Cons.prems by simp
  qed
qed

text \<open>A clearing blocks at the mutex when it is taken, so the preselection does not matter there and
  the procedures call each other as in the source.\<close>

lemma nested_clear: "locked s \<Longrightarrow> clear_call pre cid node tps s = clear_call pre' cid node tps s"
  by (simp add: clear_call_def MUTEX_GET_def)

lemma requesttp_recursion:
  "requesttp_1_svc env now cid node tps tmout r s =
     request_call (\<lambda>tps s. map_option snd (cleartp_1_svc env now cid node tps s)) env now cid node tps tmout r s"
proof -
  have "map_option snd (clear_call (\<lambda>_. None) cid node ts (s\<lparr>locked := True, indx := ix\<rparr>)) =
      map_option snd (cleartp_1_svc env now cid node ts (s\<lparr>locked := True, indx := ix\<rparr>))" for ts ix
    unfolding cleartp_1_svc_def by (intro arg_cong [where f = "map_option snd"] nested_clear) simp
  then show ?thesis
    by (simp add: requesttp_1_svc_def request_call_def MUTEX_GET_def Let_def split_def del: map_option_case)
qed

definition the_user :: "int \<Rightarrow> int \<Rightarrow> int \<Rightarrow> tpUsage" where
  "the_user now cid tmout = \<lparr>reqTime = now, usrTimeout = tmout, clntId = cid\<rparr>"

lemma requesttp_eq:
  assumes "\<not> locked s" "\<not> bad_node cid node s"
  shows "requesttp_1_svc env now cid node tps tmout r s =
    (if daq_overload env tps (indx s) then Some (r\<lparr>status := 0\<rparr>, s)
     else map_option (\<lambda>ix. (activation now (r\<lparr>status := 0\<rparr>), s\<lparr>indx := ix\<rparr>))
            (adds env (the_user now cid tmout) tps (indx s)))"
proof -
  have unlock: "s\<lparr>locked := False\<rparr> = s" "s\<lparr>locked := False, indx := ix\<rparr> = s\<lparr>indx := ix\<rparr>" for ix
    using assms(1) by simp_all
  obtain st ix where loop: "request_loop env (the_user now cid tmout) tps 0 (indx s) = (st, ix)" by fastforce
  have bad: "\<not> bad_node cid node (s\<lparr>locked := True, indx := ix\<rparr>)" using assms(2) by (simp add: bad_node_def)
  show ?thesis
  proof (cases "adds env (the_user now cid tmout) tps (indx s)")
    case None
    then show ?thesis
      using request_loop_adds [OF loop] loop assms bad
      by (simp add: requesttp_1_svc_def request_call_def MUTEX_GET_def MUTEX_RELEASE_def clear_call_def the_user_def unlock)
  next
    case (Some ix')
    then show ?thesis
      using request_loop_adds [OF loop] loop assms
      by (simp add: requesttp_1_svc_def request_call_def MUTEX_GET_def MUTEX_RELEASE_def the_user_def unlock)
  qed
qed

text \<open>C33: A request that cannot be met hangs the test point manager. From any idle, well-formed server
  and for a request to its node that the data rate allows, the call returns if and only if every number it names
  finds a slot and room for one more user; otherwise the clearing of what had been set waits
  for ever for the mutex that the request itself holds.\<close>

theorem unmet_request_never_returns:
  assumes "\<not> locked s" "\<not> bad_node cid node s" "\<not> daq_overload env tps (indx s)"
  shows "requesttp_1_svc env now cid node tps tmout r s = None \<longleftrightarrow>
    fst (request_loop env \<lparr>reqTime = now, usrTimeout = tmout, clntId = cid\<rparr> tps 0 (indx s)) < 0"
proof -
  obtain st ix where loop: "request_loop env (the_user now cid tmout) tps 0 (indx s) = (st, ix)" by fastforce
  show ?thesis
    using request_loop_adds [OF loop] loop requesttp_eq [OF assms(1,2)] assms(3)
    by (simp add: the_user_def split: option.splits)
qed

text \<open>A server with one test point in use, by as many users as an entry holds.\<close>

definition ex_env :: tpenv where
  "ex_env = \<lparr>tplookup = (\<lambda>tp. if tp < 20 then Some ''X1'' else None), CHNNAME_SIZE = 60, curDaqBlockSize = 0, sys_freq_mult = 1\<rparr>"

definition ex_server :: "nat \<Rightarrow> tpserver" where
  "ex_server n = \<lparr>locked = False, tpvalid = True, tpnode = 5, preselect = replicate 20 0,
     indx = [\<lparr>tpid = 7, users = replicate n \<lparr>reqTime = 0, usrTimeout = 0, clntId = 3\<rparr>, tpname = ''X1''\<rparr> # replicate 63 no_entry,
       replicate 64 no_entry, replicate 64 no_entry, replicate 64 no_entry],
     tpclnts = replicate 1000 \<lparr>clvalid = 0, lastTime = 0\<rparr>, tpclntID = 1001\<rparr>"

lemma ex_server_free: "\<not> locked (ex_server n) \<and> \<not> bad_node 3 5 (ex_server n)"
  by (simp add: ex_server_def bad_node_def)

lemma ex_server_7: "known_tp ex_env 7" "tpinterface 7 = Some 0"
  by (simp_all add: known_tp_def ex_env_def tpinterface_def TP_ID_TO_INTERFACE_def)

lemma ex_server_light: "\<not> daq_overload ex_env [7] (indx (ex_server n))"
proof -
  have "projected ex_env [7] (indx (ex_server n)) = 1"
    by (simp add: projected_def ex_server_7 ex_server_def TP_INTERFACE_TO_INDEX_LEN_def no_entry_def upt_rec numeral_2_eq_2)
  then show ?thesis by (simp add: daq_overload_def ex_env_def)
qed

theorem unmet_request_never_returns_witness:
  "requesttp_1_svc ex_env 9 3 5 [7] 0 \<lparr>status = 0, rtime = 0, repoch = 0\<rparr> (ex_server 1000) = None"
proof -
  have "fst (request_loop ex_env \<lparr>reqTime = 9, usrTimeout = 0, clntId = 3\<rparr> [7] 0 (indx (ex_server 1000))) < 0"
    by (simp add: request_one_def ex_server_7 ex_server_def TP_INTERFACE_TO_INDEX_LEN_def Let_def)
  then show ?thesis
    using unmet_request_never_returns [of "ex_server 1000" 3 5 ex_env "[7]"] ex_server_free ex_server_light by simp
qed

section \<open>What a request and a clearing do\<close>

definition server_ok :: "tpserver \<Rightarrow> bool" where
  "server_ok s \<longleftrightarrow> \<not> locked s \<and> index_ok (indx s) \<and> length (tpclnts s) = TP_MAX_USER \<and>
     (\<forall>c \<in> set (tpclnts s). 0 \<le> clvalid c \<and> clvalid c \<le> KEEP_AROUND) \<and> int TP_MAX_USER < tpclntID s"

text \<open>C22: A request that comes back has been granted. When \<open>requesttp_1_svc\<close> returns for a node of the
  server and within the data rate, the status is 0, every known test point number it names has
  gained one user per mention with the client's handle and timeout, no other
  user has changed, nothing else in the server has, and the activation time is one or two seconds after
  the current second.\<close>

theorem request_grants_users:
  assumes "server_ok s" "\<not> bad_node cid node s" "\<not> daq_overload env tps (indx s)"
    and "requesttp_1_svc env now cid node tps tmout r s = Some (r', s')"
  shows "status r' = 0 \<and> now div ONESEC < rtime r' \<and> rtime r' \<le> now div ONESEC + 2 \<and>
    s' = s\<lparr>indx := indx s'\<rparr> \<and> index_ok (indx s') \<and>
    (\<forall>tp. users_of (indx s') tp = users_of (indx s) tp @
       (if requestable env tp
        then replicate (count_list tps tp) \<lparr>reqTime = now, usrTimeout = tmout, clntId = cid\<rparr> else []))"
proof -
  have ok: "\<not> locked s" "index_ok (indx s)" using assms(1) by (simp_all add: server_ok_def)
  obtain ix where ix: "adds env (the_user now cid tmout) tps (indx s) = Some ix"
    "r' = activation now (r\<lparr>status := 0\<rparr>)" "s' = s\<lparr>indx := ix\<rparr>"
    using assms(3,4) requesttp_eq [OF ok(1) assms(2)] by auto
  show ?thesis
    using tpindex.adds_usage [OF ok(2) ix(1)] ix(2,3) by (auto simp: activation_def the_user_def)
qed

lemma ex_server_ok: "0 < n \<Longrightarrow> n \<le> 1000 \<Longrightarrow> server_ok (ex_server n)"
proof -
  assume n: "0 < n" "n \<le> 1000"
  have "entries_ok i (replicate 64 no_entry)" for i
    by (simp add: entries_ok_def entry_ok_def no_entry_def)
  moreover have "entries_ok 0 (\<lparr>tpid = 7, users = replicate n \<lparr>reqTime = 0, usrTimeout = 0, clntId = 3\<rparr>, tpname = ''X1''\<rparr> # replicate 63 no_entry)"
    using n unfolding entries_ok_def
    by (auto simp: entry_ok_def no_entry_def ex_server_7 nth_Cons' split: if_splits)
  ultimately show ?thesis
    by (auto simp: server_ok_def ex_server_def index_ok_def less_Suc_eq numeral_eq_Suc)
qed

lemma ex_server_request:
  "\<exists>s'. requesttp_1_svc ex_env 9 4 5 [7] 0 \<lparr>status = 0, rtime = 0, repoch = 0\<rparr> (ex_server 1) = Some (\<lparr>status = 0, rtime = 1, repoch = 0\<rparr>, s')"
proof -
  have free: "\<not> locked (ex_server 1)" "\<not> bad_node 4 5 (ex_server 1)"
    by (simp_all add: ex_server_def bad_node_def)
  have "\<exists>ix. adds ex_env u [7] (indx (ex_server 1)) = Some ix" for u
    by (simp add: request_one_def ex_server_7 ex_server_def TP_INTERFACE_TO_INDEX_LEN_def Let_def)
  then show ?thesis
    using requesttp_eq [OF free] ex_server_light [of 1] by (auto simp: activation_def)
qed

theorem request_grants_users_witness:
  "\<exists>r' s'. requesttp_1_svc ex_env 9 4 5 [7] 0 \<lparr>status = 0, rtime = 0, repoch = 0\<rparr> (ex_server 1) = Some (r', s') \<and>
     users_of (indx s') 7 = users_of (indx (ex_server 1)) 7 @ [\<lparr>reqTime = 9, usrTimeout = 0, clntId = 4\<rparr>]"
proof -
  obtain r' s' where run: "requesttp_1_svc ex_env 9 4 5 [7] 0 \<lparr>status = 0, rtime = 0, repoch = 0\<rparr> (ex_server 1) = Some (r', s')"
    using ex_server_request by blast
  have "\<not> bad_node 4 5 (ex_server 1)" by (simp add: ex_server_def bad_node_def)
  from request_grants_users [OF ex_server_ok this ex_server_light run]
  have "users_of (indx s') 7 = users_of (indx (ex_server 1)) 7 @ [\<lparr>reqTime = 9, usrTimeout = 0, clntId = 4\<rparr>]"
    using ex_server_7 by (simp add: requestable_def)
  with run show ?thesis by blast
qed

text \<open>C34: A request beyond the data rate is dropped without a word: the caller gets status 0, as for
  success, its result carries whatever activation time it held before, and the server has
  not changed.\<close>

theorem overload_reports_success:
  assumes "\<not> locked s" "\<not> bad_node cid node s" "daq_overload env tps (indx s)"
  shows "requesttp_1_svc env now cid node tps tmout r s = Some (r\<lparr>status := 0\<rparr>, s)"
  using requesttp_eq [OF assms(1,2)] assms(3) by simp

lemma ex_server_heavy: "daq_overload (ex_env\<lparr>curDaqBlockSize := 0x3fffff\<rparr>) [7] (indx (ex_server 1))"
proof -
  have "projected (ex_env\<lparr>curDaqBlockSize := 0x3fffff\<rparr>) [7] (indx (ex_server 1)) = 1"
    using ex_server_7
    by (simp add: projected_def known_tp_def ex_server_def TP_INTERFACE_TO_INDEX_LEN_def no_entry_def upt_rec numeral_2_eq_2)
  then show ?thesis by (simp add: daq_overload_def ex_env_def)
qed

theorem overload_reports_success_witness:
  "requesttp_1_svc (ex_env\<lparr>curDaqBlockSize := 0x3fffff\<rparr>) 9 3 5 [7] 0 \<lparr>status = 8, rtime = 2, repoch = 3\<rparr> (ex_server 1) =
     Some (\<lparr>status = 0, rtime = 2, repoch = 3\<rparr>, ex_server 1)"
  using overload_reports_success [of "ex_server 1" 3 5 "ex_env\<lparr>curDaqBlockSize := 0x3fffff\<rparr>" "[7]"]
    ex_server_free [of 1] ex_server_heavy by simp

lemma clear_loop_fold: "TP_CLEAR_ALL \<notin> set tps \<Longrightarrow> clear_loop cid tps ix = (False, fold (clear_one cid) tps ix)"
  by (induction tps arbitrary: ix) auto

lemma cleartp_eq:
  assumes "\<not> locked s" "\<not> bad_node cid node s" "TP_CLEAR_ALL \<notin> set tps"
  shows "cleartp_1_svc env now cid node tps s = Some (0, s\<lparr>indx := fold (clear_one cid) tps (indx s)\<rparr>)"
  using assms
  by (simp add: cleartp_1_svc_def clear_call_def MUTEX_GET_def MUTEX_RELEASE_def clear_loop_fold)

text \<open>C13: Clearing undoes a request. When a client's request without timeout has been granted for known
  test points of which the client held none, then its clearing of the same numbers returns, and every
  test point has exactly the users it had before the request.\<close>

theorem clear_undoes_request:
  assumes "server_ok s" "\<not> bad_node cid node s" "\<not> daq_overload env tps (indx s)" "tmout \<le> 0"
    and "\<forall>tp \<in> set tps. requestable env tp" "\<forall>tp \<in> set tps. \<forall>u \<in> set (users_of (indx s) tp). \<not> owned cid u"
    and "requesttp_1_svc env now cid node tps tmout r s = Some (r', s')"
  shows "\<exists>s''. cleartp_1_svc env now' cid node tps s' = Some (0, s'') \<and> users_of (indx s'') = users_of (indx s)"
proof -
  have ok: "\<not> locked s" "index_ok (indx s)" using assms(1) by (simp_all add: server_ok_def)
  obtain ix where ix: "adds env (the_user now cid tmout) tps (indx s) = Some ix" "s' = s\<lparr>indx := ix\<rparr>"
    using assms(3,7) requesttp_eq [OF ok(1) assms(2)] by auto
  have "owned cid (the_user now cid tmout)" using assms(4) by (simp add: owned_def the_user_def)
  from tpindex.adds_subs [OF ok(2) ix(1) this] assms(5,6)
  have undo: "users_of (fold (clear_one cid) tps ix) = users_of (indx s)" by blast
  have "TP_CLEAR_ALL \<notin> set tps" using assms(5) by (auto simp: requestable_def known_tp_def)
  moreover have "\<not> bad_node cid node s'" "\<not> locked s'" using assms(2) ok ix(2) by (simp_all add: bad_node_def)
  ultimately show ?thesis using undo ix(2) by (simp add: cleartp_eq)
qed

theorem clear_undoes_request_witness:
  "\<exists>r' s' s''. requesttp_1_svc ex_env 9 4 5 [7] 0 \<lparr>status = 0, rtime = 0, repoch = 0\<rparr> (ex_server 1) = Some (r', s') \<and>
     cleartp_1_svc ex_env 10 4 5 [7] s' = Some (0, s'') \<and> users_of (indx s'') = users_of (indx (ex_server 1))"
proof -
  obtain r' s' where run: "requesttp_1_svc ex_env 9 4 5 [7] 0 \<lparr>status = 0, rtime = 0, repoch = 0\<rparr> (ex_server 1) = Some (r', s')"
    using ex_server_request by blast
  have "\<not> bad_node 4 5 (ex_server 1)" by (simp add: ex_server_def bad_node_def)
  moreover have "users_of (indx (ex_server 1)) 7 = [\<lparr>reqTime = 0, usrTimeout = 0, clntId = 3\<rparr>]"
    by (simp add: users_of_def ex_server_7 users_in_def ex_server_def)
  ultimately show ?thesis
    using clear_undoes_request [OF ex_server_ok _ ex_server_light _ _ _ run, of 10] run ex_server_7
    by (auto simp: requestable_def owned_def)
qed

section \<open>Expiry\<close>

text \<open>What one pass over the users of an entry leaves: after a removal the next user is passed over.\<close>

fun sweep :: "int \<Rightarrow> tpUsage list \<Rightarrow> tpUsage list" where
  "sweep t [] = []"
| "sweep t [u] = (if expired t u then [] else [u])"
| "sweep t (u # v # us) = (if expired t u then v # sweep t us else u # sweep t (v # us))"

lemma users_remove_user [simp]: "users (remove_user k e) = take k (users e) @ drop (k + 1) (users e)"
  by (simp add: remove_user_def Let_def)

lemma sweep_Cons: "sweep t (u # us) = (if expired t u then take 1 us @ sweep t (drop 1 us) else u # sweep t us)"
  by (cases us) auto

lemma cleanup_entry_users: "users (cleanup_entry t k e) = take k (users e) @ sweep t (drop k (users e))"
proof (induction t k e rule: cleanup_entry.induct)
  case (1 t k e)
  show ?case
  proof (cases "k < length (users e)")
    case False
    then show ?thesis by (simp add: cleanup_entry.simps [of t k e])
  next
    case True
    let ?e = "if expired t (users e ! k) then remove_user k e else e"
    have "users (cleanup_entry t k e) = take (k + 1) (users ?e) @ sweep t (drop (k + 1) (users ?e))"
      using 1 [OF True] True by (simp add: cleanup_entry.simps [of t k e])
    also have "\<dots> = take k (users e) @ sweep t (users e ! k # drop (k + 1) (users e))"
    proof (cases "expired t (users e ! k)")
      case True
      with \<open>k < length (users e)\<close> show ?thesis by (simp add: sweep_Cons)
    next
      case False
      then show ?thesis using True by (simp add: sweep_Cons take_Suc_conv_app_nth)
    qed
    also have "users e ! k # drop (k + 1) (users e) = drop k (users e)"
      using True by (simp add: Cons_nth_drop_Suc)
    finally show ?thesis .
  qed
qed

lemma cleanup_entry_id:
  "entry_ok i e \<Longrightarrow> entry_ok i (cleanup_entry t k e) \<and> tpid (cleanup_entry t k e) \<in> {0, tpid e}"
proof (induction t k e rule: cleanup_entry.induct)
  case (1 t k e)
  have "entry_ok i (remove_user k e)" if "k < length (users e)"
    using 1(2) that by (auto simp: entry_ok_def remove_user_def Let_def split: if_splits)
  moreover have "tpid (remove_user k e) \<in> {0, tpid e}" by (simp add: remove_user_def)
  ultimately show ?case
    using 1 by (auto simp: cleanup_entry.simps [of t k e])
qed

definition clean :: "int \<Rightarrow> tpEntry \<Rightarrow> tpEntry" where
  "clean t e = (if tpid e = 0 then e else cleanup_entry t 0 e)"

lemma clean_props:
  assumes "entry_ok i e"
  shows "entry_ok i (clean t e)" "users (clean t e) = sweep t (users e)" "tpid (clean t e) \<in> {0, tpid e}"
  using cleanup_entry_id [OF assms, of t 0] assms
  by (auto simp: clean_def cleanup_entry_users entry_ok_def split: if_splits)

lemma clean_entries:
  assumes "entries_ok i es"
  shows "entries_ok i (map (clean t) es) \<and> (\<forall>tp. tp \<noteq> 0 \<longrightarrow> users_in tp (map (clean t) es) = sweep t (users_in tp es))"
proof
  have e: "entry_ok i (es ! j)" if "j < length es" for j using assms that by (simp add: entries_ok_def)
  show ok: "entries_ok i (map (clean t) es)"
    unfolding entries_ok_def
  proof (intro conjI allI impI)
    show "length (map (clean t) es) = TP_MAX_INDEX" using assms by (simp add: entries_ok_def)
    show "entry_ok i (map (clean t) es ! j)" if "j < length (map (clean t) es)" for j
      using that e clean_props(1) by simp
    show "a = b" if "a < length (map (clean t) es)" "b < length (map (clean t) es)"
      "tpid (map (clean t) es ! a) = tpid (map (clean t) es ! b) \<and> tpid (map (clean t) es ! a) \<noteq> 0" for a b
      using that clean_props(3) [OF e, of a t] clean_props(3) [OF e, of b t] entries_ok_inj [OF assms, of a b] by auto
  qed
  show "\<forall>tp. tp \<noteq> 0 \<longrightarrow> users_in tp (map (clean t) es) = sweep t (users_in tp es)"
  proof (intro allI impI)
    fix tp :: nat
    assume tp: "tp \<noteq> 0"
    show "users_in tp (map (clean t) es) = sweep t (users_in tp es)"
    proof (rule entry_cases [OF assms tp])
      fix m
      assume m: "m < length es" "tpid (es ! m) = tp" "\<And>b. b < length es \<Longrightarrow> b \<noteq> m \<Longrightarrow> tpid (es ! b) \<noteq> tp"
      note cm = clean_props [OF e [OF m(1)], of t]
      show ?thesis
      proof (cases "tpid (clean t (es ! m)) = 0")
        case False
        then have "tpid (map (clean t) es ! m) = tp" using cm(3) m by auto
        then show ?thesis using users_in_at [OF ok _ _ tp, of m] users_in_at [OF assms m(1,2) tp] cm(2) m(1) by simp
      next
        case True
        then have "sweep t (users (es ! m)) = []" using cm(1,2) by (simp add: entry_ok_def)
        moreover have "users_in tp (map (clean t) es) = []"
          using True m tp clean_props(3) [OF e, of _ t] by (intro users_in_none) fastforce
        ultimately show ?thesis using users_in_at [OF assms m(1,2) tp] by simp
      qed
    next
      assume no: "\<And>b. b < length es \<Longrightarrow> tpid (es ! b) \<noteq> tp"
      have "users_in tp (map (clean t) es) = []"
        using no tp clean_props(3) [OF e, of _ t] by (intro users_in_none) fastforce
      then show ?thesis using users_in_none [OF no] by simp
    qed
  qed
qed

lemma index_row_length: "index_ok ix \<Longrightarrow> i < TP_MAX_INTERFACE \<Longrightarrow> length (ix ! i) = TP_MAX_INDEX"
  unfolding index_ok_def by (blast intro: entries_length)

lemma cleanup_interface_eq:
  assumes "\<not> locked s" "index_ok (indx s)" "j < TP_MAX_INTERFACE"
  shows "cleanup_interface t j s = Some (s\<lparr>indx := (indx s)[j := map (clean t) (indx s ! j)]\<rparr>)"
proof -
  have "clean t = (\<lambda>e. if tpid e = 0 then e else cleanup_entry t 0 e)" by (simp add: clean_def fun_eq_iff)
  then show ?thesis
    using assms index_row_length [OF assms(2,3)]
    by (cases s) (simp add: cleanup_interface_def MUTEX_GET_def MUTEX_RELEASE_def Let_def)
qed

lemma cleanup_fold:
  assumes "\<not> locked s" "index_ok (indx s)" "k \<le> TP_MAX_INTERFACE"
  shows "\<exists>ix. fold (\<lambda>j so. Option.bind so (cleanup_interface t j)) [0..<k] (Some s) = Some (s\<lparr>indx := ix\<rparr>) \<and> index_ok ix \<and>
    (\<forall>i < TP_MAX_INTERFACE. ix ! i = (if i < k then map (clean t) (indx s ! i) else indx s ! i))"
  using assms(3)
proof (induction k)
  case 0
  show ?case using assms(2) by (auto intro!: exI [of _ "indx s"])
next
  case (Suc k)
  then obtain ix where ix: "fold (\<lambda>j so. Option.bind so (cleanup_interface t j)) [0..<k] (Some s) = Some (s\<lparr>indx := ix\<rparr>)"
    "index_ok ix" "\<And>i. i < TP_MAX_INTERFACE \<Longrightarrow> ix ! i = (if i < k then map (clean t) (indx s ! i) else indx s ! i)"
    by auto
  have k: "k < TP_MAX_INTERFACE" "ix ! k = indx s ! k" using Suc.prems ix(3) by auto
  let ?ix = "ix[k := map (clean t) (ix ! k)]"
  have "cleanup_interface t k (s\<lparr>indx := ix\<rparr>) = Some (s\<lparr>indx := ?ix\<rparr>)"
    using cleanup_interface_eq [of "s\<lparr>indx := ix\<rparr>" k t] assms(1) ix(2) k(1) by simp
  moreover have "entries_ok k (ix ! k)" using ix(2) k(1) by (simp add: index_ok_def)
  then have "index_ok ?ix" using index_ok_update [OF ix(2) k(1)] clean_entries by blast
  moreover have "length ix = TP_MAX_INTERFACE" using ix(2) by (simp add: index_ok_def)
  ultimately show ?case
    using ix k Suc.prems by (intro exI [of _ ?ix]) (auto simp: nth_list_update less_Suc_eq)
qed

lemma cleanup_total:
  assumes "server_ok s" "tpvalid s"
  shows "\<exists>s'. cleanupTestpoints time epoch s = Some s' \<and> server_ok s' \<and>
    (\<forall>tp. users_of (indx s') tp = sweep (time * ONESEC + epoch * EPOCH) (users_of (indx s) tp))"
proof -
  have ok: "\<not> locked s" "index_ok (indx s)" using assms(1) by (simp_all add: server_ok_def)
  define t where "t = time * ONESEC + epoch * EPOCH"
  obtain ix where ix: "fold (\<lambda>j so. Option.bind so (cleanup_interface t j)) [0..<TP_MAX_INTERFACE] (Some s) = Some (s\<lparr>indx := ix\<rparr>)"
    "index_ok ix" "\<And>i. i < TP_MAX_INTERFACE \<Longrightarrow> ix ! i = map (clean t) (indx s ! i)"
    using cleanup_fold [OF ok order.refl, of t] by auto
  let ?s' = "s\<lparr>indx := ix, tpclnts := map (cleanup_client t) (tpclnts s)\<rparr>"
  have "cleanupTestpoints time epoch s = Some ?s'"
    unfolding cleanupTestpoints_def t_def [symmetric] Let_def using ix(1) assms(2) by simp
  moreover have "server_ok ?s'"
    using assms(1) ix(2) by (auto simp: server_ok_def cleanup_client_def)
  moreover have "users_of ix tp = sweep t (users_of (indx s) tp)" for tp
  proof (cases "tpinterface tp")
    case None
    then show ?thesis by (simp add: users_of_def)
  next
    case (Some i)
    then have "i < TP_MAX_INTERFACE" "tp \<noteq> 0" using tpinterface_Some by auto
    then show ?thesis
      using Some ix(3) clean_entries [of i "indx s ! i" t] ok(2) by (simp add: users_of_def index_ok_def)
  qed
  ultimately show ?thesis unfolding t_def by auto
qed

lemma sweep_kept: "filter (\<lambda>u. \<not> expired t u) (sweep t us) = filter (\<lambda>u. \<not> expired t u) us"
  by (induction t us rule: sweep.induct) auto

lemma sweep_halves: "2 * length (filter (expired t) (sweep t us)) \<le> length (filter (expired t) us)"
  by (induction t us rule: sweep.induct) auto

text \<open>C35: The garbage collector is safe, and needs few passes. A pass of \<open>cleanupTestpoints\<close> returns and
  keeps the server well formed; every user whose time is not up stays, in order; and of the users of
  a test point whose time is up at least half are gone. (It is not all of
  them: the user behind a removed one is passed over.)\<close>

theorem cleanup_halves_expired:
  assumes "server_ok s" "tpvalid s"
  shows "\<exists>s'. cleanupTestpoints time epoch s = Some s' \<and> server_ok s' \<and>
    (\<forall>tp. let t = time * ONESEC + epoch * EPOCH; us = users_of (indx s) tp; us' = users_of (indx s') tp
      in filter (\<lambda>u. \<not> expired t u) us' = filter (\<lambda>u. \<not> expired t u) us \<and>
         2 * length (filter (expired t) us') \<le> length (filter (expired t) us))"
  using cleanup_total [OF assms, of time epoch] sweep_kept sweep_halves by (auto simp: Let_def)

theorem cleanup_halves_expired_witness:
  "\<exists>s'. cleanupTestpoints 100 1 (ex_server 2) = Some s' \<and> server_ok s' \<and>
     filter (\<lambda>u. \<not> expired 100062500000 u) (users_of (indx s') 7) = replicate 2 \<lparr>reqTime = 0, usrTimeout = 0, clntId = 3\<rparr>"
proof -
  have "tpvalid (ex_server 2)" "users_of (indx (ex_server 2)) 7 = replicate 2 \<lparr>reqTime = 0, usrTimeout = 0, clntId = 3\<rparr>"
    by (simp_all add: users_of_def ex_server_7 users_in_def ex_server_def)
  then show ?thesis
    using cleanup_halves_expired [OF ex_server_ok, of 2 100 1] by (auto simp: Let_def expired_def)
qed

section \<open>Publication\<close>

lemma update_fold:
  assumes "\<not> locked s" "index_ok (indx s)" "k \<le> TP_MAX_INTERFACE"
  shows "fold (\<lambda>j po. Option.bind po (update_interface addr j)) [0..<k] (Some (s, rm)) =
    Some (s, \<lambda>i. if i < k \<and> 0 < addr i then map tpid (indx s ! i) else rm i)"
  using assms(3)
proof (induction k)
  case 0
  then show ?case by simp
next
  case (Suc k)
  have len: "length (indx s ! k) = TP_MAX_INDEX" using index_row_length [OF assms(2)] Suc.prems by simp
  have "s\<lparr>locked := False\<rparr> = s" using assms(1) by simp
  then have "update_interface addr k (s, rm') = Some (s, if 0 < addr k then rm'(k := map tpid (indx s ! k)) else rm')" for rm'
    using assms(1) len Suc.prems by (auto simp: update_interface_def MUTEX_GET_def MUTEX_RELEASE_def Let_def)
  then show ?case using Suc by (auto simp: less_Suc_eq)
qed

text \<open>C36: What the front end is told is what the server holds. \<open>updateTestpoints\<close> returns, changes nothing
  in the server, and for every interface with an address in shared memory leaves there a table of 64 numbers
  in which a test point number stands exactly when it belongs to that interface and has
  a user.\<close>

theorem published_index_exact:
  assumes "server_ok s" "tpvalid s"
  shows "\<exists>rm'. updateTestpoints addr (s, rm) = Some (s, rm') \<and>
    (\<forall>i < TP_MAX_INTERFACE. 0 < addr i \<longrightarrow> length (rm' i) = TP_MAX_INDEX \<and>
      (\<forall>tp. tp \<noteq> 0 \<longrightarrow> (tp \<in> set (rm' i) \<longleftrightarrow> tpinterface tp = Some i \<and> users_of (indx s) tp \<noteq> [])))"
proof -
  have ok: "\<not> locked s" "index_ok (indx s)" using assms(1) by (simp_all add: server_ok_def)
  have "tp \<in> set (map tpid (indx s ! i)) \<longleftrightarrow> tpinterface tp = Some i \<and> users_of (indx s) tp \<noteq> []"
    if i: "i < TP_MAX_INTERFACE" and tp: "tp \<noteq> 0" for i tp
  proof -
    have e: "entries_ok i (indx s ! i)" using ok(2) i by (simp add: index_ok_def)
    show ?thesis
    proof (rule entry_cases [OF e tp])
      fix m
      assume m: "m < length (indx s ! i)" "tpid (indx s ! i ! m) = tp"
      then have "entry_ok i (indx s ! i ! m)" using e by (simp add: entries_ok_def)
      then show ?thesis
        using m tp users_in_at [OF e m tp] nth_mem [OF m(1)] by (auto simp: entry_ok_def users_of_def)
    next
      assume no: "\<And>b. b < length (indx s ! i) \<Longrightarrow> tpid (indx s ! i ! b) \<noteq> tp"
      then have "tp \<notin> set (map tpid (indx s ! i))" by (metis in_set_conv_nth length_map nth_map)
      then show ?thesis using users_in_none [OF no] by (auto simp: users_of_def)
    qed
  qed
  moreover have "length (indx s ! i) = TP_MAX_INDEX" if "i < TP_MAX_INTERFACE" for i
    using index_row_length [OF ok(2) that] .
  ultimately show ?thesis
    using update_fold [OF ok order.refl, of addr rm] assms(2) by (auto simp: updateTestpoints_def)
qed

theorem published_index_exact_witness:
  "\<exists>rm'. updateTestpoints (\<lambda>_. 1) (ex_server 1, \<lambda>_. []) = Some (ex_server 1, rm') \<and> 7 \<in> set (rm' 0)"
proof -
  have "tpvalid (ex_server 1)" "users_of (indx (ex_server 1)) 7 \<noteq> []"
    by (simp_all add: users_of_def ex_server_7 users_in_def ex_server_def)
  then show ?thesis
    using published_index_exact [OF ex_server_ok, of 1 "\<lambda>_. 1" "\<lambda>_. []"] ex_server_7 by auto
qed

section \<open>The server over time\<close>

lemma empty_index_ok: "index_ok (replicate TP_MAX_INTERFACE (replicate TP_MAX_INDEX no_entry))"
  by (simp add: index_ok_def entries_ok_def entry_ok_def no_entry_def)

lemma clear_loop_ok: "index_ok ix \<Longrightarrow> index_ok (snd (clear_loop cid tps ix))"
  by (induction tps arbitrary: ix) (auto simp: empty_index_ok clear_one_ok)

lemma requesttp_keeps:
  assumes "server_ok s" "requesttp_1_svc env now cid node tps tmout r s = Some (r', s')"
  shows "server_ok s'"
proof (cases "bad_node cid node s")
  case True
  then show ?thesis using assms by (simp add: requesttp_1_svc_def request_call_def)
next
  case False
  have ok: "\<not> locked s" "index_ok (indx s)" using assms(1) by (simp_all add: server_ok_def)
  have "s' = s \<or> (\<exists>ix. adds env (the_user now cid tmout) tps (indx s) = Some ix \<and> s' = s\<lparr>indx := ix\<rparr>)"
    using assms(2) requesttp_eq [OF ok(1) False] by (auto split: if_splits)
  then show ?thesis using assms(1) tpindex.adds_usage [OF ok(2)] by (auto simp: server_ok_def)
qed

lemma setPreselect_keeps: "server_ok s \<Longrightarrow> setPreselect env now node s = Some s' \<Longrightarrow> server_ok s'"
  using requesttp_keeps by (auto simp: setPreselect_def Let_def split: if_splits)

lemma cleartp_keeps:
  assumes "server_ok s" "cleartp_1_svc env now cid node tps s = Some (r, s')"
  shows "server_ok s'"
proof (cases "bad_node cid node s")
  case True
  then show ?thesis using assms by (simp add: cleartp_1_svc_def clear_call_def)
next
  case False
  obtain all ix where loop: "clear_loop cid tps (indx s) = (all, ix)" by fastforce
  have "index_ok ix" using clear_loop_ok [of "indx s" cid tps] assms(1) loop by (simp add: server_ok_def)
  then have keep: "server_ok (MUTEX_RELEASE (s\<lparr>locked := True, indx := ix\<rparr>))" (is "server_ok ?s")
    using assms(1) by (simp add: server_ok_def MUTEX_RELEASE_def)
  have "cleartp_1_svc env now cid node tps s = map_option (Pair 0) (if all then setPreselect env now node ?s else Some ?s)"
    using assms(1) False loop by (simp add: cleartp_1_svc_def clear_call_def MUTEX_GET_def server_ok_def)
  with assms(2) have "map_option (Pair 0) (if all then setPreselect env now node ?s else Some ?s) = Some (r, s')" by simp
  then have "s' = ?s \<or> setPreselect env now node ?s = Some s'" by (auto split: if_splits)
  then show ?thesis using keep setPreselect_keeps by blast
qed

lemma free_client_less: "free_client cs k = Some i \<Longrightarrow> k \<le> i \<and> i < k + length cs \<and> clvalid (cs ! (i - k)) = 0"
proof (induction cs arbitrary: k)
  case Nil
  then show ?case by simp
next
  case (Cons c cs)
  show ?case
  proof (cases "clvalid c = 0")
    case True
    then show ?thesis using Cons.prems by simp
  next
    case False
    then have "k + 1 \<le> i \<and> i < k + 1 + length cs \<and> clvalid (cs ! (i - (k + 1))) = 0"
      using Cons.IH [of "k + 1"] Cons.prems by simp
    then show ?thesis by (simp add: nth_Cons')
  qed
qed

lemma keepalive_keeps:
  assumes "server_ok s" "keepalive_1_svc now cid s = Some (r, s')"
  shows "server_ok s'"
proof -
  have mem: "clvalid (tpclnts s ! i) \<in> {0..240}" if "i < TP_MAX_USER" for i
    using assms(1) that by (auto simp: server_ok_def)
  show ?thesis
    using assms mem [of "nat cid"]
    by (auto simp: keepalive_1_svc_def MUTEX_GET_def MUTEX_RELEASE_def server_ok_def Let_def
        split: if_splits option.splits dest!: subsetD [OF set_update_subset_insert])
qed

text \<open>The server's clients and its own tasks, in any order. \<open>chn\<close> is the channel database.\<close>

inductive tp_step :: "tpenv \<Rightarrow> (string \<Rightarrow> (int \<times> nat) option) \<Rightarrow> tpserver \<Rightarrow> tpserver \<Rightarrow> bool"
  for env :: tpenv and chn :: "string \<Rightarrow> (int \<times> nat) option" where
  tp_request: "requesttp_1_svc env now cid node tps tmout r s = Some (r', s') \<Longrightarrow> tp_step env chn s s'"
| tp_requestname: "requesttpname_1_svc env chn now cid names tmout r s = Some (r', s') \<Longrightarrow> tp_step env chn s s'"
| tp_clear: "cleartp_1_svc env now cid node tps s = Some (ret, s') \<Longrightarrow> tp_step env chn s s'"
| tp_clearname: "cleartpname_1_svc env chn now cid names s = Some (ret, s') \<Longrightarrow> tp_step env chn s s'"
| tp_keepalive: "keepalive_1_svc now cid s = Some (ret, s') \<Longrightarrow> tp_step env chn s s'"
| tp_cleanup: "cleanupTestpoints time epoch s = Some s' \<Longrightarrow> tp_step env chn s s'"
| tp_update: "updateTestpoints addr (s, rm) = Some (s', rm') \<Longrightarrow> tp_step env chn s s'"

lemma cleanup_keeps: "server_ok s \<Longrightarrow> cleanupTestpoints time epoch s = Some s' \<Longrightarrow> server_ok s'"
  using cleanup_total [of s time epoch]
  by (cases "tpvalid s") (auto simp: cleanupTestpoints_def Let_def server_ok_def cleanup_client_def)

lemma update_keeps: "server_ok s \<Longrightarrow> updateTestpoints addr (s, rm) = Some (s', rm') \<Longrightarrow> s' = s"
  using update_fold [of s 4 addr rm] by (auto simp: updateTestpoints_def server_ok_def split: if_splits)

interpretation tp: inductive_invariant "tp_step env chn" server_ok for env chn
proof
  fix s s'
  assume ok: "server_ok s" and step: "tp_step env chn s s'"
  from step ok show "server_ok s'"
    by cases (auto simp: requesttpname_1_svc_def cleartpname_1_svc_def split: if_splits
        dest: requesttp_keeps cleartp_keeps keepalive_keeps cleanup_keeps update_keeps)
qed

text \<open>C3: The test point manager keeps its tables well formed. From a well-formed start, after any
  sequence of remote calls and scheduled tasks that return, in any order and at any times, the
  mutex is free; every slot in use holds a number of its own interface, no number twice, with 1 to
  1000 users, and every free slot none; client entries are within their
  range; and the handles given out without keep-alive never collide with client entries.\<close>

theorem server_stays_well_formed:
  assumes "server_ok s0" "reach (tp_step env chn) s0 s"
  shows "\<not> locked s \<and> index_ok (indx s) \<and>
    (\<forall>i < TP_MAX_INTERFACE. \<forall>e \<in> set (indx s ! i).
       if tpid e = 0 then users e = [] else 1 \<le> length (users e) \<and> length (users e) \<le> TP_MAX_USER \<and> tpinterface (tpid e) = Some i) \<and>
    (\<forall>c \<in> set (tpclnts s). 0 \<le> clvalid c \<and> clvalid c \<le> KEEP_AROUND) \<and> int (length (tpclnts s)) < tpclntID s"
proof -
  have ok: "server_ok s" using tp.inv_reach [OF assms(2,1)] .
  have "entry_ok i e" if "i < TP_MAX_INTERFACE" "e \<in> set (indx s ! i)" for i e
    using ok that by (auto simp: server_ok_def index_ok_def entries_ok_def in_set_conv_nth)
  then show ?thesis using ok by (fastforce simp: server_ok_def entry_ok_def Suc_le_eq)
qed

theorem server_stays_well_formed_witness:
  "\<exists>s. reach (tp_step ex_env (\<lambda>_. None)) (ex_server 1) s \<and> length (users (indx s ! 0 ! 0)) \<le> 1000"
proof -
  obtain s' where s': "cleanupTestpoints 100 1 (ex_server 1) = Some s'"
    using cleanup_total [OF ex_server_ok, of 1 100 1] by (auto simp: ex_server_def)
  have r: "reach (tp_step ex_env (\<lambda>_. None)) (ex_server 1) s'"
    by (rule reach_step [OF reach_init], rule tp_cleanup) (rule s')
  note wf = server_stays_well_formed [OF ex_server_ok r]
  have "length (indx s' ! 0) = 64" using wf index_row_length [of "indx s'" 0] by simp
  then have "indx s' ! 0 ! 0 \<in> set (indx s' ! 0)" by simp
  with wf have "length (users (indx s' ! 0 ! 0)) \<le> 1000" by (fastforce split: if_splits)
  with r show ?thesis by blast
qed

section \<open>Name lists\<close>

definition plain_name :: "string \<Rightarrow> bool" where
  "plain_name p \<longleftrightarrow> p \<noteq> [] \<and> (\<forall>c \<in> set p. c \<notin> {CHR '' '', CHR '','', CHR 0x09, CHR 0x0A})"

lemma strtok_name:
  assumes "p \<noteq> []" "\<forall>c \<in> set p. c \<notin> set ds" "d \<in> set ds"
  shows "strtok ds (p @ d # rest) = Some (p, rest)" "strtok ds p = Some (p, [])"
proof -
  obtain c p' where p: "p = c # p'" using assms(1) by (cases p) auto
  have tw: "takeWhile (\<lambda>c. c \<notin> set ds) (p @ d # rest) = p" "dropWhile (\<lambda>c. c \<notin> set ds) (p @ d # rest) = d # rest"
    "takeWhile (\<lambda>c. c \<notin> set ds) p = p" "dropWhile (\<lambda>c. c \<notin> set ds) p = []"
    using assms(2,3) by (auto simp: takeWhile_append dropWhile_append takeWhile_eq_all_conv)
  have "dropWhile (\<lambda>c. c \<in> set ds) (p @ d # rest) = p @ d # rest" "dropWhile (\<lambda>c. c \<in> set ds) p = p"
    using assms(2) p by simp_all
  then show "strtok ds (p @ d # rest) = Some (p, rest)" "strtok ds p = Some (p, [])"
    using tw assms(1) by (simp_all only: strtok_def Let_def) simp_all
qed

text \<open>Only the first comma separates. A list of three names with commas between them, as the
  first separator set allows, is read as two: the first name, and the other two with their
  comma as one name.\<close>

theorem comma_list_read_as_two:
  assumes "plain_name a" "plain_name b" "plain_name c"
    and "chn a = Some (node, x)" "chn (b @ '','' @ c) = None"
  shows "tpName2Index chn node (a @ '','' @ b @ '','' @ c) = [x]"
proof -
  have 1: "strtok [CHR '' '', CHR '','', CHR 0x09, CHR 0x0A] (a @ CHR '','' # b @ CHR '','' # c) = Some (a, b @ CHR '','' # c)"
    using assms(1) by (intro strtok_name) (auto simp: plain_name_def)
  have 2: "strtok [CHR '' '', CHR 0x09, CHR 0x0A] (b @ CHR '','' # c) = Some (b @ CHR '','' # c, [])"
    using assms(2,3) by (intro strtok_name(2) [of _ _ "CHR '' ''"]) (auto simp: plain_name_def)
  have 3: "strtok ds [] = None" for ds by (simp add: strtok_def)
  show ?thesis
    using assms(4,5) by (simp add: tpName2Index_def 1 2 3 name_loop.simps)
qed

theorem comma_list_read_as_two_witness:
  "tpName2Index (\<lambda>p. if p = ''A'' then Some (5, 1) else if p = ''B'' then Some (5, 2) else if p = ''C'' then Some (5, 3) else None)
     5 ''A,B,C'' = [1]"
  using comma_list_read_as_two [of "''A''" "''B''" "''C''"
      "\<lambda>p. if p = ''A'' then Some (5, 1) else if p = ''B'' then Some (5, 2) else if p = ''C'' then Some (5, 3) else None" 5 1]
  by (simp add: plain_name_def)

end
