(* ===== verification/CString.thy ===== *)
theory CString
  imports Prelude Ieee
begin

text \<open>
  What the readers of text files use of the C library: character classes, \<open>strtol\<close> and \<open>strtod\<close>, the lines
  that \<open>fgets\<close> returns, the tokens of \<open>strtok_r\<close>. A C string is the list of its characters without the terminator.
\<close>

section \<open>Characters and numbers\<close>

definition isspace :: "char \<Rightarrow> bool" where
  "isspace c \<longleftrightarrow> c \<in> {CHR '' '', CHR 0x09, CHR 0x0A, CHR 0x0B, CHR 0x0C, CHR 0x0D}"

definition tolower :: "char \<Rightarrow> char" where
  "tolower c = (let n = of_char c :: nat in if 65 \<le> n \<and> n \<le> 90 then char_of (n + 32) else c)"

definition strcaseeq :: "string \<Rightarrow> string \<Rightarrow> bool" where
  "strcaseeq s t \<longleftrightarrow> map tolower s = map tolower t"

definition bytes_of :: "string \<Rightarrow> u8 list" where
  "bytes_of s = map (\<lambda>c. word_of_nat (of_char c)) s"

text \<open>The value of a digit in bases up to 36; 99 for any other character.\<close>

definition digval :: "char \<Rightarrow> nat" where
  "digval c = (let n = of_char c :: nat
     in if 48 \<le> n \<and> n \<le> 57 then n - 48 else if 97 \<le> n \<and> n \<le> 122 then n - 87
        else if 65 \<le> n \<and> n \<le> 90 then n - 55 else 99)"

fun digits :: "nat \<Rightarrow> string \<Rightarrow> nat list \<times> string" where
  "digits b [] = ([], [])"
| "digits b (c # cs) = (if digval c < b then apfst (Cons (digval c)) (digits b cs) else ([], c # cs))"

definition number :: "nat \<Rightarrow> nat list \<Rightarrow> int" where
  "number b ds = foldl (\<lambda>a d. a * int b + int d) 0 ds"

definition sign_of :: "string \<Rightarrow> bool \<times> string" where
  "sign_of s = (case s of c # cs \<Rightarrow> if c = CHR ''-'' then (True, cs) else if c = CHR ''+'' then (False, cs) else (False, s)
     | [] \<Rightarrow> (False, s))"

definition hex_prefix :: "string \<Rightarrow> bool" where
  "hex_prefix s \<longleftrightarrow> (case s of z # x # d # _ \<Rightarrow> z = CHR ''0'' \<and> tolower x = CHR ''x'' \<and> digval d < 16 | _ \<Rightarrow> False)"

text \<open>\<open>strtol\<close> with base 0 on text without blanks: the value and what is left.\<close>

definition strtol :: "string \<Rightarrow> int \<times> string" where
  "strtol s =
     (let (neg, t) = sign_of s;
          b = (if hex_prefix t then 16 else if t \<noteq> [] \<and> hd t = CHR ''0'' then 8 else 10);
          (ds, r) = digits b (if hex_prefix t then drop 2 t else t);
          v = (if neg then - number b ds else number b ds)
      in if ds = [] then (0, s) else (max (- (2 ^ 63)) (min (2 ^ 63 - 1) v), r))"

definition c_int :: "int \<Rightarrow> int" where
  "c_int v = (v + 2 ^ 31) mod 2 ^ 32 - 2 ^ 31"

text \<open>The exponent after \<open>e\<close> or \<open>p\<close>, if a number follows.\<close>

definition exponent :: "char \<Rightarrow> string \<Rightarrow> int \<times> string" where
  "exponent ch s = (case s of c # cs \<Rightarrow>
       if tolower c = ch then
         let (neg, t) = sign_of cs; (ds, r) = digits 10 t
         in if ds = [] then (0, s) else (if neg then - number 10 ds else number 10 ds, r)
       else (0, s)
     | [] \<Rightarrow> (0, s))"

definition fraction :: "nat \<Rightarrow> string \<Rightarrow> nat list \<times> string" where
  "fraction b s = (case s of c # cs \<Rightarrow> if c = CHR ''.'' then digits b cs else ([], s) | [] \<Rightarrow> ([], s))"

definition nan_tail :: "string \<Rightarrow> string" where
  "nan_tail s = (case s of c # cs \<Rightarrow>
       if c = CHR ''('' then
         (case dropWhile (\<lambda>d. digval d < 36 \<or> d = CHR ''_'') cs of
            d # ds \<Rightarrow> if d = CHR '')'' then ds else s
          | [] \<Rightarrow> s)
       else s
     | [] \<Rightarrow> s)"

definition strtod :: "string \<Rightarrow> fp \<times> string" where
  "strtod s =
     (let (neg, t) = sign_of s; low = map tolower t
      in if take 8 low = ''infinity'' then (Inf neg, drop 8 t)
         else if take 3 low = ''inf'' then (Inf neg, drop 3 t)
         else if take 3 low = ''nan'' then (NaN, nan_tail (drop 3 t))
         else
           let hex = hex_prefix t; b = (if hex then 16 else 10);
               (ip, r) = digits b (if hex then drop 2 t else t);
               (fr, r) = fraction b r;
               (ex, r) = exponent (if hex then CHR ''p'' else CHR ''e'') r;
               m = number b (ip @ fr); k = int (length fr)
           in if ip = [] \<and> fr = [] then (Zero False, s)
              else (if m = 0 then Zero neg
                    else if hex then round64 neg m (ex - 4 * k)
                    else if 0 \<le> ex - k then round64 neg (m * 10 ^ nat (ex - k)) 0
                    else quot64 neg m (10 ^ nat (k - ex)) 0, r))"

text \<open>The same with leading blanks, and \<open>strtol\<close> with base 10: without a number nothing is taken.\<close>

definition strtol10 :: "string \<Rightarrow> int \<times> string" where
  "strtol10 s =
     (let (neg, t) = sign_of (dropWhile isspace s); (ds, r) = digits 10 t;
          v = (if neg then - number 10 ds else number 10 ds)
      in if ds = [] then (0, s) else (max (- (2 ^ 63)) (min (2 ^ 63 - 1) v), r))"

definition strtod_blanks :: "string \<Rightarrow> fp \<times> string" where
  "strtod_blanks s = (let t = dropWhile isspace s; (x, r) = strtod t in if r = t then (Zero False, s) else (x, r))"

text \<open>Decimal notation.\<close>

function dec :: "nat \<Rightarrow> string" where
  "dec n = (if n < 10 then [char_of (48 + n)] else dec (n div 10) @ [char_of (48 + n mod 10)])"
  by pat_completeness auto
termination
  by (relation "measure id") auto

declare dec.simps [simp del]

lemma digval_char: "d < 10 \<Longrightarrow> digval (char_of (48 + d)) = d"
  by (simp add: digval_def Let_def)

lemma digits_all: "\<forall>c \<in> set s. digval c < b \<Longrightarrow> digits b s = (map digval s, [])"
  by (induction s) auto

lemma number_snoc: "number b (ds @ [d]) = number b ds * int b + int d"
  by (simp add: number_def)

lemma dec_digits: "(\<forall>c \<in> set (dec n). digval c < 10) \<and> number 10 (map digval (dec n)) = int n \<and> dec n \<noteq> []"
proof (induction n rule: dec.induct)
  case (1 n)
  show ?case
  proof (cases "n < 10")
    case True
    then show ?thesis by (simp add: dec.simps [of n] digval_char number_def)
  next
    case False
    have "int (n div 10) * 10 + int (n mod 10) = int n" by presburger
    with False show ?thesis using 1 by (auto simp: dec.simps [of n] digval_char number_snoc)
  qed
qed

lemma dec_length: "n < 10 ^ Suc k \<Longrightarrow> length (dec n) \<le> Suc k"
proof (induction k arbitrary: n)
  case 0
  then show ?case by (simp add: dec.simps [of n])
next
  case (Suc k)
  then have "n div 10 < 10 ^ Suc k" by auto
  from Suc.IH [OF this] show ?case by (auto simp: dec.simps [of n])
qed

lemma dec_hd: "0 < n \<Longrightarrow> digval (hd (dec n)) \<noteq> 0"
proof (induction n rule: dec.induct)
  case (1 n)
  show ?case
  proof (cases "n < 10")
    case True
    then show ?thesis using "1.prems" by (simp add: dec.simps [of n] digval_char)
  next
    case False
    then have "digval (hd (dec (n div 10))) \<noteq> 0" using "1.IH" by simp
    then show ?thesis using False dec_digits [of "n div 10"] by (simp add: dec.simps [of n])
  qed
qed

lemma digit_plain: "digval c < 10 \<Longrightarrow> \<not> isspace c \<and> c \<noteq> CHR 0x00 \<and> c \<noteq> CHR ''='' \<and> c \<noteq> CHR ''-'' \<and> c \<noteq> CHR ''+''"
proof -
  have "\<not> digval d < 10" if "d \<in> {CHR '' '', CHR 0x09, CHR 0x0A, CHR 0x0B, CHR 0x0C, CHR 0x0D, CHR 0x00, CHR ''='', CHR ''-'', CHR ''+''}" for d
    using that by (auto simp: digval_def)
  then show "digval c < 10 \<Longrightarrow> ?thesis" by (auto simp: isspace_def)
qed

section \<open>Lines and tokens\<close>

text \<open>The characters \<open>fgets\<close> takes: up to a newline, at most \<open>n\<close>; the string ends at a null character.\<close>

fun fline :: "nat \<Rightarrow> string \<Rightarrow> string" where
  "fline 0 cs = []"
| "fline (Suc n) [] = []"
| "fline (Suc n) (c # cs) = c # (if c = CHR 0x0A then [] else fline n cs)"

definition cstr :: "string \<Rightarrow> string" where
  "cstr s = takeWhile (\<lambda>c. c \<noteq> CHR 0x00) s"

lemma length_fline: "0 < n \<Longrightarrow> cs \<noteq> [] \<Longrightarrow> 0 < length (fline n cs)"
  by (cases n; cases cs) auto

lemma fline_eq_Nil [simp]: "0 < n \<Longrightarrow> fline n cs = [] \<longleftrightarrow> cs = []"
  by (cases n; cases cs) auto

text \<open>\<open>strtok_r\<close> on blanks, tabs and newlines, called at most \<open>n\<close> times.\<close>

definition is_sep :: "char \<Rightarrow> bool" where
  "is_sep c \<longleftrightarrow> c \<in> {CHR '' '', CHR 0x09, CHR 0x0A}"

fun tokens :: "nat \<Rightarrow> string \<Rightarrow> string list" where
  "tokens 0 s = []"
| "tokens (Suc n) s =
     (let t = dropWhile is_sep s
      in if t = [] then [] else takeWhile (\<lambda>c. \<not> is_sep c) t # tokens n (dropWhile (\<lambda>c. \<not> is_sep c) t))"

text \<open>The steps of a reader: undefined behaviour, a failure, or a value.\<close>

datatype 'a pstep = Undefined | Fail | Next 'a

end
