(* ===== verification/CoeffFile.thy ===== *)
theory CoeffFile
  imports FilterCoeff CString
begin

text \<open>
  The reader of filter coefficient files on the EPICS side (\<open>fmReadCoeffFile\<close> of \<open>src/drv/fmReadCoeff.c\<close>), in the
  build without \<open>FIR_FILTERS\<close>: the names of the files, the text of the coefficient file and of the file for FIR
  filters that is read after it when it exists, the archive copies, the checksum, and the publication of every module in
  shared memory. The texts of the messages for the operator are not kept. \<open>Undefined\<close> is an access outside an array.
\<close>

section \<open>Data\<close>

record fmSubSysMap =
  mname :: string
  fmModNum :: nat
  mbiquad :: int
  filters :: int
  fmd :: VME_FM_OP_COEF

record subSys =
  ssname :: string
  archiveNameModifier :: string
  maps :: "fmSubSysMap list"
  sscrc :: u32

record fmReadCoeff =
  site :: string
  ifo :: string
  fsystem :: string
  subSystems :: "subSys list"

text \<open>
  What the operating system provides: the two input files (\<open>None\<close> when \<open>stat\<close> fails), whether they can be opened, how
  much the archive files take (\<open>None\<close> when they cannot be created), whether \<open>fclose\<close> succeeds on each of the
  four files, and the clocks.
\<close>

record fm_env =
  txt_file :: "string option"
  fir_file :: "string option"
  txt_opens :: bool
  fir_opens :: bool
  txt_disk :: "nat option"
  fir_disk :: "nat option"
  txt_closes :: bool
  txt_arch_closes :: bool
  fir_closes :: bool
  fir_arch_closes :: bool
  proc_gps :: "int option"
  local_time :: string

abbreviation (input) FM_CANNOT_STAT_INPUT_FILE :: int where "FM_CANNOT_STAT_INPUT_FILE \<equiv> 1"
abbreviation (input) FM_EMPTY_INPUT_FILE :: int where "FM_EMPTY_INPUT_FILE \<equiv> 2"
abbreviation (input) FM_CANNOT_OPEN_ARCHIVE_FILE :: int where "FM_CANNOT_OPEN_ARCHIVE_FILE \<equiv> 4"
abbreviation (input) FM_CANNOT_WRITE_ARCHIVE_FILE :: int where "FM_CANNOT_WRITE_ARCHIVE_FILE \<equiv> 5"
abbreviation (input) FM_INVALID_INPUT_FILE :: int where "FM_INVALID_INPUT_FILE \<equiv> 6"
abbreviation (input) FM_FCLOSE_FAILED :: int where "FM_FCLOSE_FAILED \<equiv> 7"
abbreviation (input) MAX_TOKENS :: nat where "MAX_TOKENS \<equiv> 12"

text \<open>The placeholder of a module, as \<open>memset\<close> leaves it.\<close>

definition zero_fmd :: VME_FM_OP_COEF where
  "zero_fmd = \<lparr>vfiltCoeff = replicate FILTERS (replicate MAX_COEFFS f0), vfiltName = replicate FILTERS [], bankNum = 0,
     vfiltSections = replicate FILTERS 0, vsType = replicate FILTERS 0, vramp = replicate FILTERS 0,
     vtimout = replicate FILTERS 0, vcrc = 0, vfilterType = replicate FILTERS 0, vbiquad = 0\<rparr>"

definition clear_map :: "fmSubSysMap \<Rightarrow> fmSubSysMap" where
  "clear_map m = m\<lparr>filters := 0, fmd := zero_fmd\<rparr>"

section \<open>Tokens\<close>

definition info_line :: "string \<Rightarrow> bool" where
  "info_line s = (let c = dropWhile isspace s in c \<noteq> [] \<and> hd c \<noteq> CHR ''#'')"

definition lineTok :: "string \<Rightarrow> string list" where
  "lineTok s = tokens MAX_TOKENS s"

definition intToken :: "string \<Rightarrow> int option" where
  "intToken s = (let (v, r) = strtol10 s in if r = [] then Some (c_int v) else None)"

definition doubleToken :: "string \<Rightarrow> fp option" where
  "doubleToken s = (let (x, r) = strtod_blanks s in if r = [] \<or> hd r = CHR 0x0A then Some x else None)"

section \<open>Lines\<close>

text \<open>
  What the loop over the lines keeps: the placeholders, the number of continuation lines still to come, the module of
  the present filter (\<open>None\<close> when it is not one of this subsystem) and the number of the filter in it.
\<close>

record reader =
  rmaps :: "fmSubSysMap list"
  inFilter :: int
  curFilter :: "nat option"
  curFilterNum :: nat

text \<open>The four coefficients of a section as they are stored.\<close>

definition section_coeffs :: "int \<Rightarrow> fp list \<Rightarrow> fp list" where
  "section_coeffs bq cs =
     (if bq \<noteq> 0 then biquad_of doubles (cs ! 0) (cs ! 1) (cs ! 2) (cs ! 3) else cs)"

definition cont_line :: "string list \<Rightarrow> reader \<Rightarrow> reader pstep" where
  "cont_line toks rd =
     (let rd = rd\<lparr>inFilter := inFilter rd - 1\<rparr>
      in case curFilter rd of
           None \<Rightarrow> Next rd
         | Some i \<Rightarrow>
             (case those (map doubleToken (take 4 toks)) of
                None \<Rightarrow> Fail
              | Some cs \<Rightarrow>
                  let m = rmaps rd ! i; n = curFilterNum rd; d = fmd m;
                      k = 5 + 4 * (vfiltSections d ! n - inFilter rd - 2)
                  in if \<not> (i < length (rmaps rd) \<and> n < FILTERS) then Undefined
                     else if vfilterType d ! n \<noteq> 0 then Next rd
                     else if 0 \<le> k \<and> k + 3 < int MAX_COEFFS then
                       Next (rd\<lparr>rmaps := (rmaps rd)[i := m\<lparr>fmd := d\<lparr>vfiltCoeff := (vfiltCoeff d)[n :=
                         take (nat k) (vfiltCoeff d ! n) @ section_coeffs (mbiquad m) cs @
                         drop (nat k + 4) (vfiltCoeff d ! n)]\<rparr>\<rparr>]\<rparr>)
                     else Undefined))"

text \<open>The first module with a name.\<close>

fun find_map :: "string \<Rightarrow> fmSubSysMap list \<Rightarrow> nat \<Rightarrow> nat option" where
  "find_map s [] i = None"
| "find_map s (m # ms) i = (if mname m = s then Some i else find_map s ms (i + 1))"

definition store_header ::
  "nat \<Rightarrow> int \<Rightarrow> int \<Rightarrow> int \<Rightarrow> int \<Rightarrow> string \<Rightarrow> fp list \<Rightarrow> fmSubSysMap \<Rightarrow> fmSubSysMap" where
  "store_header num stype sections rmp tmo name cs m =
     (let d = fmd m
      in m\<lparr>filters := filters m + 1,
           fmd := d\<lparr>bankNum := int (fmModNum m),
             vfiltSections := (vfiltSections d)[num := sections], vsType := (vsType d)[num := stype],
             vramp := (vramp d)[num := rmp], vtimout := (vtimout d)[num := tmo],
             vfiltName := (vfiltName d)[num := name], vfilterType := (vfilterType d)[num := 0],
             vfiltCoeff := (vfiltCoeff d)[num := cs ! 0 # section_coeffs (mbiquad m) (tl cs) @
               drop 5 (vfiltCoeff d ! num)]\<rparr>\<rparr>)"

definition header_line :: "string list \<Rightarrow> reader \<Rightarrow> reader pstep" where
  "header_line toks rd =
     (case map intToken (take 5 (drop 1 toks)) of
        [Some num, Some stype, Some sections, Some rmp, Some tmo] \<Rightarrow>
          if num < 0 \<or> num > 9 then Fail
          else if stype sdiv 10 \<noteq> 1 \<and> stype sdiv 10 \<noteq> 2 \<or> stype smod 10 < 1 \<or> stype smod 10 > 4 then Fail
          else if \<not> (sections > 0 \<and> sections \<le> MAX_SO_SECTIONS) then Fail
          else if rmp < 0 \<or> tmo < 0 then Fail
          else if length (toks ! 6) > 31 then Fail
          else (case those (map doubleToken (take 5 (drop 7 toks))) of
                  None \<Rightarrow> Fail
                | Some cs \<Rightarrow>
                    let rd = rd\<lparr>inFilter := sections - 1, curFilter := None, curFilterNum := 0\<rparr>
                    in (case find_map (toks ! 0) (rmaps rd) 0 of
                          None \<Rightarrow> Next rd
                        | Some i \<Rightarrow>
                            Next (rd\<lparr>curFilter := Some i, curFilterNum := nat num,
                              rmaps := (rmaps rd)[i :=
                                store_header (nat num) stype sections rmp tmo (toks ! 6) cs (rmaps rd ! i)]\<rparr>)))
      | _ \<Rightarrow> Fail)"

definition coeff_line :: "string \<Rightarrow> reader \<Rightarrow> reader pstep" where
  "coeff_line s rd =
     (if info_line s then
        let toks = lineTok s
        in if length toks < (if inFilter rd \<noteq> 0 then 4 else MAX_TOKENS) then Fail
           else if inFilter rd \<noteq> 0 then cont_line toks rd
           else header_line toks rd
      else Next rd)"

section \<open>Files\<close>

text \<open>
  The loop over the lines of a file: each line is counted into the checksum and copied to the archive, of which \<open>arch\<close> is
  the text so far and \<open>space\<close> what it still takes. On an error the placeholders are as the lines before left them.
\<close>

datatype file_end =
    File_undefined
  | File_error int "fmSubSysMap list"
  | File_done string u32 reader

function read_file :: "string \<Rightarrow> string \<Rightarrow> nat \<Rightarrow> u32 \<Rightarrow> reader \<Rightarrow> file_end" where
  "read_file text_left arch space crc rd =
     (if text_left = [] then File_done arch crc rd
      else
        let l = fline 1023 text_left; s = cstr l
        in if space < length s then File_error FM_CANNOT_WRITE_ARCHIVE_FILE (rmaps rd)
           else (case coeff_line s rd of
                   Undefined \<Rightarrow> File_undefined
                 | Fail \<Rightarrow> File_error FM_INVALID_INPUT_FILE (rmaps rd)
                 | Next rd' \<Rightarrow>
                     read_file (drop (length l) text_left) (arch @ s) (space - length s) (crc_ptr (bytes_of s) crc) rd'))"
  by pat_completeness auto
termination
  by (relation "measure (\<lambda>(text_left, _). length text_left)") auto

declare read_file.simps [simp del]

section \<open>Names\<close>

definition toupper :: "char \<Rightarrow> char" where
  "toupper c = (let n = of_char c :: nat in if 97 \<le> n \<and> n \<le> 122 then char_of (n - 32) else c)"

definition upper :: "string \<Rightarrow> string" where "upper = map toupper"
definition lower :: "string \<Rightarrow> string" where "lower = map tolower"

definition time_text :: "fm_env \<Rightarrow> u64 \<Rightarrow> string" where
  "time_text env gps =
     (let t = (if gps > 0 then sint gps else case proc_gps env of None \<Rightarrow> 0 | Some v \<Rightarrow> v)
      in if t = 0 then local_time env else if t < 0 then CHR ''-'' # dec (nat (- t)) else dec (nat t))"

definition chans_dir :: "fmReadCoeff \<Rightarrow> string" where
  "chans_dir fmc = ''/opt/rtcds/'' @ lower (site fmc) @ ''/'' @ lower (ifo fmc) @ ''/'' @ ''chans/''"

definition input_names :: "fmReadCoeff \<Rightarrow> subSys \<Rightarrow> string \<times> string" where
  "input_names fmc ss =
     (chans_dir fmc @ ''tmp/'' @ upper (fsystem fmc) @
        (if ssname ss \<noteq> [] then ''_'' @ upper (ssname ss) else []) @ ''.txt'',
      chans_dir fmc @ upper (fsystem fmc) @ ''.fir'')"

definition archive_name :: "fm_env \<Rightarrow> u64 \<Rightarrow> fmReadCoeff \<Rightarrow> subSys \<Rightarrow> string" where
  "archive_name env gps fmc ss =
     map (\<lambda>c. if c = CHR '' '' then CHR ''_'' else c)
       (chans_dir fmc @ ''filter_archive/'' @ lower (fsystem fmc) @ ''/'' @
        (if ssname ss \<noteq> [] then lower (ssname ss) @ ''/'' else []) @
        upper (fsystem fmc) @ (if ssname ss \<noteq> [] then ''_'' @ upper (ssname ss) else []) @
        (if archiveNameModifier ss \<noteq> [] then ''_'' @ upper (archiveNameModifier ss) else []) @
        ''_'' @ time_text env gps)"

text \<open>The four name buffers have 256 characters.\<close>

definition names_fit :: "fm_env \<Rightarrow> u64 \<Rightarrow> fmReadCoeff \<Rightarrow> subSys \<Rightarrow> bool" where
  "names_fit env gps fmc ss \<longleftrightarrow>
     length (fst (input_names fmc ss)) < 256 \<and> length (snd (input_names fmc ss)) < 256 \<and>
     length (archive_name env gps fmc ss) + 4 < 256"

section \<open>The reader\<close>

text \<open>The publication of the modules of a subsystem, one after the other.\<close>

fun publish_maps :: "fmSubSysMap list \<Rightarrow> VME_FM_OP_COEF list \<Rightarrow> VME_FM_OP_COEF list option" where
  "publish_maps [] vmes = Some vmes"
| "publish_maps (m # ms) vmes =
     (if fmModNum m < length vmes
      then publish_maps ms (vmes[fmModNum m := publish (fmd m) (mbiquad m) (vmes ! fmModNum m)])
      else None)"

text \<open>The return code, the data of the reader, shared memory, and the archive files that are left.\<close>

record fm_result =
  rcode :: int
  rfmc :: fmReadCoeff
  rvmes :: "VME_FM_OP_COEF list"
  rarchives :: "(string \<times> string) list"

text \<open>
  What is done after both files have been read: \<open>arch\<close> are their archives, \<open>len\<close> is their length. When \<open>fclose\<close> fails on the
  first archive while a file for FIR filters is open, that archive is closed a second time, which C leaves undefined.
\<close>

definition finish_read ::
  "fm_env \<Rightarrow> fmReadCoeff \<Rightarrow> nat \<Rightarrow> bool \<Rightarrow> (string \<times> string) list \<Rightarrow> nat \<Rightarrow> u32 \<Rightarrow> fmSubSysMap list \<Rightarrow>
     VME_FM_OP_COEF list \<Rightarrow> fm_result pstep" where
  "finish_read env fmc n fir arch len crc ms vmes =
     (let ss = (subSystems fmc ! n)\<lparr>maps := ms\<rparr>;
          done_with = (\<lambda>ss. fmc\<lparr>subSystems := (subSystems fmc)[n := ss]\<rparr>)
      in if txt_closes env \<and> \<not> txt_arch_closes env \<and> fir then Undefined
         else if \<not> (txt_closes env \<and> txt_arch_closes env \<and> (fir \<longrightarrow> fir_closes env \<and> fir_arch_closes env)) then
           Next \<lparr>rcode = FM_FCLOSE_FAILED, rfmc = done_with ss, rvmes = vmes, rarchives = arch\<rparr>
         else
           let c = crc_len (of_nat len) crc;
               left = (if c \<noteq> sscrc ss then arch else [])
           in (case publish_maps ms vmes of
                 None \<Rightarrow> Undefined
               | Some vmes' \<Rightarrow>
                   Next \<lparr>rcode = 0, rfmc = done_with (ss\<lparr>sscrc := c\<rparr>), rvmes = vmes', rarchives = left\<rparr>))"

definition fir_found :: "fm_env \<Rightarrow> bool" where
  "fir_found env \<longleftrightarrow> fir_file env \<noteq> None \<and> fir_file env \<noteq> Some [] \<and> fir_opens env \<and> fir_disk env \<noteq> None"

definition fmReadCoeffFile ::
  "fm_env \<Rightarrow> fmReadCoeff \<Rightarrow> nat \<Rightarrow> u64 \<Rightarrow> VME_FM_OP_COEF list \<Rightarrow> fm_result pstep" where
  "fmReadCoeffFile env fmc n gps vmes =
     (let ss = subSystems fmc ! n; ms = map clear_map (maps ss);
          stop = (\<lambda>code ms arch. Next \<lparr>rcode = code,
            rfmc = fmc\<lparr>subSystems := (subSystems fmc)[n := ss\<lparr>maps := ms\<rparr>]\<rparr>, rvmes = vmes, rarchives = arch\<rparr>);
          aname = archive_name env gps fmc ss
      in if \<not> (n < length (subSystems fmc) \<and> names_fit env gps fmc ss) then Undefined
         else (case txt_file env of
           None \<Rightarrow> stop FM_CANNOT_STAT_INPUT_FILE ms []
         | Some txt0 \<Rightarrow>
             if txt0 = [] then stop FM_EMPTY_INPUT_FILE ms []
             else if \<not> txt_opens env then stop FM_CANNOT_OPEN_ARCHIVE_FILE ms []
             else (case txt_disk env of
               None \<Rightarrow> stop FM_CANNOT_OPEN_ARCHIVE_FILE ms []
             | Some space0 \<Rightarrow>
                 (case read_file txt0 [] space0 0 \<lparr>rmaps = ms, inFilter = 0, curFilter = None, curFilterNum = 0\<rparr> of
                       File_undefined \<Rightarrow> Undefined
                     | File_error code ms \<Rightarrow> stop code ms []
                     | File_done arch0 crc0 rd \<Rightarrow>
                         if \<not> fir_found env then
                           finish_read env fmc n False [(aname @ ''.txt'', arch0)] (length txt0) crc0 (rmaps rd) vmes
                         else
                           let fir0 = the (fir_file env)
                           in (case read_file fir0 [] (the (fir_disk env)) crc0 rd of
                                 File_undefined \<Rightarrow> Undefined
                               | File_error code ms \<Rightarrow> stop code ms [(aname @ ''.txt'', arch0)]
                               | File_done arch1 crc1 rd \<Rightarrow>
                                   finish_read env fmc n True [(aname @ ''.txt'', arch0), (aname @ ''.fir'', arch1)]
                                     (length txt0 + length fir0) crc1 (rmaps rd) vmes)))))"

end
