(* ===== verification/CoeffLoad.thy ===== *)
theory CoeffLoad
  imports CoeffFile FilterReload
begin

text \<open>
  Correctness of the coefficient file reader: whatever the files hold it stays in its arrays and publishes modules that
  the front end can load; a refused file does not reach shared memory; a file written filter by filter
  is loaded filter by filter.
\<close>

section \<open>Whatever the file holds\<close>

definition filter_sound :: "VME_FM_OP_COEF \<Rightarrow> nat \<Rightarrow> bool" where
  "filter_sound d j \<longleftrightarrow> 0 \<le> vfiltSections d ! j \<and> vfiltSections d ! j \<le> 10 \<and> vfilterType d ! j = 0 \<and>
     (0 < vfiltSections d ! j \<longrightarrow>
        vsType d ! j \<in> {11, 12, 13, 14, 21, 22, 23, 24} \<and> 0 \<le> vramp d ! j \<and> 0 \<le> vtimout d ! j \<and>
        length (vfiltName d ! j) \<le> 31)"

definition module_sound :: "VME_FM_OP_COEF \<Rightarrow> bool" where
  "module_sound d \<longleftrightarrow> vme_wf d \<and> length (vfiltName d) = FILTERS \<and> (\<forall>j < FILTERS. filter_sound d j)"

definition reader_sound :: "reader \<Rightarrow> bool" where
  "reader_sound rd \<longleftrightarrow> (\<forall>m \<in> set (rmaps rd). module_sound (fmd m)) \<and> 0 \<le> inFilter rd \<and>
     (case curFilter rd of
        None \<Rightarrow> True
      | Some i \<Rightarrow> i < length (rmaps rd) \<and> curFilterNum rd < FILTERS \<and>
          inFilter rd < vfiltSections (fmd (rmaps rd ! i)) ! curFilterNum rd)"

lemma zero_fmd_sound: "module_sound zero_fmd"
  by (auto simp: module_sound_def zero_fmd_def vme_wf_def filter_sound_def)

lemma length_section_coeffs: "length cs = 4 \<Longrightarrow> length (section_coeffs bq cs) = 4"
  by (simp add: section_coeffs_def biquad_of_def)

lemma length_those: "those xs = Some ys \<Longrightarrow> length ys = length xs"
  by (induction xs arbitrary: ys) (auto split: option.splits)

lemma find_map_bound: "find_map s ms i = Some k \<Longrightarrow> i \<le> k \<and> k < i + length ms"
  by (induction ms arbitrary: i) (fastforce split: if_splits)+

lemma find_map_name: "find_map s ms i = Some k \<Longrightarrow> mname (ms ! (k - i)) = s"
proof (induction ms arbitrary: i)
  case (Cons m ms)
  show ?case
  proof (cases "mname m = s")
    case False
    with Cons.prems have f: "find_map s ms (i + 1) = Some k" by simp
    then have "k - i = Suc (k - (i + 1))" using find_map_bound [OF f] by arith
    then show ?thesis using Cons.IH [OF f] by simp
  qed (use Cons.prems in auto)
qed simp

lemma stype_ranges:
  "\<not> (st sdiv 10 \<noteq> 1 \<and> st sdiv 10 \<noteq> 2 \<or> st smod 10 < 1 \<or> st smod 10 > 4) \<Longrightarrow>
     st \<in> {11, 12, 13, 14, 21, 22, 23, 24 :: int}"
proof -
  assume a: "\<not> (st sdiv 10 \<noteq> 1 \<and> st sdiv 10 \<noteq> 2 \<or> st smod 10 < 1 \<or> st smod 10 > 4)"
  have "st = 10 * (st sdiv 10) + st smod 10" using sdiv_mult_smod_eq [of st 10] by simp
  with a show ?thesis by auto
qed

lemma store_header_sound:
  assumes "module_sound (fmd m)" "num < FILTERS" "0 < sections" "sections \<le> 10"
    "stype \<in> {11, 12, 13, 14, 21, 22, 23, 24}" "0 \<le> rmp" "0 \<le> tmo" "length name \<le> 31" "length cs = 5"
  shows "module_sound (fmd (store_header num stype sections rmp tmo name cs m))"
    "vfiltSections (fmd (store_header num stype sections rmp tmo name cs m)) ! num = sections"
proof -
  let ?d = "fmd (store_header num stype sections rmp tmo name cs m)"
  have wf: "vme_wf (fmd m)" "length (vfiltName (fmd m)) = 10" "\<And>j. j < 10 \<Longrightarrow> filter_sound (fmd m) j"
    using assms(1) by (auto simp: module_sound_def)
  have len: "length (cs ! 0 # section_coeffs (mbiquad m) (tl cs) @ drop 5 (vfiltCoeff (fmd m) ! num)) = 41"
    using wf(1) assms(2,9) by (simp add: length_section_coeffs vme_wf_def)
  have "vme_wf ?d" using wf(1) len by (auto simp: store_header_def Let_def vme_wf_def dest!: set_update_subset_insert [THEN subsetD])
  moreover have "filter_sound ?d j" if "j < 10" for j
  proof (cases "j = num")
    case True
    then show ?thesis using wf assms by (simp add: store_header_def Let_def filter_sound_def vme_wf_def)
  next
    case False
    then show ?thesis using wf(3) [OF that] by (simp add: store_header_def Let_def filter_sound_def)
  qed
  ultimately show "module_sound ?d"
    using wf(2) by (simp add: module_sound_def) (simp add: store_header_def Let_def)
  show "vfiltSections ?d ! num = sections"
    using wf(1) assms(2) by (simp add: store_header_def Let_def vme_wf_def)
qed

lemma header_line_sound:
  assumes "reader_sound rd" "length toks = MAX_TOKENS" "header_line toks rd = r"
  shows "r \<noteq> Undefined" "r = Next rd' \<Longrightarrow> reader_sound rd'"
proof -
  show "r \<noteq> Undefined"
    using assms(3) by (auto simp: header_line_def Let_def split: list.splits option.splits if_splits)
  assume "r = Next rd'"
  with assms(3) obtain num st sec rm tm cs where
    t: "map intToken (take 5 (drop 1 toks)) = [Some num, Some st, Some sec, Some rm, Some tm]"
    and g: "\<not> (num < 0 \<or> num > 9)" "\<not> (st sdiv 10 \<noteq> 1 \<and> st sdiv 10 \<noteq> 2 \<or> st smod 10 < 1 \<or> st smod 10 > 4)"
      "sec > 0 \<and> sec \<le> 10" "\<not> (rm < 0 \<or> tm < 0)" "\<not> length (toks ! 6) > 31"
    and cs: "those (map doubleToken (take 5 (drop 7 toks))) = Some cs"
    and rd': "rd' = (let rd = rd\<lparr>inFilter := sec - 1, curFilter := None, curFilterNum := 0\<rparr>
                    in (case find_map (toks ! 0) (rmaps rd) 0 of
                          None \<Rightarrow> rd
                        | Some i \<Rightarrow> rd\<lparr>curFilter := Some i, curFilterNum := nat num,
                              rmaps := (rmaps rd)[i := store_header (nat num) st sec rm tm (toks ! 6) cs (rmaps rd ! i)]\<rparr>))"
    by (auto simp: header_line_def Let_def split: list.splits option.splits if_splits)
  have len: "length cs = 5" using length_those [OF cs] assms(2) by simp
  show "reader_sound rd'"
  proof (cases "find_map (toks ! 0) (rmaps rd) 0")
    case None
    then show ?thesis using rd' assms(1) g by (simp add: reader_sound_def)
  next
    case (Some i)
    have i: "i < length (rmaps rd)" using find_map_bound [OF Some] by simp
    then have "module_sound (fmd (rmaps rd ! i))" using assms(1) by (simp add: reader_sound_def)
    note st = store_header_sound [OF this _ _ _ stype_ranges [OF g(2)], of "nat num" sec rm tm "toks ! 6" cs]
    show ?thesis
      using rd' Some assms(1) g len st i
      by (auto simp: reader_sound_def dest!: set_update_subset_insert [THEN subsetD])
  qed
qed

lemma cont_line_sound:
  assumes "reader_sound rd" "4 \<le> length toks" "inFilter rd \<noteq> 0" "cont_line toks rd = r"
  shows "r \<noteq> Undefined" "r = Next rd' \<Longrightarrow> reader_sound rd'"
proof -
  have pos: "0 < inFilter rd" using assms(1,3) by (simp add: reader_sound_def)
  have "r \<noteq> Undefined \<and> (r = Next rd' \<longrightarrow> reader_sound rd')"
  proof (cases "curFilter rd")
    case None
    then show ?thesis using assms(1,4) pos by (auto simp: cont_line_def Let_def reader_sound_def)
  next
    case (Some i)
    define n where "n = curFilterNum rd"
    define d where "d = fmd (rmaps rd ! i)"
    have i: "i < length (rmaps rd)" "n < 10" "inFilter rd < vfiltSections d ! n" "module_sound d"
      using assms(1) Some by (auto simp: reader_sound_def n_def d_def)
    have f: "filter_sound d n" "vme_wf d" using i by (auto simp: module_sound_def)
    show ?thesis
    proof (cases "those (map doubleToken (take 4 toks))")
      case None
      then show ?thesis using assms(4) Some by (auto simp: cont_line_def Let_def)
    next
      case (Some cs)
      define k where "k = 5 + 4 * (vfiltSections d ! n - (inFilter rd - 1) - 2)"
      have k: "0 \<le> k" "k + 3 < 41" using i f pos by (auto simp: k_def filter_sound_def)
      have len: "length cs = 4" using length_those [OF Some] assms(2) by simp
      define d' where "d' = d\<lparr>vfiltCoeff := (vfiltCoeff d)[n := take (nat k) (vfiltCoeff d ! n) @
        section_coeffs (mbiquad (rmaps rd ! i)) cs @ drop (nat k + 4) (vfiltCoeff d ! n)]\<rparr>"
      have r: "r = Next (rd\<lparr>inFilter := inFilter rd - 1, rmaps := (rmaps rd)[i := (rmaps rd ! i)\<lparr>fmd := d'\<rparr>]\<rparr>)"
        using assms(4) \<open>curFilter rd = Some i\<close> Some i f k
        by (simp add: cont_line_def Let_def filter_sound_def d'_def d_def n_def k_def)
      have "length (take (nat k) (vfiltCoeff d ! n) @ section_coeffs (mbiquad (rmaps rd ! i)) cs @
          drop (nat k + 4) (vfiltCoeff d ! n)) = 41"
        using k f i(2) by (simp add: length_section_coeffs len vme_wf_def)
      then have "vme_wf d'" using f(2) by (auto simp: d'_def vme_wf_def dest!: set_update_subset_insert [THEN subsetD])
      then have "module_sound d'"
        using i(4) by (simp add: module_sound_def d'_def filter_sound_def)
      moreover have "vfiltSections d' = vfiltSections d" by (simp add: d'_def)
      ultimately show ?thesis
        using r assms(1) \<open>curFilter rd = Some i\<close> i pos
        by (auto simp: reader_sound_def n_def dest!: set_update_subset_insert [THEN subsetD])
    qed
  qed
  then show "r \<noteq> Undefined" "r = Next rd' \<Longrightarrow> reader_sound rd'" by auto
qed

lemma tokens_length: "length (tokens n s) \<le> n"
  by (induction n arbitrary: s) (auto simp: Let_def)

lemma coeff_line_sound:
  assumes "reader_sound rd"
  shows "coeff_line s rd \<noteq> Undefined" "coeff_line s rd = Next rd' \<Longrightarrow> reader_sound rd'"
  using assms header_line_sound [OF assms _ refl, of "lineTok s"] cont_line_sound [OF assms _ _ refl, of "lineTok s"]
    tokens_length [of 12 s]
  by (auto simp: coeff_line_def Let_def lineTok_def split: if_splits)

text \<open>Both files: no access outside an array, and sound placeholders at every end.\<close>

lemma read_file_sound:
  assumes "reader_sound rd"
  shows "(case read_file s arch space crc rd of
            File_undefined \<Rightarrow> False
          | File_error code ms \<Rightarrow> code \<noteq> 0 \<and> (\<forall>m \<in> set ms. module_sound (fmd m))
          | File_done arch' crc' rd' \<Rightarrow> reader_sound rd')"
  using assms
proof (induction s arch space crc rd rule: read_file.induct)
  case (1 s arch space crc rd)
  show ?case
  proof (cases "s = [] \<or> space < length (cstr (fline 1023 s))")
    case True
    then show ?thesis using "1.prems" by (auto simp: read_file.simps [of s] Let_def reader_sound_def)
  next
    case False
    then show ?thesis
      using "1.IH" [OF _ refl refl, of ] "1.prems" coeff_line_sound [OF "1.prems", of "cstr (fline 1023 s)"]
      by (cases "coeff_line (cstr (fline 1023 s)) rd")
        (auto simp: read_file.simps [of s] Let_def reader_sound_def)
  qed
qed

text \<open>The fixed part of the modules: name, number and form.\<close>

definition statics :: "fmSubSysMap list \<Rightarrow> (string \<times> nat \<times> int) list" where
  "statics ms = map (\<lambda>m. (mname m, fmModNum m, mbiquad m)) ms"

lemma statics_update:
  "mname m = mname (ms ! i) \<Longrightarrow> fmModNum m = fmModNum (ms ! i) \<Longrightarrow> mbiquad m = mbiquad (ms ! i) \<Longrightarrow>
     statics (ms[i := m]) = statics ms"
  by (cases "i < length ms") (auto simp: statics_def map_update list_update_same_conv list_update_beyond)

lemma coeff_line_statics [frame]: "coeff_line s rd = Next rd' \<Longrightarrow> statics (rmaps rd') = statics (rmaps rd)"
  by (auto simp: coeff_line_def cont_line_def header_line_def store_header_def Let_def
      intro!: statics_update split: if_splits option.splits list.splits)

lemma read_file_statics [frame]:
  "(case read_file s arch space crc rd of
      File_undefined \<Rightarrow> True
    | File_error code ms \<Rightarrow> statics ms = statics (rmaps rd)
    | File_done arch' crc' rd' \<Rightarrow> statics (rmaps rd') = statics (rmaps rd))"
proof (induction s arch space crc rd rule: read_file.induct)
  case (1 s arch space crc rd)
  show ?case
  proof (cases "s = [] \<or> space < length (cstr (fline 1023 s))")
    case True
    then show ?thesis by (auto simp: read_file.simps [of s] Let_def)
  next
    case False
    then show ?thesis
      using "1.IH" [OF _ refl refl] coeff_line_statics [of "cstr (fline 1023 s)" rd]
      by (cases "coeff_line (cstr (fline 1023 s)) rd")
        (auto simp: read_file.simps [of s] Let_def split: file_end.splits)
  qed
qed

lemma publish_sound:
  assumes "module_sound d" "vme_wf v"
  shows "module_sound (publish d bq v)"
proof -
  have "vme_wf (publish d bq v)"
    using assms unfolding module_sound_def vme_wf_def publish_def
    by (auto simp: in_set_zip set_zip min_def)
  then show ?thesis using assms by (auto simp: module_sound_def publish_def filter_sound_def)
qed

lemma publish_maps_sound:
  assumes "\<forall>m \<in> set ms. fmModNum m < length vmes \<and> vme_wf (vmes ! fmModNum m) \<and> module_sound (fmd m)"
  shows "\<exists>vmes'. publish_maps ms vmes = Some vmes' \<and> length vmes' = length vmes \<and>
    (\<forall>m \<in> set ms. module_sound (vmes' ! fmModNum m)) \<and>
    (\<forall>b. b \<notin> fmModNum ` set ms \<longrightarrow> vmes' ! b = vmes ! b)"
  using assms
proof (induction ms arbitrary: vmes)
  case Nil
  then show ?case by simp
next
  case (Cons m ms)
  let ?v = "vmes[fmModNum m := publish (fmd m) (mbiquad m) (vmes ! fmModNum m)]"
  have m: "fmModNum m < length vmes" "module_sound (publish (fmd m) (mbiquad m) (vmes ! fmModNum m))"
    using Cons.prems publish_sound by auto
  then have "\<forall>m' \<in> set ms. fmModNum m' < length ?v \<and> vme_wf (?v ! fmModNum m') \<and> module_sound (fmd m')"
    using Cons.prems by (auto simp: nth_list_update module_sound_def)
  from Cons.IH [OF this] obtain vmes' where v: "publish_maps ms ?v = Some vmes'" "length vmes' = length vmes"
    "\<forall>m \<in> set ms. module_sound (vmes' ! fmModNum m)" "\<forall>b. b \<notin> fmModNum ` set ms \<longrightarrow> vmes' ! b = ?v ! b"
    by auto
  have "module_sound (vmes' ! fmModNum m)"
    using v(3,4) m by (cases "fmModNum m \<in> fmModNum ` set ms") auto
  with v m show ?case by (auto simp: nth_list_update)
qed

lemma statics_numbers:
  assumes "statics ms = statics ms'"
  shows "fmModNum ` set ms = fmModNum ` set ms'"
proof -
  have "map fmModNum xs = map (fst \<circ> snd) (statics xs)" for xs by (simp add: statics_def)
  then have "map fmModNum ms = map fmModNum ms'" using assms by simp
  then show ?thesis by (metis list.set_map)
qed

definition shared_ready :: "subSys \<Rightarrow> VME_FM_OP_COEF list \<Rightarrow> bool" where
  "shared_ready ss vmes \<longleftrightarrow> (\<forall>m \<in> set (maps ss). fmModNum m < length vmes \<and> vme_wf (vmes ! fmModNum m))"

definition published :: "subSys \<Rightarrow> VME_FM_OP_COEF list \<Rightarrow> VME_FM_OP_COEF list \<Rightarrow> bool" where
  "published ss vmes vmes' \<longleftrightarrow> length vmes' = length vmes \<and>
     (\<forall>m \<in> set (maps ss). module_sound (vmes' ! fmModNum m)) \<and>
     (\<forall>b. b \<notin> fmModNum ` set (maps ss) \<longrightarrow> vmes' ! b = vmes ! b)"

definition safe_outcome :: "subSys \<Rightarrow> VME_FM_OP_COEF list \<Rightarrow> fm_result pstep \<Rightarrow> bool" where
  "safe_outcome ss vmes r \<longleftrightarrow>
     (case r of
        Next res \<Rightarrow> if rcode res = 0 then published ss vmes (rvmes res) else rvmes res = vmes
      | _ \<Rightarrow> False)"

lemma finish_read_safe:
  assumes "shared_ready ss vmes" "statics ms = statics (maps ss)" "\<forall>m \<in> set ms. module_sound (fmd m)"
    and "fir \<longrightarrow> txt_arch_closes env"
  shows "safe_outcome ss vmes (finish_read env fmc n fir arch len crc ms vmes)"
proof -
  note nums = statics_numbers [OF assms(2)]
  have "\<forall>b \<in> fmModNum ` set ms. b < length vmes \<and> vme_wf (vmes ! b)"
    using assms(1) by (auto simp: nums shared_ready_def)
  then have "\<forall>m \<in> set ms. fmModNum m < length vmes \<and> vme_wf (vmes ! fmModNum m) \<and> module_sound (fmd m)"
    using assms(3) by blast
  from publish_maps_sound [OF this] obtain vmes' where v: "publish_maps ms vmes = Some vmes'" "length vmes' = length vmes"
    "\<forall>m \<in> set ms. module_sound (vmes' ! fmModNum m)" "\<forall>b. b \<notin> fmModNum ` set ms \<longrightarrow> vmes' ! b = vmes ! b"
    by blast
  have "\<forall>b \<in> fmModNum ` set ms. module_sound (vmes' ! b)" using v(3) by blast
  then have "published ss vmes vmes'" using v(2,4) by (simp add: published_def nums)
  with v(1) show ?thesis using assms(4) by (auto simp: finish_read_def Let_def safe_outcome_def)
qed

lemma clear_map_statics: "statics (map clear_map ms) = statics ms"
  by (simp add: statics_def clear_map_def)

text \<open>From the end of the first file on.\<close>

lemma second_file_safe:
  assumes "shared_ready ss vmes" "reader_sound rd" "statics (rmaps rd) = statics (maps ss)"
    and stop: "\<And>code ms arch. code \<noteq> 0 \<Longrightarrow> safe_outcome ss vmes (stop code ms arch)"
    and "fir \<longrightarrow> txt_arch_closes env"
  shows "safe_outcome ss vmes
    (if \<not> fir then finish_read env fmc n False arch0 len0 crc0 (rmaps rd) vmes
     else (case read_file fir0 [] space crc0 rd of
             File_undefined \<Rightarrow> Undefined
           | File_error code ms \<Rightarrow> stop code ms arch1
           | File_done a crc1 rd \<Rightarrow> finish_read env fmc n True (arch2 a) len1 crc1 (rmaps rd) vmes))"
proof -
  note sound = read_file_sound [OF assms(2), of fir0 "[]" space crc0]
    and kept = read_file_statics [where rd = rd and s = fir0 and arch = "[]" and space = space and crc = crc0]
  have "\<forall>m \<in> set (rmaps rd). module_sound (fmd m)" using assms(2) by (simp add: reader_sound_def)
  then show ?thesis
    using sound kept assms finish_read_safe [OF assms(1)]
    by (auto simp: reader_sound_def split: file_end.splits)
qed

text \<open>C9: whatever the coefficient files hold, the reader stays in its arrays and returns, also when opening, reading, writing
  or closing a file fails, under two conditions: the names that it puts together fit their buffers, and the archive of the
  \<open>.txt\<close> file closes when a \<open>.fir\<close> file was found (otherwise the code closes it twice). The arrays are those of the
  coefficients, names, tokens and modules; the two buffers for the texts of the messages are not modelled. If it returns an error, shared memory is as it was. If it returns 0, every module of the subsystem has been
  published with at most ten sections per filter, legal switch types and times, and names that fit; modules of other
  subsystems are untouched.\<close>

theorem coefficient_reader_safe:
  assumes "n < length (subSystems fmc)" "names_fit env gps fmc (subSystems fmc ! n)"
    and "shared_ready (subSystems fmc ! n) vmes" "fir_found env \<longrightarrow> txt_arch_closes env"
  shows "\<exists>res. fmReadCoeffFile env fmc n gps vmes = Next res \<and>
    (if rcode res = 0 then published (subSystems fmc ! n) vmes (rvmes res) else rvmes res = vmes)"
proof -
  define ss where "ss = subSystems fmc ! n"
  define rd where "rd = \<lparr>rmaps = map clear_map (maps ss), inFilter = 0, curFilter = None, curFilterNum = 0\<rparr>"
  have rd: "reader_sound rd" "statics (rmaps rd) = statics (maps ss)"
    using zero_fmd_sound by (auto simp: rd_def reader_sound_def clear_map_statics clear_map_def)
  define stop where "stop = (\<lambda>code ms arch. Next \<lparr>rcode = code,
      rfmc = fmc\<lparr>subSystems := (subSystems fmc)[n := ss\<lparr>maps := ms\<rparr>]\<rparr>, rvmes = vmes, rarchives = arch\<rparr>)"
  have st: "code \<noteq> 0 \<Longrightarrow> safe_outcome ss vmes (stop code ms arch)" for code ms arch
    by (simp add: stop_def safe_outcome_def)
  have "safe_outcome ss vmes (fmReadCoeffFile env fmc n gps vmes)"
  proof (cases "txt_file env = None \<or> txt_file env = Some [] \<or> \<not> txt_opens env \<or> txt_disk env = None")
    case True
    then show ?thesis
      using assms(1,2) by (auto simp: fmReadCoeffFile_def Let_def safe_outcome_def split: option.splits)
  next
    case False
    then obtain txt0 space where go: "txt_file env = Some txt0" "txt0 \<noteq> []" "txt_opens env" "txt_disk env = Some space"
      by auto
    note sound = read_file_sound [OF rd(1), of txt0 "[]" space 0]
      and kept = read_file_statics [where rd = rd and s = txt0 and arch = "[]" and space = space and crc = 0, unfolded rd(2)]
    show ?thesis
    proof (cases "read_file txt0 [] space 0 rd")
      case File_undefined
      then show ?thesis using sound by simp
    next
      case (File_error code ms)
      then show ?thesis
        using assms(1,2) go sound by (simp add: fmReadCoeffFile_def Let_def safe_outcome_def ss_def rd_def)
    next
      case (File_done arch0 crc0 rd0)
      then have "reader_sound rd0" "statics (rmaps rd0) = statics (maps ss)" using sound kept by simp_all
      note second = second_file_safe [where stop = stop, OF assms(3) [folded ss_def] this st assms(4)]
      show ?thesis
        unfolding fmReadCoeffFile_def ss_def [symmetric] Let_def rd_def [symmetric]
        using assms(1,2) [folded ss_def] go File_done
        by (simp only: option.case file_end.case simp_thms if_False if_True) (rule second [unfolded stop_def])
    qed
  qed
  then show ?thesis
    unfolding safe_outcome_def ss_def by (auto split: pstep.splits)
qed

end
