(* ===== verification/CoeffText.thy ===== *)
theory CoeffText
  imports CoeffLoad
begin

text \<open>
  Files as they are meant to be written: a filter is a line with its bank, number, switch type, number of sections, ramp
  and timeout, name, gain and first section, followed by a line for every further section. The numbers may be in any
  notation that the C library reads.
\<close>

section \<open>Lines\<close>

definition line_of :: "string list \<Rightarrow> string" where
  "line_of toks = concat (map (\<lambda>t. t @ '' '') toks) @ [CHR 0x0A]"

definition tok_ok :: "string \<Rightarrow> bool" where
  "tok_ok t \<longleftrightarrow> t \<noteq> [] \<and> (\<forall>c \<in> set t. \<not> isspace c \<and> c \<noteq> CHR 0x00)"

definition line_ok :: "string list \<Rightarrow> bool" where
  "line_ok toks \<longleftrightarrow> toks \<noteq> [] \<and> length toks \<le> MAX_TOKENS \<and> (\<forall>t \<in> set toks. tok_ok t) \<and>
     hd (hd toks) \<noteq> CHR ''#'' \<and> length (line_of toks) \<le> 1023"

lemma is_sep_isspace: "is_sep c \<Longrightarrow> isspace c"
  by (auto simp: is_sep_def isspace_def)

lemma tokens_blank: "tokens n (CHR '' '' # s) = tokens n s"
  by (cases n) (simp_all add: is_sep_def)

lemma tokens_token:
  assumes "tok_ok t"
  shows "tokens (Suc n) (t @ CHR '' '' # s) = t # tokens n s"
proof -
  have c: "\<forall>c \<in> set t. \<not> is_sep c" using assms is_sep_isspace by (auto simp: tok_ok_def)
  have d: "dropWhile is_sep (t @ CHR '' '' # s) = t @ CHR '' '' # s"
    using assms c by (cases t) (auto simp: tok_ok_def)
  have b: "is_sep (CHR '' '')" by (simp add: is_sep_def)
  have "takeWhile (\<lambda>c. \<not> is_sep c) (t @ CHR '' '' # s) = t"
    "dropWhile (\<lambda>c. \<not> is_sep c) (t @ CHR '' '' # s) = CHR '' '' # s"
    using c b by (simp_all add: takeWhile_append2 dropWhile_append2)
  then show ?thesis using assms d by (simp add: tok_ok_def tokens_blank)
qed

lemma tokens_line_of: "\<forall>t \<in> set toks. tok_ok t \<Longrightarrow> length toks \<le> n \<Longrightarrow> tokens n (line_of toks) = toks"
proof (induction toks arbitrary: n)
  case Nil
  then show ?case by (cases n) (simp_all add: line_of_def is_sep_def)
next
  case (Cons t toks)
  then obtain k where n: "n = Suc k" by (cases n) auto
  have "line_of (t # toks) = t @ CHR '' '' # line_of toks" by (simp add: line_of_def)
  then show ?case
    using Cons.IH [of k] Cons.prems n tokens_token [of t k "line_of toks"] by (simp del: tokens.simps)
qed

lemma info_line_of: "line_ok toks \<Longrightarrow> info_line (line_of toks)"
proof -
  assume ok: "line_ok toks"
  then obtain t ts c cs where t: "toks = t # ts" "t = c # cs" "\<not> isspace c" "c \<noteq> CHR ''#''"
    by (cases toks; cases "hd toks") (auto simp: line_ok_def tok_ok_def)
  have "line_of toks = c # (cs @ '' '' @ line_of ts)" by (simp add: line_of_def t)
  then show ?thesis using t by (simp add: info_line_def Let_def)
qed

lemma fline_newline:
  "\<forall>c \<in> set s. c \<noteq> CHR 0x0A \<Longrightarrow> length s < n \<Longrightarrow> fline n (s @ CHR 0x0A # r) = s @ [CHR 0x0A]"
proof (induction s arbitrary: n)
  case Nil
  then show ?case by (cases n) simp_all
next
  case (Cons c s)
  then show ?case by (cases n) auto
qed

lemma line_of_plain:
  assumes "\<forall>t \<in> set toks. tok_ok t" "c \<in> set (concat (map (\<lambda>t. t @ '' '') toks))"
  shows "c \<noteq> CHR 0x0A \<and> c \<noteq> CHR 0x00"
proof -
  have "(\<exists>t \<in> set toks. c \<in> set t) \<or> c = CHR '' ''" using assms(2) by (auto split: if_splits)
  then show ?thesis
  proof (elim disjE bexE)
    fix t assume "t \<in> set toks" "c \<in> set t"
    then have "\<not> isspace c \<and> c \<noteq> CHR 0x00" using assms(1) by (simp add: tok_ok_def)
    then show ?thesis by (auto simp: isspace_def)
  qed simp
qed

lemma fline_line_of: "line_ok toks \<Longrightarrow> fline 1023 (line_of toks @ r) = line_of toks"
  using fline_newline [of "concat (map (\<lambda>t. t @ '' '') toks)" 1023 r] line_of_plain [of toks]
  by (auto simp: line_ok_def line_of_def)

lemma cstr_line_of: "line_ok toks \<Longrightarrow> cstr (line_of toks) = line_of toks"
  unfolding cstr_def using line_of_plain [of toks]
  by (intro takeWhile_eq_all_conv [THEN iffD2]) (auto simp: line_ok_def line_of_def)

section \<open>Lists of lines\<close>

definition line_step :: "string list \<Rightarrow> reader \<Rightarrow> reader pstep" where
  "line_step toks rd =
     (if length toks < (if inFilter rd \<noteq> 0 then 4 else MAX_TOKENS) then Fail
      else if inFilter rd \<noteq> 0 then cont_line toks rd else header_line toks rd)"

fun run_lines :: "string list list \<Rightarrow> reader \<Rightarrow> reader pstep" where
  "run_lines [] rd = Next rd"
| "run_lines (l # ls) rd = (case line_step l rd of Next rd' \<Rightarrow> run_lines ls rd' | e \<Rightarrow> e)"

lemma run_lines_append:
  "run_lines ls rd = Next rd' \<Longrightarrow> run_lines (ls @ ls') rd = run_lines ls' rd'"
  by (induction ls arbitrary: rd) (auto split: pstep.splits)

lemma coeff_line_of: "line_ok toks \<Longrightarrow> coeff_line (line_of toks) rd = line_step toks rd"
  by (auto simp: coeff_line_def line_step_def info_line_of lineTok_def Let_def line_ok_def tokens_line_of)

lemma read_file_lines:
  assumes "\<forall>l \<in> set ls. line_ok l" "run_lines ls rd = Next rd'" "length (concat (map line_of ls)) \<le> space"
  shows "read_file (concat (map line_of ls)) arch space crc rd =
    File_done (arch @ concat (map line_of ls)) (crc_ptr (bytes_of (concat (map line_of ls))) crc) rd'"
  using assms
proof (induction ls arbitrary: arch space crc rd)
  case Nil
  then show ?case by (simp add: read_file.simps bytes_of_def)
next
  case (Cons l ls)
  have l: "line_ok l" "line_of l \<noteq> []" using Cons.prems(1) by (simp_all add: line_of_def)
  obtain rd1 where rd1: "line_step l rd = Next rd1" "run_lines ls rd1 = Next rd'"
    using Cons.prems(2) by (auto split: pstep.splits)
  let ?t = "concat (map line_of ls)"
  have "read_file (line_of l @ ?t) arch space crc rd =
      read_file ?t (arch @ line_of l) (space - length (line_of l)) (crc_ptr (bytes_of (line_of l)) crc) rd1"
    using l Cons.prems(3) rd1(1)
    by (subst read_file.simps) (simp add: Let_def fline_line_of cstr_line_of coeff_line_of)
  also have "\<dots> = File_done ((arch @ line_of l) @ ?t) (crc_ptr (bytes_of ?t) (crc_ptr (bytes_of (line_of l)) crc)) rd'"
    using Cons.prems rd1(2) by (intro Cons.IH) auto
  finally show ?case by (simp add: bytes_of_def crc.upd_append)
qed

section \<open>Filters\<close>

type_synonym filt = "string list \<times> string list list"

definition int_field :: "filt \<Rightarrow> nat \<Rightarrow> int" where
  "int_field f j = the (intToken (fst f ! j))"

definition filt_num :: "filt \<Rightarrow> nat" where "filt_num f = nat (int_field f 1)"
definition filt_bank :: "filt \<Rightarrow> string" where "filt_bank f = fst f ! 0"

definition doubles_of :: "string list \<Rightarrow> fp list" where
  "doubles_of ts = map (the \<circ> doubleToken) ts"

definition doubles_ok :: "string list \<Rightarrow> bool" where
  "doubles_ok ts \<longleftrightarrow> (\<forall>t \<in> set ts. doubleToken t \<noteq> None)"

definition filt_ok :: "filt \<Rightarrow> bool" where
  "filt_ok f \<longleftrightarrow> length (fst f) = MAX_TOKENS \<and> (\<forall>l \<in> set (fst f # snd f). line_ok l) \<and>
     (\<forall>j \<in> {1, 2, 3, 4, 5}. intToken (fst f ! j) \<noteq> None) \<and>
     0 \<le> int_field f 1 \<and> int_field f 1 \<le> 9 \<and> int_field f 2 \<in> {11, 12, 13, 14, 21, 22, 23, 24} \<and>
     int_field f 3 = int (length (snd f)) + 1 \<and> int_field f 3 \<le> 10 \<and>
     0 \<le> int_field f 4 \<and> 0 \<le> int_field f 5 \<and> length (fst f ! 6) \<le> 31 \<and>
     doubles_ok (drop 7 (fst f)) \<and> (\<forall>c \<in> set (snd f). length c = 4 \<and> doubles_ok c)"

text \<open>The coefficients of a filter: those of the file, or, when the module has the biquad form, \<open>- a1 - 1\<close>,
  \<open>- a2 - a1 - 1\<close>, \<open>b1 - a1\<close> and \<open>b2 - a2 + b1 - a1\<close> for each section.\<close>

fun module_form :: "int \<Rightarrow> fp list \<Rightarrow> fp list" where
  "module_form bq [a1, a2, b1, b2] =
     (if bq = 0 then [a1, a2, b1, b2]
      else [fsub (fneg a1) (of_cint 1), fsub (fsub (fneg a2) a1) (of_cint 1), fsub b1 a1, fsub (fadd (fsub b2 a2) b1) a1])"
| "module_form bq _ = []"

definition filt_coeffs :: "int \<Rightarrow> filt \<Rightarrow> fp list" where
  "filt_coeffs bq f = the (doubleToken (fst f ! 7)) #
     concat (map (module_form bq \<circ> doubles_of) (drop 8 (fst f) # snd f))"

lemma section_coeffs_form: "length cs = 4 \<Longrightarrow> section_coeffs bq cs = module_form bq cs"
  by (auto simp: section_coeffs_def biquad_of_def doubles_def length_Suc_conv numeral_eq_Suc)

lemma filt_coeffs_sections:
  assumes "filt_ok f"
  shows "filt_coeffs bq f = the (doubleToken (fst f ! 7)) #
     concat (map (section_coeffs bq \<circ> doubles_of) (drop 8 (fst f) # snd f))"
proof -
  have "module_form bq (doubles_of ts) = section_coeffs bq (doubles_of ts)" if "ts \<in> set (drop 8 (fst f) # snd f)" for ts
    using that assms section_coeffs_form [of "doubles_of ts" bq] by (auto simp: filt_ok_def doubles_of_def)
  then have "map (module_form bq \<circ> doubles_of) (drop 8 (fst f) # snd f) = map (section_coeffs bq \<circ> doubles_of) (drop 8 (fst f) # snd f)"
    by (intro map_cong) simp_all
  then show ?thesis by (simp only: filt_coeffs_def)
qed

definition store_filter :: "filt \<Rightarrow> fmSubSysMap \<Rightarrow> fmSubSysMap" where
  "store_filter f m =
     (let d = fmd m; j = filt_num f; cs = filt_coeffs (mbiquad m) f
      in m\<lparr>filters := filters m + 1,
           fmd := d\<lparr>bankNum := int (fmModNum m),
             vfiltSections := (vfiltSections d)[j := int_field f 3], vsType := (vsType d)[j := int_field f 2],
             vramp := (vramp d)[j := int_field f 4], vtimout := (vtimout d)[j := int_field f 5],
             vfiltName := (vfiltName d)[j := fst f ! 6], vfilterType := (vfilterType d)[j := 0],
             vfiltCoeff := (vfiltCoeff d)[j := cs @ drop (length cs) (vfiltCoeff d ! j)]\<rparr>\<rparr>)"

definition store_in :: "filt \<Rightarrow> fmSubSysMap list \<Rightarrow> fmSubSysMap list" where
  "store_in f ms = (case find_map (filt_bank f) ms 0 of None \<Rightarrow> ms | Some i \<Rightarrow> ms[i := store_filter f (ms ! i)])"

definition filt_text :: "filt \<Rightarrow> string" where
  "filt_text f = concat (map line_of (fst f # snd f))"

lemma those_doubles: "doubles_ok ts \<Longrightarrow> those (map doubleToken ts) = Some (doubles_of ts)"
  unfolding doubles_ok_def doubles_of_def by (rule those_map_Some) blast

lemma stype_conditions:
  "st \<in> {11, 12, 13, 14, 21, 22, 23, 24 :: int} \<Longrightarrow>
     \<not> (st sdiv 10 \<noteq> 1 \<and> st sdiv 10 \<noteq> 2 \<or> st smod 10 < 1 \<or> st smod 10 > 4)"
  by (auto simp: sdiv_nonneg smod_nonneg)

text \<open>The first line of a filter.\<close>

lemma header_line_filt:
  assumes "filt_ok f"
  shows "header_line (fst f) rd =
    (let rd = rd\<lparr>inFilter := int (length (snd f)), curFilter := None, curFilterNum := 0\<rparr>
     in Next (case find_map (filt_bank f) (rmaps rd) 0 of
          None \<Rightarrow> rd
        | Some i \<Rightarrow> rd\<lparr>curFilter := Some i, curFilterNum := filt_num f,
             rmaps := (rmaps rd)[i := store_header (filt_num f) (int_field f 2) (int_field f 3) (int_field f 4)
               (int_field f 5) (fst f ! 6) (doubles_of (drop 7 (fst f))) (rmaps rd ! i)]\<rparr>))"
proof -
  obtain t0 t1 t2 t3 t4 t5 ts where h: "fst f = t0 # t1 # t2 # t3 # t4 # t5 # ts"
    using assms by (auto simp: filt_ok_def numeral_eq_Suc length_Suc_conv)
  have i: "map intToken (take 5 (drop 1 (fst f))) =
      [Some (int_field f 1), Some (int_field f 2), Some (int_field f 3), Some (int_field f 4), Some (int_field f 5)]"
    using assms by (auto simp: filt_ok_def int_field_def h)
  have "take 5 (drop 7 (fst f)) = drop 7 (fst f)" using assms by (simp add: filt_ok_def)
  then have d: "those (map doubleToken (take 5 (drop 7 (fst f)))) = Some (doubles_of (drop 7 (fst f)))"
    using assms those_doubles by (simp add: filt_ok_def)
  have g: "\<not> (int_field f 1 < 0 \<or> int_field f 1 > 9)" "int_field f 3 > 0 \<and> int_field f 3 \<le> 10"
    "\<not> (int_field f 4 < 0 \<or> int_field f 5 < 0)" "\<not> length (fst f ! 6) > 31"
    "int_field f 3 - 1 = int (length (snd f))"
    using assms by (auto simp: filt_ok_def)
  have st: "\<not> (int_field f 2 sdiv 10 \<noteq> 1 \<and> int_field f 2 sdiv 10 \<noteq> 2 \<or> int_field f 2 smod 10 < 1 \<or> int_field f 2 smod 10 > 4)"
    by (rule stype_conditions) (use assms in \<open>simp add: filt_ok_def\<close>)
  show ?thesis
    unfolding header_line_def i list.case option.case d
    using g st by (simp only: if_False if_True Let_def simp_thms filt_bank_def filt_num_def)
      (simp split: option.split)
qed

text \<open>The further lines: the coefficients of filter \<open>n\<close> of module \<open>i\<close> fill up, four at a time.\<close>

definition put_coeffs :: "nat \<Rightarrow> nat \<Rightarrow> fp list \<Rightarrow> fmSubSysMap list \<Rightarrow> fmSubSysMap list" where
  "put_coeffs i n xs ms =
     ms[i := (ms ! i)\<lparr>fmd := (fmd (ms ! i))\<lparr>vfiltCoeff := (vfiltCoeff (fmd (ms ! i)))[n := xs]\<rparr>\<rparr>]"

definition expects :: "nat \<Rightarrow> nat \<Rightarrow> fp list \<Rightarrow> nat \<Rightarrow> reader \<Rightarrow> bool" where
  "expects i n P left rd \<longleftrightarrow>
     (let d = fmd (rmaps rd ! i)
      in curFilter rd = Some i \<and> curFilterNum rd = n \<and> i < length (rmaps rd) \<and> n < FILTERS \<and>
         inFilter rd = int left \<and> vfilterType d ! n = 0 \<and> length (vfiltCoeff d) = FILTERS \<and>
         length (vfiltCoeff d ! n) = MAX_COEFFS \<and> take (length P) (vfiltCoeff d ! n) = P \<and>
         length P + 4 * left = 4 * nat (vfiltSections d ! n) + 1 \<and>
         0 < vfiltSections d ! n \<and> vfiltSections d ! n \<le> 10 \<and> int left < vfiltSections d ! n)"

lemma put_coeffs_twice: "put_coeffs i n ys (put_coeffs i n xs ms) = put_coeffs i n ys ms"
  by (cases "i < length ms") (simp_all add: put_coeffs_def list_update_beyond)

lemma put_coeffs_mbiquad [simp]: "mbiquad (put_coeffs i n xs ms ! i) = mbiquad (ms ! i)"
  by (cases "i < length ms") (simp_all add: put_coeffs_def list_update_beyond)

lemma cont_line_fills:
  assumes "expects i n P (Suc left) rd" "length c = 4" "doubles_ok c"
  defines "S \<equiv> section_coeffs (mbiquad (rmaps rd ! i)) (doubles_of c)"
  defines "old \<equiv> vfiltCoeff (fmd (rmaps rd ! i)) ! n"
  shows "cont_line c rd = Next (rd\<lparr>inFilter := int left,
      rmaps := put_coeffs i n (P @ S @ drop (length P + 4) old) (rmaps rd)\<rparr>)"
    "expects i n (P @ S) left (rd\<lparr>inFilter := int left,
      rmaps := put_coeffs i n (P @ S @ drop (length P + 4) old) (rmaps rd)\<rparr>)"
proof -
  define d where "d = fmd (rmaps rd ! i)"
  have e: "curFilter rd = Some i" "curFilterNum rd = n" "i < length (rmaps rd)" "n < 10" "inFilter rd = int left + 1"
    "vfilterType d ! n = 0" "length (vfiltCoeff d) = 10" "length old = 41" "take (length P) old = P"
    "length P + 4 * left + 4 = 4 * nat (vfiltSections d ! n) + 1" "0 < vfiltSections d ! n" "vfiltSections d ! n \<le> 10"
    "int left + 1 < vfiltSections d ! n"
    using assms(1) by (auto simp: expects_def Let_def d_def old_def)
  have "int (length P) + 4 * int left + 4 = 4 * (vfiltSections d ! n) + 1" using e(10,11) by linarith
  then have k: "5 + 4 * (vfiltSections d ! n - int left - 2) = int (length P)" "length P + 3 < 41"
    using e(12) by simp_all
  have S: "length S = 4" using assms(2) by (simp add: S_def length_section_coeffs doubles_of_def)
  have t: "those (map doubleToken (take 4 c)) = Some (doubles_of c)" using those_doubles [OF assms(3)] assms(2) by simp
  show "cont_line c rd = Next (rd\<lparr>inFilter := int left,
      rmaps := put_coeffs i n (P @ S @ drop (length P + 4) old) (rmaps rd)\<rparr>)"
    using e t k by (simp add: cont_line_def Let_def d_def [symmetric] put_coeffs_def S_def [symmetric] old_def [symmetric])
      (simp add: d_def old_def)
  show "expects i n (P @ S) left (rd\<lparr>inFilter := int left,
      rmaps := put_coeffs i n (P @ S @ drop (length P + 4) old) (rmaps rd)\<rparr>)"
    using e k S by (simp add: expects_def Let_def put_coeffs_def d_def [symmetric])
qed

lemma run_continuation:
  assumes "expects i n P (length cs) rd" "\<forall>c \<in> set cs. length c = 4 \<and> doubles_ok c"
  defines "S \<equiv> concat (map (section_coeffs (mbiquad (rmaps rd ! i)) \<circ> doubles_of) cs)"
  shows "run_lines cs rd = Next (rd\<lparr>inFilter := 0,
    rmaps := put_coeffs i n (P @ S @ drop (length P + length S) (vfiltCoeff (fmd (rmaps rd ! i)) ! n)) (rmaps rd)\<rparr>)"
  using assms(1,2) unfolding S_def
proof (induction cs arbitrary: P rd)
  case Nil
  then have "P @ drop (length P) (vfiltCoeff (fmd (rmaps rd ! i)) ! n) = vfiltCoeff (fmd (rmaps rd ! i)) ! n"
    "inFilter rd = 0"
    by (auto simp: expects_def Let_def)
  then show ?case by (cases rd) (simp add: put_coeffs_def)
next
  case (Cons c cs)
  have c: "length c = 4" "doubles_ok c" "inFilter rd \<noteq> 0"
    using Cons.prems by (auto simp: expects_def Let_def)
  let ?S = "section_coeffs (mbiquad (rmaps rd ! i)) (doubles_of c)"
  let ?old = "vfiltCoeff (fmd (rmaps rd ! i)) ! n"
  let ?rd = "rd\<lparr>inFilter := int (length cs), rmaps := put_coeffs i n (P @ ?S @ drop (length P + 4) ?old) (rmaps rd)\<rparr>"
  note step = cont_line_fills [OF _ c(1,2), of i n P "length cs" rd]
  have S4: "length ?S = 4" using c(1) by (simp add: length_section_coeffs doubles_of_def)
  have e: "expects i n P (Suc (length cs)) rd" using Cons.prems(1) by simp
  have in_range: "i < length (rmaps rd)" "n < length (vfiltCoeff (fmd (rmaps rd ! i)))" "length P + 4 \<le> length ?old"
    using e by (auto simp: expects_def Let_def)
  have "run_lines (c # cs) rd = run_lines cs ?rd"
    using step(1) [OF e] c by (simp add: line_step_def)
  also have "\<dots> = Next (?rd\<lparr>inFilter := 0, rmaps := put_coeffs i n
      ((P @ ?S) @ concat (map (section_coeffs (mbiquad (rmaps ?rd ! i)) \<circ> doubles_of) cs) @
       drop (length (P @ ?S) + length (concat (map (section_coeffs (mbiquad (rmaps ?rd ! i)) \<circ> doubles_of) cs)))
         (vfiltCoeff (fmd (rmaps ?rd ! i)) ! n)) (rmaps ?rd)\<rparr>)"
    using Cons.prems(2) step(2) [OF e] by (intro Cons.IH) simp_all
  finally show ?case
    using in_range S4 by (simp add: put_coeffs_twice) (simp add: put_coeffs_def comp_def add.assoc add.commute add.left_commute)
qed

lemma run_continuation_foreign:
  assumes "curFilter rd = None" "inFilter rd = int (length cs)" "\<forall>c \<in> set cs. length c = 4"
  shows "run_lines cs rd = Next (rd\<lparr>inFilter := 0\<rparr>)"
  using assms
proof (induction cs arbitrary: rd)
  case Nil
  then show ?case by (cases rd) simp
next
  case (Cons c cs)
  then show ?case by (simp add: line_step_def cont_line_def Let_def)
qed

lemma header_coeffs:
  assumes "filt_ok f"
  shows "doubles_of (drop 7 (fst f)) ! 0 # section_coeffs bq (tl (doubles_of (drop 7 (fst f)))) =
      take 5 (filt_coeffs bq f)" (is "?head = _")
    "filt_coeffs bq f = take 5 (filt_coeffs bq f) @ concat (map (section_coeffs bq \<circ> doubles_of) (snd f))"
    "length (filt_coeffs bq f) = 4 * nat (int_field f 3) + 1"
proof -
  have l: "length (fst f) = 12" using assms by (simp add: filt_ok_def)
  have "drop 7 (fst f) = fst f ! 7 # drop 8 (fst f)" using l Cons_nth_drop_Suc [of 7 "fst f"] by simp
  then have h: "?head = the (doubleToken (fst f ! 7)) # section_coeffs bq (doubles_of (drop 8 (fst f)))"
    by (simp add: doubles_of_def)
  have l8: "length (section_coeffs bq (doubles_of (drop 8 (fst f)))) = 4"
    using l by (simp add: length_section_coeffs doubles_of_def)
  show "?head = take 5 (filt_coeffs bq f)"
    using l8 unfolding h by (simp add: filt_coeffs_sections [OF assms])
  show "filt_coeffs bq f = take 5 (filt_coeffs bq f) @ concat (map (section_coeffs bq \<circ> doubles_of) (snd f))"
    using l8 by (simp add: filt_coeffs_sections [OF assms])
  have "length (concat (map (section_coeffs bq \<circ> doubles_of) cs)) = 4 * length cs"
    if "\<forall>c \<in> set cs. length c = 4" for cs
    using that by (induction cs) (simp_all add: length_section_coeffs doubles_of_def)
  from this [of "snd f"] show "length (filt_coeffs bq f) = 4 * nat (int_field f 3) + 1"
    using assms l8 by (simp add: filt_coeffs_sections [OF assms] filt_ok_def nat_add_distrib)
qed

text \<open>After the first line the module has the first section, and the reader expects the others.\<close>

definition header_map :: "filt \<Rightarrow> fmSubSysMap \<Rightarrow> fmSubSysMap" where
  "header_map f m = store_header (filt_num f) (int_field f 2) (int_field f 3) (int_field f 4) (int_field f 5) (fst f ! 6)
     (doubles_of (drop 7 (fst f))) m"

definition after_header :: "filt \<Rightarrow> nat \<Rightarrow> reader \<Rightarrow> reader" where
  "after_header f i rd = rd\<lparr>inFilter := int (length (snd f)), curFilter := Some i, curFilterNum := filt_num f,
     rmaps := (rmaps rd)[i := header_map f (rmaps rd ! i)]\<rparr>"

lemma header_map_coeffs:
  assumes "filt_ok f"
  shows "vfiltCoeff (fmd (header_map f m)) = (vfiltCoeff (fmd m))[filt_num f :=
           take 5 (filt_coeffs (mbiquad m) f) @ drop 5 (vfiltCoeff (fmd m) ! filt_num f)]"
    and "mbiquad (header_map f m) = mbiquad m" "length (take 5 (filt_coeffs (mbiquad m) f)) = 5"
proof -
  show "vfiltCoeff (fmd (header_map f m)) = (vfiltCoeff (fmd m))[filt_num f :=
      take 5 (filt_coeffs (mbiquad m) f) @ drop 5 (vfiltCoeff (fmd m) ! filt_num f)]"
    "mbiquad (header_map f m) = mbiquad m"
    by (simp_all add: header_map_def store_header_def Let_def flip: header_coeffs(1) [OF assms])
  show "length (take 5 (filt_coeffs (mbiquad m) f)) = 5"
    using header_coeffs(3) [OF assms, of "mbiquad m"] assms by (simp add: filt_ok_def)
qed

lemma header_expects:
  assumes "filt_ok f" "i < length (rmaps rd)" "module_sound (fmd (rmaps rd ! i))"
  shows "expects i (filt_num f) (take 5 (filt_coeffs (mbiquad (rmaps rd ! i)) f)) (length (snd f)) (after_header f i rd)"
proof -
  define m where "m = rmaps rd ! i"
  note hm = header_map_coeffs [OF assms(1), of m]
  have j: "filt_num f < 10" using assms(1) by (auto simp: filt_num_def filt_ok_def)
  have wf: "vme_wf (fmd m)" using assms(3) by (simp add: module_sound_def m_def)
  have "vfilterType (fmd (header_map f m)) ! filt_num f = 0"
    "vfiltSections (fmd (header_map f m)) ! filt_num f = int_field f 3" "length (vfiltCoeff (fmd (header_map f m))) = 10"
    using j wf by (simp_all add: header_map_def store_header_def Let_def vme_wf_def)
  moreover have "vfiltCoeff (fmd (header_map f m)) ! filt_num f =
      take 5 (filt_coeffs (mbiquad m) f) @ drop 5 (vfiltCoeff (fmd m) ! filt_num f)"
    "length (vfiltCoeff (fmd m) ! filt_num f) = 41"
    using j wf hm(1) by (simp_all add: vme_wf_def)
  moreover have "int_field f 3 = int (length (snd f)) + 1" "int_field f 3 \<le> 10"
    using assms(1) by (simp_all add: filt_ok_def)
  ultimately show ?thesis
    using assms(2) j hm(3) by (simp add: expects_def Let_def after_header_def nat_add_distrib flip: m_def)
qed

lemma run_own_sections:
  assumes "filt_ok f" "i < length (rmaps rd)" "module_sound (fmd (rmaps rd ! i))"
  shows "run_lines (snd f) (after_header f i rd) =
    Next ((after_header f i rd)\<lparr>inFilter := 0, rmaps := (rmaps rd)[i := store_filter f (rmaps rd ! i)]\<rparr>)"
proof -
  define m where "m = rmaps rd ! i"
  define C where "C = filt_coeffs (mbiquad m) f"
  define S where "S = concat (map (section_coeffs (mbiquad m) \<circ> doubles_of) (snd f))"
  define old where "old = vfiltCoeff (fmd m) ! filt_num f"
  note hm = header_map_coeffs [OF assms(1), of m] and e = header_expects [OF assms]
  have four: "\<forall>c \<in> set (snd f). length c = 4 \<and> doubles_ok c" using assms(1) by (auto simp: filt_ok_def)
  have j: "filt_num f < 10" using assms(1) by (auto simp: filt_num_def filt_ok_def)
  have wf: "vme_wf (fmd m)" using assms(3) by (simp add: module_sound_def m_def)
  have C: "C = take 5 C @ S" unfolding C_def S_def by (rule header_coeffs(2) [OF assms(1)])
  have lC: "length C = length (take 5 C) + length S" by (subst C) (simp only: length_append)
  have "vfiltCoeff (fmd (rmaps (after_header f i rd) ! i)) ! filt_num f = take 5 C @ drop 5 old"
    using assms(2) j wf hm(1) by (simp add: after_header_def C_def old_def vme_wf_def flip: m_def)
  moreover have "drop (length (take 5 C) + length S) (take 5 C @ drop 5 old) = drop (length C) old"
    using hm(3) lC by (simp add: C_def add.commute)
  then have "take 5 C @ S @ drop (length (take 5 C) + length S) (take 5 C @ drop 5 old) = C @ drop (length C) old"
    using C by (metis append_assoc)
  ultimately have "run_lines (snd f) (after_header f i rd) = Next ((after_header f i rd)\<lparr>inFilter := 0,
      rmaps := put_coeffs i (filt_num f) (C @ drop (length C) old) (rmaps (after_header f i rd))\<rparr>)"
    using run_continuation [OF e four] assms(2)
    by (simp add: after_header_def hm(2) flip: m_def C_def S_def)
  moreover have "(header_map f m)\<lparr>fmd := (fmd (header_map f m))\<lparr>vfiltCoeff :=
      (vfiltCoeff (fmd (header_map f m)))[filt_num f := C @ drop (length C) old]\<rparr>\<rparr> = store_filter f m"
    unfolding hm(1)
    by (simp add: header_map_def store_filter_def store_header_def Let_def C_def old_def)
  ultimately show ?thesis
    using assms(2) by (simp add: put_coeffs_def after_header_def flip: m_def)
qed

lemma run_filter:
  assumes "filt_ok f" "inFilter rd = 0" "\<forall>m \<in> set (rmaps rd). module_sound (fmd m)"
  shows "\<exists>rd'. run_lines (fst f # snd f) rd = Next rd' \<and> inFilter rd' = 0 \<and> rmaps rd' = store_in f (rmaps rd)"
proof -
  define rd1 where "rd1 = rd\<lparr>inFilter := int (length (snd f)), curFilter := None, curFilterNum := 0\<rparr>"
  have four: "\<forall>c \<in> set (snd f). length c = 4 \<and> doubles_ok c" "length (fst f) = 12"
    using assms(1) by (auto simp: filt_ok_def)
  have head: "line_step (fst f) rd = header_line (fst f) rd" using assms(2) four by (simp add: line_step_def)
  show ?thesis
  proof (cases "find_map (filt_bank f) (rmaps rd) 0")
    case None
    then have "line_step (fst f) rd = Next rd1"
      unfolding head header_line_filt [OF assms(1)] by (simp add: rd1_def Let_def)
    moreover have "run_lines (snd f) rd1 = Next (rd1\<lparr>inFilter := 0\<rparr>)"
      by (rule run_continuation_foreign) (use four in \<open>auto simp: rd1_def\<close>)
    ultimately show ?thesis using None by (simp add: rd1_def store_in_def)
  next
    case (Some i)
    have i: "i < length (rmaps rd)" "module_sound (fmd (rmaps rd ! i))"
      using find_map_bound [OF Some] assms(3) by auto
    have "line_step (fst f) rd = Next (after_header f i rd)"
      unfolding head header_line_filt [OF assms(1)]
      using Some by (simp add: after_header_def header_map_def Let_def)
    then show ?thesis using run_own_sections [OF assms(1) i] Some by (simp add: after_header_def store_in_def)
  qed
qed

section \<open>Files of filters\<close>

lemma store_filter_sound:
  assumes "filt_ok f" "module_sound (fmd m)"
  shows "module_sound (fmd (store_filter f m))"
proof -
  let ?d = "fmd (store_filter f m)" and ?C = "filt_coeffs (mbiquad m) f"
  have j: "filt_num f < 10" using assms(1) by (auto simp: filt_num_def filt_ok_def)
  have wf: "vme_wf (fmd m)" "length (vfiltName (fmd m)) = 10" "\<And>j. j < 10 \<Longrightarrow> filter_sound (fmd m) j"
    using assms(2) by (auto simp: module_sound_def)
  have "length ?C \<le> 41" using header_coeffs(3) [OF assms(1)] assms(1) by (auto simp: filt_ok_def nat_le_iff)
  then have "length (?C @ drop (length ?C) (vfiltCoeff (fmd m) ! filt_num f)) = 41"
    using wf(1) j by (simp add: vme_wf_def)
  then have "vme_wf ?d"
    using wf(1) by (auto simp: store_filter_def Let_def vme_wf_def dest!: set_update_subset_insert [THEN subsetD])
  moreover have "filter_sound ?d k" if "k < 10" for k
  proof (cases "k = filt_num f")
    case True
    then show ?thesis
      using wf assms(1) j by (simp add: store_filter_def Let_def filter_sound_def vme_wf_def filt_ok_def)
  next
    case False
    then show ?thesis using wf(3) [OF that] by (simp add: store_filter_def Let_def filter_sound_def)
  qed
  ultimately show ?thesis using wf(2) by (simp add: module_sound_def) (simp add: store_filter_def Let_def)
qed

lemma store_in_sound:
  assumes "filt_ok f" "\<forall>m \<in> set ms. module_sound (fmd m)"
  shows "\<forall>m \<in> set (store_in f ms). module_sound (fmd m)"
proof (cases "find_map (filt_bank f) ms 0")
  case (Some i)
  then have "module_sound (fmd (ms ! i))" using assms(2) find_map_bound [OF Some] by simp
  then show ?thesis
    using Some assms(2) store_filter_sound [OF assms(1)]
    by (auto simp: store_in_def dest!: set_update_subset_insert [THEN subsetD])
qed (use assms in \<open>simp add: store_in_def\<close>)

lemma statics_store_in [frame]: "statics (store_in f ms) = statics ms"
  by (auto simp: store_in_def store_filter_def Let_def intro!: statics_update split: option.split)

lemma statics_fold_store_in [frame]: "statics (fold store_in fs ms) = statics ms"
  by (induction fs arbitrary: ms) (simp_all add: statics_store_in)

lemma run_filters:
  assumes "\<forall>f \<in> set fs. filt_ok f" "inFilter rd = 0" "\<forall>m \<in> set (rmaps rd). module_sound (fmd m)"
  shows "\<exists>rd'. run_lines (concat (map (\<lambda>f. fst f # snd f) fs)) rd = Next rd' \<and>
    rmaps rd' = fold store_in fs (rmaps rd) \<and> (\<forall>m \<in> set (rmaps rd'). module_sound (fmd m))"
  using assms
proof (induction fs arbitrary: rd)
  case Nil
  then show ?case by simp
next
  case (Cons f fs)
  obtain rd1 where rd1: "run_lines (fst f # snd f) rd = Next rd1" "inFilter rd1 = 0" "rmaps rd1 = store_in f (rmaps rd)"
    using run_filter [of f rd] Cons.prems by auto
  have "\<forall>m \<in> set (rmaps rd1). module_sound (fmd m)"
    using store_in_sound [of f "rmaps rd"] Cons.prems rd1(3) by simp
  then obtain rd' where "run_lines (concat (map (\<lambda>f. fst f # snd f) fs)) rd1 = Next rd'"
    "rmaps rd' = fold store_in fs (rmaps rd1)" "\<forall>m \<in> set (rmaps rd'). module_sound (fmd m)"
    using Cons.IH [of rd1] Cons.prems rd1(2) by auto
  moreover have "run_lines (concat (map (\<lambda>f. fst f # snd f) (f # fs))) rd =
      run_lines (concat (map (\<lambda>f. fst f # snd f) fs)) rd1"
    using run_lines_append [OF rd1(1), of "concat (map (\<lambda>f. fst f # snd f) fs)"] by (simp only: list.map concat.simps)
  ultimately show ?case using rd1(3) by (intro exI [of _ rd']) simp
qed

definition file_text :: "filt list \<Rightarrow> string" where
  "file_text fs = concat (map filt_text fs)"

definition text_crc :: "string \<Rightarrow> u32" where
  "text_crc s = crc_len (of_nat (length s)) (crc_ptr (bytes_of s) 0)"

text \<open>A file system with just the coefficient file, on which everything succeeds.\<close>

definition plain_env :: "string \<Rightarrow> fm_env \<Rightarrow> bool" where
  "plain_env s env \<longleftrightarrow> txt_file env = Some s \<and> fir_file env = None \<and> txt_opens env \<and>
     (case txt_disk env of None \<Rightarrow> False | Some space \<Rightarrow> length s \<le> space) \<and> txt_closes env \<and> txt_arch_closes env"

lemma read_filters_file:
  assumes "\<forall>f \<in> set fs. filt_ok f" "fs \<noteq> []" "plain_env (file_text fs) env"
    and "n < length (subSystems fmc)" "names_fit env gps fmc (subSystems fmc ! n)"
    and "shared_ready (subSystems fmc ! n) vmes"
  shows "\<exists>vmes'. publish_maps (fold store_in fs (map clear_map (maps (subSystems fmc ! n)))) vmes = Some vmes' \<and>
    fmReadCoeffFile env fmc n gps vmes =
      Next \<lparr>rcode = 0,
        rfmc = fmc\<lparr>subSystems := (subSystems fmc)[n := (subSystems fmc ! n)
          \<lparr>maps := fold store_in fs (map clear_map (maps (subSystems fmc ! n))), sscrc := text_crc (file_text fs)\<rparr>]\<rparr>,
        rvmes = vmes',
        rarchives = (if text_crc (file_text fs) \<noteq> sscrc (subSystems fmc ! n)
          then [(archive_name env gps fmc (subSystems fmc ! n) @ ''.txt'', file_text fs)] else [])\<rparr>"
proof -
  define ss where "ss = subSystems fmc ! n"
  define rd where "rd = \<lparr>rmaps = map clear_map (maps ss), inFilter = 0, curFilter = None, curFilterNum = 0\<rparr>"
  define ls where "ls = concat (map (\<lambda>f. fst f # snd f) fs)"
  have written: "file_text fs = concat (map line_of ls)"
    unfolding file_text_def ls_def by (induction fs) (simp_all add: filt_text_def)
  have ok: "\<forall>l \<in> set ls. line_ok l" using assms(1) by (auto simp: ls_def filt_ok_def)
  obtain rd' where rd': "run_lines ls rd = Next rd'" "rmaps rd' = fold store_in fs (map clear_map (maps ss))"
      "\<forall>m \<in> set (rmaps rd'). module_sound (fmd m)"
    using run_filters [OF assms(1), of rd] zero_fmd_sound by (auto simp: rd_def ls_def clear_map_def)
  obtain space where env: "txt_file env = Some (file_text fs)" "fir_file env = None" "txt_opens env"
      "txt_disk env = Some space" "length (file_text fs) \<le> space" "txt_closes env" "txt_arch_closes env"
    using assms(3) by (auto simp: plain_env_def split: option.splits)
  have read: "read_file (file_text fs) [] space 0 rd = File_done (file_text fs) (crc_ptr (bytes_of (file_text fs)) 0) rd'"
    using read_file_lines [OF ok rd'(1), of space "[]" 0] env(5) by (simp add: written)
  have ne: "file_text fs \<noteq> []" using assms(2) by (cases fs) (simp_all add: file_text_def filt_text_def line_of_def)
  have st: "statics (rmaps rd') = statics (maps ss)"
    by (simp add: rd'(2) statics_fold_store_in clear_map_statics)
  have "safe_outcome ss vmes (finish_read env fmc n False [(archive_name env gps fmc ss @ ''.txt'', file_text fs)]
      (length (file_text fs)) (crc_ptr (bytes_of (file_text fs)) 0) (rmaps rd') vmes)"
    using finish_read_safe st rd'(3) assms(6) env by (simp add: ss_def)
  then obtain vmes' where "publish_maps (rmaps rd') vmes = Some vmes'"
    using env by (auto simp: safe_outcome_def finish_read_def Let_def split: option.splits)
  then show ?thesis
    using assms(4,5) env read ne
    by (simp add: fmReadCoeffFile_def Let_def finish_read_def fir_found_def text_crc_def rd'(2) flip: ss_def rd_def)
qed

text \<open>C8: a file of filters is loaded exactly. Reading it returns 0; every module has the filters that the file gives
  for it, in the module's form, and all others cleared, and that is what is published; the checksum is that of the whole
  text; and the archive has a copy of the text, unless the checksum is the one of the last time.\<close>

theorem coefficient_file_loads:
  assumes "\<forall>f \<in> set fs. filt_ok f" "fs \<noteq> []" "plain_env (file_text fs) env"
    and "n < length (subSystems fmc)" "names_fit env gps fmc (subSystems fmc ! n)"
    and "shared_ready (subSystems fmc ! n) vmes"
  shows "\<exists>vmes'. publish_maps (fold store_in fs (map clear_map (maps (subSystems fmc ! n)))) vmes = Some vmes' \<and>
    fmReadCoeffFile env fmc n gps vmes =
      Next \<lparr>rcode = 0,
        rfmc = fmc\<lparr>subSystems := (subSystems fmc)[n := (subSystems fmc ! n)
          \<lparr>maps := fold store_in fs (map clear_map (maps (subSystems fmc ! n))), sscrc := text_crc (file_text fs)\<rparr>]\<rparr>,
        rvmes = vmes',
        rarchives = (if text_crc (file_text fs) \<noteq> sscrc (subSystems fmc ! n)
          then [(archive_name env gps fmc (subSystems fmc ! n) @ ''.txt'', file_text fs)] else [])\<rparr>"
  by (rule read_filters_file [OF assms])

text \<open>A small file and a system to load it into.\<close>

definition ex_filt :: filt where
  "ex_filt = ([''FM1'', ''3'', ''21'', ''2'', ''0'', ''0'', ''low'', ''0.5'', ''-1.5'', ''0.75'', ''2'', ''1''],
     [[''-1'', ''0.25'', ''0'', ''1e0'']])"

definition ex_fmc :: fmReadCoeff where
  "ex_fmc = \<lparr>site = ''lho'', ifo = ''h1'', fsystem = ''h1sus'',
     subSystems = [\<lparr>ssname = [], archiveNameModifier = [],
       maps = [\<lparr>mname = ''FM1'', fmModNum = 0, mbiquad = 0, filters = 0, fmd = ex_vme\<rparr>], sscrc = 0\<rparr>]\<rparr>"

definition ex_env :: fm_env where
  "ex_env = \<lparr>txt_file = Some (file_text [ex_filt]), fir_file = None, txt_opens = True, fir_opens = False,
     txt_disk = Some 1000, fir_disk = None, txt_closes = True, txt_arch_closes = True, fir_closes = True,
     fir_arch_closes = True, proc_gps = None, local_time = ''201231_235959''\<rparr>"

lemma ex_filt_ok: "filt_ok ex_filt" by code_simp

lemma ex_env_ok: "plain_env (file_text [ex_filt]) ex_env" "names_fit ex_env 0 ex_fmc (subSystems ex_fmc ! 0)"
  "0 < length (subSystems ex_fmc)" "shared_ready (subSystems ex_fmc ! 0) [ex_vme]"
proof -
  have "length (file_text [ex_filt]) \<le> 1000" by code_simp
  then show "plain_env (file_text [ex_filt]) ex_env" by (simp add: plain_env_def ex_env_def)
  show "names_fit ex_env 0 ex_fmc (subSystems ex_fmc ! 0)"
    by (simp add: names_fit_def input_names_def archive_name_def chans_dir_def time_text_def ex_fmc_def ex_env_def
        upper_def lower_def)
  show "0 < length (subSystems ex_fmc)" by (simp add: ex_fmc_def)
  show "shared_ready (subSystems ex_fmc ! 0) [ex_vme]"
    by (simp add: shared_ready_def ex_fmc_def ex_fm_idle)
qed

theorem coefficient_file_loads_witness:
  "\<exists>vmes'. publish_maps (fold store_in [ex_filt] (map clear_map (maps (subSystems ex_fmc ! 0)))) [ex_vme] = Some vmes' \<and>
    fmReadCoeffFile ex_env ex_fmc 0 0 [ex_vme] =
      Next \<lparr>rcode = 0,
        rfmc = ex_fmc\<lparr>subSystems := (subSystems ex_fmc)[0 := (subSystems ex_fmc ! 0)
          \<lparr>maps := fold store_in [ex_filt] (map clear_map (maps (subSystems ex_fmc ! 0))),
           sscrc := text_crc (file_text [ex_filt])\<rparr>]\<rparr>,
        rvmes = vmes',
        rarchives = (if text_crc (file_text [ex_filt]) \<noteq> sscrc (subSystems ex_fmc ! 0)
          then [(archive_name ex_env 0 ex_fmc (subSystems ex_fmc ! 0) @ ''.txt'', file_text [ex_filt])] else [])\<rparr>"
  by (rule coefficient_file_loads) (use ex_env_ok ex_filt_ok in simp_all)

theorem coefficient_reader_safe_witness:
  "\<exists>res. fmReadCoeffFile ex_env ex_fmc 0 0 [ex_vme] = Next res \<and>
    (if rcode res = 0 then published (subSystems ex_fmc ! 0) [ex_vme] (rvmes res) else rvmes res = [ex_vme])"
  by (rule coefficient_reader_safe) (use ex_env_ok in \<open>simp_all add: ex_env_def\<close>)

section \<open>From the file to shared memory\<close>

text \<open>Module \<open>m\<close> has filter \<open>f\<close>.\<close>

definition holds_filter :: "filt \<Rightarrow> int \<Rightarrow> VME_FM_OP_COEF \<Rightarrow> bool" where
  "holds_filter f bq d \<longleftrightarrow>
     (let j = filt_num f; C = filt_coeffs bq f
      in vfiltSections d ! j = int_field f 3 \<and> vsType d ! j = int_field f 2 \<and> vramp d ! j = int_field f 4 \<and>
         vtimout d ! j = int_field f 5 \<and> vfiltName d ! j = fst f ! 6 \<and> take (length C) (vfiltCoeff d ! j) = C)"

lemma store_filter_holds:
  assumes "filt_ok f" "module_sound (fmd m)"
  shows "holds_filter f (mbiquad m) (fmd (store_filter f m))"
proof -
  have "filt_num f < 10" using assms(1) by (auto simp: filt_num_def filt_ok_def)
  then show ?thesis
    using assms(2) by (simp add: holds_filter_def store_filter_def Let_def module_sound_def vme_wf_def)
qed

lemma store_filter_keeps:
  "holds_filter f bq (fmd m) \<Longrightarrow> filt_num g \<noteq> filt_num f \<Longrightarrow> holds_filter f bq (fmd (store_filter g m))"
  by (simp add: holds_filter_def store_filter_def Let_def)

lemma find_map_statics: "statics ms = statics ms' \<Longrightarrow> find_map s ms k = find_map s ms' k"
proof (induction ms arbitrary: ms' k)
  case Nil
  then show ?case by (simp add: statics_def)
next
  case (Cons m ms)
  then obtain m' ms'' where "ms' = m' # ms''" "mname m = mname m'" "statics ms = statics ms''"
    by (auto simp: statics_def map_eq_Cons_conv)
  with Cons.IH [of ms''] show ?case by simp
qed

lemma statics_nth: "statics ms = statics ms' \<Longrightarrow> i < length ms \<Longrightarrow>
    i < length ms' \<and> mname (ms ! i) = mname (ms' ! i) \<and> fmModNum (ms ! i) = fmModNum (ms' ! i) \<and> mbiquad (ms ! i) = mbiquad (ms' ! i)"
proof -
  assume a: "statics ms = statics ms'" "i < length ms"
  then have l: "length ms = length ms'" by (metis length_map statics_def)
  have "statics ms ! i = statics ms' ! i" using a by simp
  then show ?thesis using a l by (simp add: statics_def)
qed

lemma store_in_keeps:
  assumes "holds_filter f bq (fmd (ms ! i))" "filt_bank g = mname (ms ! i) \<longrightarrow> filt_num g \<noteq> filt_num f"
  shows "holds_filter f bq (fmd (store_in g ms ! i))"
proof (cases "find_map (filt_bank g) ms 0")
  case (Some k)
  have k: "mname (ms ! k) = filt_bank g" "k < length ms"
    using find_map_name [OF Some] find_map_bound [OF Some] by simp_all
  show ?thesis
  proof (cases "k = i")
    case True
    then show ?thesis using assms k Some store_filter_keeps by (simp add: store_in_def)
  next
    case False
    then show ?thesis using assms Some by (simp add: store_in_def)
  qed
qed (use assms in \<open>simp add: store_in_def\<close>)

lemma fold_store_in_keeps:
  assumes "holds_filter f bq (fmd (ms ! i))" "i < length ms"
    and "\<forall>g \<in> set fs. filt_bank g = mname (ms ! i) \<longrightarrow> filt_num g \<noteq> filt_num f"
  shows "holds_filter f bq (fmd (fold store_in fs ms ! i))"
  using assms
proof (induction fs arbitrary: ms)
  case (Cons g fs)
  have n: "mname (store_in g ms ! i) = mname (ms ! i)" "i < length (store_in g ms)"
    using statics_nth [of ms "store_in g ms" i] Cons.prems(2) statics_store_in by auto
  show ?case using Cons.IH [of "store_in g ms"] Cons.prems store_in_keeps n by simp
qed simp

lemma fold_store_in_sound:
  "\<forall>f \<in> set fs. filt_ok f \<Longrightarrow> \<forall>m \<in> set ms. module_sound (fmd m) \<Longrightarrow>
     \<forall>m \<in> set (fold store_in fs ms). module_sound (fmd m)"
proof (induction fs arbitrary: ms)
  case (Cons f fs)
  then have "\<forall>m \<in> set (store_in f ms). module_sound (fmd m)" by (intro store_in_sound) simp_all
  with Cons show ?case by simp
qed simp

lemma file_holds_filter:
  assumes "\<forall>g \<in> set fs. filt_ok g" "\<forall>m \<in> set ms. module_sound (fmd m)" "fs = fs1 @ f # fs2"
    and "find_map (filt_bank f) ms 0 = Some i"
    and "\<forall>g \<in> set fs2. filt_bank g = filt_bank f \<longrightarrow> filt_num g \<noteq> filt_num f"
  shows "holds_filter f (mbiquad (ms ! i)) (fmd (fold store_in fs ms ! i))"
proof -
  define ms1 where "ms1 = fold store_in fs1 ms"
  have i: "i < length ms" "mname (ms ! i) = filt_bank f" using find_map_bound [OF assms(4)] find_map_name [OF assms(4)] by simp_all
  have st: "statics ms1 = statics ms" by (simp add: ms1_def statics_fold_store_in)
  have f1: "find_map (filt_bank f) ms1 0 = Some i" using find_map_statics [OF st] assms(4) by simp
  have i1: "i < length ms1" "mbiquad (ms1 ! i) = mbiquad (ms ! i)" "mname (ms1 ! i) = filt_bank f"
    using statics_nth [OF st [symmetric] i(1)] i(2) by simp_all
  have "\<forall>m \<in> set ms1. module_sound (fmd m)"
    unfolding ms1_def using assms(1-3) by (intro fold_store_in_sound) simp_all
  then have "holds_filter f (mbiquad (ms ! i)) (fmd (store_in f ms1 ! i))"
    using store_filter_holds [of f "ms1 ! i"] assms(1,3) f1 i1 by (simp add: store_in_def)
  moreover have "mname (store_in f ms1 ! i) = filt_bank f" "i < length (store_in f ms1)"
    using statics_nth [of ms1 "store_in f ms1" i] i1 statics_store_in by auto
  ultimately show ?thesis
    using fold_store_in_keeps [of f "mbiquad (ms ! i)" "store_in f ms1" i fs2] assms(3,5) by (simp add: ms1_def)
qed

lemma publish_maps_other:
  "publish_maps ms vmes = Some vmes' \<Longrightarrow> b \<notin> fmModNum ` set ms \<Longrightarrow> vmes' ! b = vmes ! b"
  by (induction ms arbitrary: vmes) (auto split: if_splits)

lemma publish_maps_nth:
  "publish_maps ms vmes = Some vmes' \<Longrightarrow> distinct (map fmModNum ms) \<Longrightarrow> i < length ms \<Longrightarrow>
     vmes' ! fmModNum (ms ! i) = publish (fmd (ms ! i)) (mbiquad (ms ! i)) (vmes ! fmModNum (ms ! i))"
proof (induction ms arbitrary: vmes i)
  case (Cons m ms)
  let ?v = "vmes[fmModNum m := publish (fmd m) (mbiquad m) (vmes ! fmModNum m)]"
  have p: "publish_maps ms ?v = Some vmes'" "fmModNum m < length vmes" "fmModNum m \<notin> fmModNum ` set ms"
    using Cons.prems by (auto split: if_splits)
  show ?case
  proof (cases i)
    case 0
    then show ?thesis using publish_maps_other [OF p(1,3)] p(2) by simp
  next
    case (Suc j)
    then have j: "j < length ms" using Cons.prems(3) by simp
    then have "fmModNum (ms ! j) \<in> fmModNum ` set ms" by simp
    then have "fmModNum (ms ! j) \<noteq> fmModNum m" using p(3) by metis
    then show ?thesis using Cons.IH [OF p(1), of j] Cons.prems(2) Suc j by simp
  qed
qed simp

lemma publish_holds:
  assumes "holds_filter f bq d" "filt_ok f" "module_sound d" "vme_wf v"
  shows "holds_filter f bq (publish d bq' v)"
proof -
  have j: "filt_num f < 10" using assms(2) by (auto simp: filt_num_def filt_ok_def)
  have h: "vfiltSections d ! filt_num f = int_field f 3"
    using assms(1) by (simp add: holds_filter_def Let_def)
  have l: "length (filt_coeffs bq f) = nat (1 + int_field f 3 * 4)"
    using assms(2) header_coeffs(3) [OF assms(2), of bq]
    by (auto simp: filt_ok_def nat_add_distrib nat_mult_distrib)
  have "vme_wf d" using assms(3) by (simp add: module_sound_def)
  moreover have "nat (1 + int_field f 3 * 4) \<le> 41" using assms(2) by (auto simp: filt_ok_def)
  ultimately show ?thesis
    using assms(1,4) j l h unfolding holds_filter_def Let_def publish_def vme_wf_def by simp
qed

end
