(* ===== verification/DaqConfig.thy ===== *)
theory DaqConfig
  imports Crc CString
begin

text \<open>
  The DAQ configuration reader (\<open>src/drv/param.c\<close>): the test point file, the channel
  configuration file with its checksum and archive copy, and the channel table the front
  end works from. Files are character lists. Undefined behaviour is a result of its own.
\<close>

section \<open>Reading\<close>

text \<open>The reader's state: what is left of the file, the end-of-file mark, the line buffer (\<open>None\<close>
  while it is uninitialised), the checksum and length so far, and the archive: its text and how
  much more it can take.\<close>

record pstate =
  rest :: string
  feof :: bool
  cbuf :: "string option"
  crc :: u32
  flen :: u32
  arch :: "string option"
  disk :: nat

text \<open>\<open>fgets (cbuf, 128, fp)\<close>: whether there was a line.\<close>

definition fgets :: "pstate \<Rightarrow> bool \<times> pstate" where
  "fgets st =
     (if rest st = [] then (False, st\<lparr>feof := True\<rparr>)
      else let l = fline 127 (rest st)
           in (True, st\<lparr>rest := drop (length l) (rest st), cbuf := Some (cstr l),
                        feof := (length l < 127 \<and> last l \<noteq> CHR 0x0A)\<rparr>))"

lemma fgets_shorter: "fgets st = (True, st') \<Longrightarrow> length (rest st') < length (rest st)"
  using length_fline [of 127 "rest st"] by (auto simp: fgets_def Let_def split: if_splits)

definition fputs :: "string \<Rightarrow> pstate \<Rightarrow> pstate option" where
  "fputs s st = (case arch st of None \<Rightarrow> Some st
     | Some a \<Rightarrow> if length s \<le> disk st then Some (st\<lparr>arch := Some (a @ s), disk := disk st - length s\<rparr>) else None)"

definition count_line :: "string \<Rightarrow> pstate \<Rightarrow> pstate" where
  "count_line s st = st\<lparr>flen := flen st + of_nat (length s), crc := crc_ptr (bytes_of s) (crc st)\<rparr>"

lemma rest_count_line [simp]: "rest (count_line s st) = rest st" "feof (count_line s st) = feof st" "cbuf (count_line s st) = cbuf st"
  "arch (count_line s st) = arch st"
  by (simp_all add: count_line_def)

lemma fputs_rest: "fputs s st = Some st' \<Longrightarrow> rest st' = rest st \<and> feof st' = feof st \<and> cbuf st' = cbuf st"
  by (auto simp: fputs_def split: option.splits if_splits)

section \<open>Lines\<close>

text \<open>The two loops that take a name and a value out of a line, blanks removed, at most \<open>n\<close>
  characters; an array that is full leaves no room for the terminator.\<close>

fun scan :: "char option \<Rightarrow> nat \<Rightarrow> string \<Rightarrow> string \<times> string" where
  "scan stop n [] = ([], [])"
| "scan stop n (c # cs) =
     (if Some c = stop \<or> n = 0 then ([], c # cs)
      else if isspace c then scan stop n cs else apfst (Cons c) (scan stop (n - 1) cs))"

definition id_val :: "string \<Rightarrow> (string \<times> string) option pstep" where
  "id_val s =
     (let (i, r) = scan (Some CHR ''='') 64 s
      in if r = [] \<or> hd r \<noteq> CHR ''='' then Next None
         else if length i = 64 then Undefined
         else let (v, _) = scan None 64 (tl r) in if length v = 64 then Undefined else Next (Some (i, v)))"

record CHAN_PARAM =
  dcuid :: int
  datarate :: int
  acquire :: int
  ifoid :: int
  rmid :: int
  datatype' :: int
  chnnum :: int
  ptestpoint :: int
  pgain :: fp
  pslope :: fp
  poffset :: fp
  units :: string
  system :: string

definition uninit :: CHAN_PARAM where
  "uninit = \<lparr>dcuid = -1, datarate = -1, acquire = -1, ifoid = -1, rmid = -1, datatype' = -1, chnnum = 0, ptestpoint = 0,
     pgain = to_float (of_cint (-99999000)), pslope = to_float (of_cint (-99999999)),
     poffset = to_float (of_cint (-9999999)), units = ''none'', system = ''none''\<rparr>"

function pow2_loop :: "int \<Rightarrow> bool" where
  "pow2_loop v = (if odd v then False else let v = v div 2 in if v > 1 then pow2_loop v else True)"
  by pat_completeness auto
termination
  by (relation "measure nat") auto

declare pow2_loop.simps [simp del]

definition to_int :: "string \<Rightarrow> int option" where
  "to_int v = (let (n, r) = strtol v in if r = [] then Some (c_int n) else None)"

definition to_real :: "string \<Rightarrow> fp option" where
  "to_real v = (let (x, r) = strtod v in if r = [] then Some (to_float x) else None)"

text \<open>One assignment; \<open>None\<close> refuses the file.\<close>

definition assign :: "int \<Rightarrow> string \<Rightarrow> string \<Rightarrow> CHAN_PARAM \<Rightarrow> CHAN_PARAM option" where
  "assign testpoint i v cur =
     (if strcaseeq i ''dcuid'' then map_option (\<lambda>n. cur\<lparr>dcuid := n\<rparr>) (to_int v)
      else if strcaseeq i ''datarate'' then
        (case to_int v of None \<Rightarrow> None
         | Some n \<Rightarrow> if n < 16 \<or> n > 512 * 1024 then None
                     else if pow2_loop n then Some (cur\<lparr>datarate := n\<rparr>) else None)
      else if strcaseeq i ''acquire'' then map_option (\<lambda>n. cur\<lparr>acquire := n\<rparr>) (to_int v)
      else if strcaseeq i ''ifoid'' then map_option (\<lambda>n. cur\<lparr>ifoid := n\<rparr>) (to_int v)
      else if strcaseeq i ''rmid'' then map_option (\<lambda>n. cur\<lparr>rmid := n\<rparr>) (to_int v)
      else if strcaseeq i ''datatype'' then map_option (\<lambda>n. cur\<lparr>datatype' := n\<rparr>) (to_int v)
      else if strcaseeq i ''chnnum'' then map_option (\<lambda>n. cur\<lparr>chnnum := n\<rparr>) (to_int v)
      else if strcaseeq i ''gain'' then map_option (\<lambda>x. cur\<lparr>pgain := x\<rparr>) (to_real v)
      else if strcaseeq i ''slope'' then map_option (\<lambda>x. cur\<lparr>pslope := x\<rparr>) (to_real v)
      else if strcaseeq i ''offset'' then map_option (\<lambda>x. cur\<lparr>poffset := x\<rparr>) (to_real v)
      else if strcaseeq i ''units'' \<or> testpoint = 2 \<and> strcaseeq i ''hostname'' then Some (cur\<lparr>units := take 32 v\<rparr>)
      else if strcaseeq i ''system'' then Some (cur\<lparr>system := take 32 v\<rparr>)
      else Some cur)"

section \<open>The configuration file\<close>

text \<open>The lines before the first section. \<open>True\<close> says that a section header stands in the buffer.\<close>

definition header :: "pstate \<Rightarrow> bool" where
  "header st \<longleftrightarrow> (case cbuf st of Some (c # _) \<Rightarrow> c = CHR ''['' | _ \<Rightarrow> False)"

function preamble :: "pstate \<Rightarrow> (bool \<times> pstate) pstep" where
  "preamble st =
     (let (cp, st') = fgets st
      in if cp \<and> \<not> header st' then
           case fputs (the (cbuf st')) (count_line (the (cbuf st')) st') of
             None \<Rightarrow> Fail
           | Some st'' \<Rightarrow> preamble st''
         else Next (cp, st'))"
  by pat_completeness auto
termination
  by (relation "measure (\<lambda>st. length (rest st))") (auto dest!: fgets_shorter [OF sym] fputs_rest)

declare preamble.simps [simp del]

text \<open>The lines of one section.\<close>

function entries :: "int \<Rightarrow> CHAN_PARAM \<Rightarrow> pstate \<Rightarrow> (bool \<times> pstate \<times> CHAN_PARAM) pstep" where
  "entries testpoint cur st =
     (let (cp, st') = fgets st
      in if cp \<and> \<not> header st' then
           case fputs (the (cbuf st')) (count_line (the (cbuf st')) st') of
             None \<Rightarrow> Fail
           | Some st'' \<Rightarrow>
               (case id_val (the (cbuf st')) of
                  Undefined \<Rightarrow> Undefined
                | Fail \<Rightarrow> Fail
                | Next kv \<Rightarrow>
                    (case (case kv of None \<Rightarrow> Some cur | Some (i, v) \<Rightarrow> assign testpoint i v cur) of
                       None \<Rightarrow> Fail
                     | Some cur' \<Rightarrow> entries testpoint cur' st''))
         else Next (cp, st', cur))"
  by pat_completeness auto
termination
  by (relation "measure (\<lambda>(testpoint, cur, st). length (rest st))") (auto dest!: fgets_shorter [OF sym] fputs_rest)

declare entries.simps [simp del]

lemma entries_shorter: "entries testpoint cur st = Next (True, st', cur') \<Longrightarrow> length (rest st') < length (rest st)"
proof (induction testpoint cur st rule: entries.induct)
  case (1 testpoint cur st)
  obtain cp st1 where fg: "fgets st = (cp, st1)" by fastforce
  show ?case
  proof (cases "cp \<and> \<not> header st1")
    case False
    then show ?thesis using "1.prems" fg fgets_shorter by (auto simp: entries.simps [of _ _ st])
  next
    case True
    then have less: "length (rest st1) < length (rest st)" using fg fgets_shorter by auto
    obtain st2 kv cur2 where st: "fputs (the (cbuf st1)) (count_line (the (cbuf st1)) st1) = Some st2"
      "id_val (the (cbuf st1)) = Next kv" "(case kv of None \<Rightarrow> Some cur | Some (i, v) \<Rightarrow> assign testpoint i v cur) = Some cur2"
      "entries testpoint cur2 st2 = Next (True, st', cur')"
      using "1.prems" fg True by (auto simp: entries.simps [of _ _ st] split: option.splits pstep.splits)
    have "length (rest st') < length (rest st2)" using "1.IH" [OF refl fg [symmetric] True st(1-3) st(4)] .
    then show ?thesis using less fputs_rest [OF st(1)] by simp
  qed
qed

definition setdefaults :: "int \<Rightarrow> CHAN_PARAM \<Rightarrow> CHAN_PARAM \<Rightarrow> CHAN_PARAM" where
  "setdefaults testpoint deflt cur =
     (let pick = (\<lambda>f. if f cur = f uninit then f deflt else f cur :: int);
          pickf = (\<lambda>f. if feq (f cur) (f uninit) then f deflt else f cur);
          picks = (\<lambda>f. if f cur = f uninit then f deflt else f cur :: string);
          cur = cur\<lparr>dcuid := pick dcuid, datarate := pick datarate, acquire := pick acquire, ifoid := pick ifoid,
            datatype' := pick datatype', chnnum := pick chnnum, pgain := pickf pgain, pslope := pickf pslope,
            poffset := pickf poffset, units := picks units, system := picks system, ptestpoint := testpoint\<rparr>
      in if testpoint \<noteq> 0 then
           cur\<lparr>pgain := (if feq (pgain cur) (pgain uninit) then of_cint 1 else pgain cur),
               pslope := (if feq (pslope cur) (pslope uninit) then of_cint 1 else pslope cur),
               poffset := (if feq (poffset cur) (poffset uninit) then Zero False else poffset cur),
               dcuid := (if dcuid cur = dcuid uninit then 13 else dcuid cur)\<rparr>
         else cur)"

definition section_name :: "string \<Rightarrow> string" where
  "section_name s = take 59 (takeWhile (\<lambda>c. c \<noteq> CHR '']'') (tl s))"

text \<open>The sections, each started with its header in the buffer. The result is the checksum, the
  archive and the user's state.\<close>

function sections ::
  "(string \<Rightarrow> CHAN_PARAM \<Rightarrow> 'u \<Rightarrow> bool \<times> 'u) \<Rightarrow> int \<Rightarrow> CHAN_PARAM \<Rightarrow> pstate \<Rightarrow> 'u \<Rightarrow> (u32 \<times> string option \<times> 'u) pstep" where
  "sections callback testpoint deflt st user =
     (let channel_name = section_name (the (cbuf st))
      in case entries testpoint uninit st of
           Undefined \<Rightarrow> Undefined
         | Fail \<Rightarrow> Fail
         | Next (cp, st', current) \<Rightarrow>
             (case (if cp \<and> \<not> feof st' then map_option (count_line (the (cbuf st'))) (fputs (the (cbuf st')) st') else Some st') of
                None \<Rightarrow> Fail
              | Some st'' \<Rightarrow>
                  let (deflt', ok, user') =
                    (if strcaseeq channel_name ''default'' then (current, True, user)
                     else (deflt, callback channel_name (setdefaults testpoint deflt current) user))
                  in if \<not> ok then Fail
                     else if \<not> cp \<or> feof st'' then Next (crc_len (flen st'') (crc st''), arch st'', user')
                     else sections callback testpoint deflt' st'' user'))"
  by pat_completeness auto
termination
  by (relation "measure (\<lambda>(callback, testpoint, deflt, st, user). length (rest st))")
    (auto dest!: entries_shorter fputs_rest split: if_splits)

declare sections.simps [simp del]

text \<open>The outcome of \<open>parseConfigFile\<close>: a refusal with what is left of the archive, or the checksum,
  the archive and the user's state. \<open>file\<close> is \<open>None\<close> when it cannot be opened; \<open>archive\<close> is \<open>None\<close> when
  none is asked for, \<open>Some None\<close> when it cannot be opened, else the room for it.\<close>

datatype 'u outcome = Undefined_behaviour | Refused "string option" | Parsed u32 "string option" 'u

definition parseConfigFile ::
  "string option \<Rightarrow> nat option option \<Rightarrow> (string \<Rightarrow> CHAN_PARAM \<Rightarrow> 'u \<Rightarrow> bool \<times> 'u) \<Rightarrow> int \<Rightarrow> 'u \<Rightarrow> 'u outcome" where
  "parseConfigFile file archive callback testpoint user =
     (case file of None \<Rightarrow> Refused None
      | Some text \<Rightarrow>
          if archive = Some None then Refused None
          else
            let st = \<lparr>rest = text, feof = False, cbuf = None, crc = 0, flen = 0,
                  arch = (case archive of Some (Some n) \<Rightarrow> Some [] | _ \<Rightarrow> None),
                  disk = (case archive of Some (Some n) \<Rightarrow> n | _ \<Rightarrow> 0)\<rparr>
            in case preamble st of
                 Undefined \<Rightarrow> Undefined_behaviour
               | Fail \<Rightarrow> Refused None
               | Next (cp, st) \<Rightarrow>
                   (case cbuf st of
                      None \<Rightarrow> Undefined_behaviour
                    | Some l \<Rightarrow>
                        (case fputs l st of
                           None \<Rightarrow> Refused None
                         | Some st \<Rightarrow>
                             let st = count_line l st
                             in if \<not> cp \<or> feof st then Refused (arch st)
                                else case sections callback testpoint uninit st user of
                                       Undefined \<Rightarrow> Undefined_behaviour
                                     | Fail \<Rightarrow> Refused None
                                     | Next (c, a, u) \<Rightarrow> Parsed c a u)))"

section \<open>The channel table\<close>

record DAQ_INFO_CHAN =
  channel_name :: string
  tpnum :: u32
  dataType :: u32
  dataRate :: u32
  dataGain :: fp

record DAQ_INFO_BLOCK =
  numChans :: int
  numEpicsInts :: int
  numEpicsFloats :: int
  numEpicsFilts :: int
  numEpicsTotal :: int
  configFileCRC :: u32
  dtp :: "DAQ_INFO_CHAN list"

abbreviation (input) DCU_MAX_CHANNELS :: int where "DCU_MAX_CHANNELS \<equiv> 512"

text \<open>The conversion from \<open>float\<close> to \<open>int\<close>; out of range the processor gives the least \<open>int\<close>.\<close>

fun float_to_int :: "fp \<Rightarrow> int" where
  "float_to_int (Fin s m e) =
     (let v = (if 0 \<le> e then m * 2 ^ nat e else m div 2 ^ nat (- e)); v = (if s then - v else v)
      in if - (2 ^ 31) \<le> v \<and> v < 2 ^ 31 then v else - (2 ^ 31))"
| "float_to_int (Zero s) = 0"
| "float_to_int x = - (2 ^ 31)"

definition infoCallback :: "string \<Rightarrow> CHAN_PARAM \<Rightarrow> DAQ_INFO_BLOCK \<Rightarrow> bool \<times> DAQ_INFO_BLOCK" where
  "infoCallback name params info =
     (if numChans info \<ge> DCU_MAX_CHANNELS then (False, info)
      else if chnnum params \<ge> 40000 \<and> chnnum params < 50000 \<and> (datatype' params = 2 \<or> datatype' params = 7) then
        (True, info\<lparr>numEpicsInts := numEpicsInts info + 1, numEpicsTotal := numEpicsTotal info + 1\<rparr>)
      else if chnnum params \<ge> 40000 \<and> chnnum params < 50000 \<and> datatype' params = 4 then
        (True, info\<lparr>numEpicsFloats := numEpicsFloats info + 1, numEpicsTotal := numEpicsTotal info + 1\<rparr>)
      else if chnnum params \<ge> 50000 then
        (True, info\<lparr>numEpicsFilts := numEpicsFilts info + 1, numEpicsTotal := numEpicsTotal info + 1\<rparr>)
      else
        (True, info\<lparr>dtp := (dtp info)[nat (numChans info) := \<lparr>channel_name = name, tpnum = word_of_int (chnnum params),
             dataType = word_of_int (datatype' params), dataRate = word_of_int (datarate params),
             dataGain = to_float (of_cint (float_to_int (pgain params)))\<rparr>],
           numChans := numChans info + 1\<rparr>))"

section \<open>The test point file\<close>

text \<open>The table of test point names and numbers, as the list of the entries its count names; the array
  has room for 50000. A file without entries leaves the table as it was.\<close>

type_synonym tpinfo = "(string \<times> u32) list"

function tp_entries :: "string \<Rightarrow> tpinfo \<Rightarrow> pstate \<Rightarrow> (pstate \<times> tpinfo) pstep" where
  "tp_entries chan tps st =
     (let (cp, st') = fgets st
      in if cp \<and> \<not> header st' then
           case id_val (the (cbuf st')) of
             Undefined \<Rightarrow> Undefined
           | Fail \<Rightarrow> Fail
           | Next None \<Rightarrow> tp_entries chan tps st'
           | Next (Some (i, v)) \<Rightarrow>
               if strcaseeq i ''chnnum'' then
                 if length tps < 50000 then tp_entries chan (tps @ [(chan, word_of_int (fst (strtol v)))]) st' else Undefined
               else tp_entries chan tps st'
         else Next (st', tps))"
  by pat_completeness auto
termination
  by (relation "measure (\<lambda>(chan, tps, st). length (rest st))") (auto dest!: fgets_shorter [OF sym])

declare tp_entries.simps [simp del]

lemma fgets_eof: "fgets st = (cp, st') \<Longrightarrow> \<not> cp \<Longrightarrow> feof st'"
  by (auto simp: fgets_def Let_def split: if_splits)

lemma tp_entries_shorter:
  "tp_entries chan tps st = Next (st', tps') \<Longrightarrow> \<not> feof st' \<Longrightarrow> length (rest st') < length (rest st)"
proof (induction chan tps st rule: tp_entries.induct)
  case (1 chan tps st)
  obtain cp st1 where fg: "fgets st = (cp, st1)" by fastforce
  show ?case
  proof (cases "cp \<and> \<not> header st1")
    case False
    have "st' = st1" using "1.prems"(1) fg False by (auto simp: tp_entries.simps [of _ _ st])
    then have cp using fgets_eof [OF fg] "1.prems"(2) by blast
    then show ?thesis using fgets_shorter fg \<open>st' = st1\<close> by auto
  next
    case True
    then have less: "length (rest st1) < length (rest st)" using fg fgets_shorter by auto
    have "length (rest st') < length (rest st1)"
    proof (cases "id_val (the (cbuf st1))")
      case (Next kv)
      show ?thesis
      proof (cases kv)
        case None
        then show ?thesis using 1 True fg Next by (simp add: tp_entries.simps [of _ _ st])
      next
        case (Some iv)
        obtain i v where "iv = (i, v)" by fastforce
        then show ?thesis using 1 True fg Next Some by (simp add: tp_entries.simps [of _ _ st] split: if_splits)
      qed
    qed (use "1.prems"(1) fg True in \<open>simp_all add: tp_entries.simps [of _ _ st]\<close>)
    then show ?thesis using less by simp
  qed
qed

function tp_sections :: "tpinfo \<Rightarrow> pstate \<Rightarrow> tpinfo pstep" where
  "tp_sections tps st =
     (if feof st then Next tps
      else case tp_entries (section_name (the (cbuf st))) tps st of
             Undefined \<Rightarrow> Undefined
           | Fail \<Rightarrow> Fail
           | Next (st', tps') \<Rightarrow> if feof st' then Next tps' else tp_sections tps' st')"
  by pat_completeness auto
termination
  by (relation "measure (\<lambda>(tps, st). length (rest st))") (auto dest!: tp_entries_shorter)

declare tp_sections.simps [simp del]

function tp_preamble :: "pstate \<Rightarrow> pstate" where
  "tp_preamble st = (let (cp, st') = fgets st in if cp \<and> \<not> header st' then tp_preamble st' else st')"
  by pat_completeness auto
termination
  by (relation "measure (\<lambda>st. length (rest st))") (auto dest!: fgets_shorter [OF sym])

declare tp_preamble.simps [simp del]

definition parseGdstpFile :: "string option \<Rightarrow> tpinfo \<Rightarrow> tpinfo pstep" where
  "parseGdstpFile file tps =
     (case file of None \<Rightarrow> Next tps
      | Some text \<Rightarrow>
          (case tp_sections [] (tp_preamble \<lparr>rest = text, feof = False, cbuf = None, crc = 0, flen = 0,
                 arch = None, disk = 0\<rparr>) of
             Next new \<Rightarrow> Next (if new = [] then tps else new) | r \<Rightarrow> r))"

section \<open>Loading\<close>

text \<open>The files by name, the checker script's exit status by command, and the room for an archive by
  name (\<open>None\<close> when it cannot be created).\<close>

record filesys =
  fopen_r :: "string \<Rightarrow> string option"
  fsystem :: "string \<Rightarrow> int"
  fopen_w :: "string \<Rightarrow> nat option"

datatype load_result = Load_undefined | Load_failed | Loaded DAQ_INFO_BLOCK tpinfo "string option"

definition loadDaqConfigFile ::
  "filesys \<Rightarrow> string \<Rightarrow> string \<Rightarrow> string \<Rightarrow> DAQ_INFO_BLOCK \<Rightarrow> tpinfo \<Rightarrow> load_result" where
  "loadDaqConfigFile fs site ifo sys info gdsinfo =
     (let base = ''/opt/rtcds/'' @ site @ ''/'' @ map tolower ifo;
          fname = base @ ''/chans/daq/'' @ sys @ ''.ini'';
          archive_fname = base @ ''/chans/daq/'' @ ''archive/'' @ sys;
          perlCommand = ''iniChk.pl '' @ fname;
          gds_fname = base @ ''/target/gds/param/tpchn_'' @ map tolower sys @ ''.par''
      in if length perlCommand \<ge> 256 \<or> length archive_fname \<ge> 256 \<or> length gds_fname \<ge> 256 then Load_undefined
         else if fsystem fs perlCommand \<noteq> 0 then Load_failed
         else case parseGdstpFile (fopen_r fs gds_fname) gdsinfo of
                Undefined \<Rightarrow> Load_undefined
              | Fail \<Rightarrow> Load_failed
              | Next gdsinfo \<Rightarrow>
                  (case parseConfigFile (fopen_r fs fname) (Some (fopen_w fs archive_fname)) infoCallback 0
                          (info\<lparr>numChans := 0, numEpicsInts := 0, numEpicsTotal := 0, numEpicsFloats := 0, numEpicsFilts := 0\<rparr>) of
                     Undefined_behaviour \<Rightarrow> Load_undefined
                   | Refused a \<Rightarrow> Load_failed
                   | Parsed c a info \<Rightarrow> Loaded (info\<lparr>configFileCRC := c\<rparr>) gdsinfo a))"

end
