(* ===== verification/DaqLoad.thy ===== *)
theory DaqLoad
  imports DaqConfig
begin

text \<open>
  What the DAQ configuration reader guarantees: the checksum and the archive are those of the
  file, the channel table is in bounds with legal rates, and a written configuration reads
  back. Clients of the reader give it a callback; what the callback may rely on is a locale.
\<close>

section \<open>Lines of a file\<close>

lemma fline_take: "fline n cs = take (length (fline n cs)) cs"
  by (induction n cs rule: fline.induct) auto

lemma fline_all: "length (fline n cs) < n \<Longrightarrow> fline n cs \<noteq> [] \<longrightarrow> last (fline n cs) \<noteq> CHR 0x0A \<Longrightarrow> fline n cs = cs"
proof (induction n cs rule: fline.induct)
  case (3 n c cs)
  show ?case
  proof (cases "c = CHR 0x0A")
    case True
    then show ?thesis using "3.prems" by simp
  next
    case False
    then have "fline n cs \<noteq> [] \<longrightarrow> last (fline n cs) \<noteq> CHR 0x0A" using "3.prems" by auto
    then show ?thesis using 3 False by auto
  qed
qed auto

definition no_nul :: "string \<Rightarrow> bool" where
  "no_nul s \<longleftrightarrow> CHR 0x00 \<notin> set s"

lemma cstr_no_nul: "no_nul s \<Longrightarrow> cstr s = s"
  by (auto simp: cstr_def no_nul_def takeWhile_eq_all_conv)

text \<open>The reader has counted a prefix of the text and holds the line \<open>p\<close> after it in its buffer.\<close>

definition reading :: "bool \<Rightarrow> string \<Rightarrow> string \<Rightarrow> pstate \<Rightarrow> bool" where
  "reading w text p st \<longleftrightarrow> (\<exists>pre. text = pre @ p @ rest st \<and> crc st = crc_ptr (bytes_of pre) 0 \<and>
     flen st = of_nat (length pre) \<and> arch st = (if w then Some pre else None))"

lemma reading_fgets:
  assumes "reading w text [] st" "no_nul text" "fgets st = (cp, st')"
  shows "if cp then (\<exists>l. cbuf st' = Some l \<and> reading w text l st' \<and> (feof st' \<longrightarrow> rest st' = [] \<and> l \<noteq> [] \<and> last l \<noteq> CHR 0x0A))
    else reading w text [] st' \<and> rest st' = []"
proof (cases "rest st = []")
  case True
  then show ?thesis using assms(1,3) by (auto simp: fgets_def reading_def)
next
  case False
  let ?l = "fline 127 (rest st)"
  have ne: "?l \<noteq> []" using length_fline [of 127 "rest st"] False by auto
  have split: "rest st = ?l @ drop (length ?l) (rest st)"
    using fline_take [of 127 "rest st"] by (metis append_take_drop_id)
  obtain pre where pre: "text = pre @ rest st" "crc st = crc_ptr (bytes_of pre) 0"
    "flen st = of_nat (length pre)" "arch st = (if w then Some pre else None)"
    using assms(1) by (auto simp: reading_def)
  have "no_nul ?l" using assms(2) pre(1) split by (metis (no_types, lifting) Un_iff no_nul_def set_append)
  then have "cstr ?l = ?l" by (rule cstr_no_nul)
  then have st': "cp" "st' = st\<lparr>rest := drop (length ?l) (rest st), cbuf := Some ?l,
      feof := (length ?l < 127 \<and> last ?l \<noteq> CHR 0x0A)\<rparr>"
    using assms(3) False by (auto simp: fgets_def Let_def)
  have "reading w text ?l st'" unfolding reading_def using pre split st'(2) by (intro exI [of _ pre]) simp
  moreover have "feof st' \<Longrightarrow> rest st' = []" using fline_all [of 127 "rest st"] st'(2) by auto
  ultimately show ?thesis using st' ne by auto
qed

lemma bytes_of_append [simp]: "bytes_of (s @ t) = bytes_of s @ bytes_of t"
  by (simp add: bytes_of_def)

lemma crc_ptr_append [simp]: "crc_ptr (xs @ ys) c = crc_ptr ys (crc_ptr xs c)"
  by (induction xs arbitrary: c) auto

lemma reading_take:
  assumes "reading w text l st"
  shows "fputs l (count_line l st) = Some st' \<Longrightarrow> reading w text [] st'"
    "fputs l st = Some st' \<Longrightarrow> reading w text [] (count_line l st')"
  using assms
  by (auto simp: reading_def fputs_def count_line_def split: option.splits if_splits
      intro!: exI [of _ "pre @ l" for pre])

lemma reading_preamble:
  assumes "reading w text [] st" "no_nul text" "preamble st = Next (cp, st')"
  shows "if cp then (\<exists>l. cbuf st' = Some l \<and> reading w text l st') else reading w text [] st' \<and> rest st' = []"
  using assms
proof (induction st rule: preamble.induct)
  case (1 st)
  obtain cp1 st1 where fg: "fgets st = (cp1, st1)" by fastforce
  note rd = reading_fgets [OF "1.prems"(1,2) fg]
  show ?case
  proof (cases "cp1 \<and> \<not> header st1")
    case False
    then have "cp = cp1" "st' = st1" using "1.prems"(3) fg by (auto simp: preamble.simps [of st])
    then show ?thesis using rd by (auto split: if_splits)
  next
    case True
    then obtain l where l: "cbuf st1 = Some l" "reading w text l st1" using rd by auto
    obtain st2 where st2: "fputs l (count_line l st1) = Some st2" "preamble st2 = Next (cp, st')"
      using "1.prems"(3) fg True l(1) by (auto simp: preamble.simps [of st] split: option.splits)
    have "fputs (the (cbuf st1)) (count_line (the (cbuf st1)) st1) = Some st2" using st2(1) l(1) by simp
    from "1.IH" [OF refl fg [symmetric] True this reading_take(1) [OF l(2) st2(1)] "1.prems"(2) st2(2)]
    show ?thesis .
  qed
qed

lemma reading_entries:
  assumes "reading w text [] st" "no_nul text" "entries testpoint cur st = Next (cp, st', cur')"
  shows "if cp then (\<exists>l. cbuf st' = Some l \<and> reading w text l st' \<and> (feof st' \<longrightarrow> rest st' = [] \<and> l \<noteq> [] \<and> last l \<noteq> CHR 0x0A))
    else reading w text [] st' \<and> rest st' = []"
  using assms
proof (induction testpoint cur st rule: entries.induct)
  case (1 testpoint cur st)
  obtain cp1 st1 where fg: "fgets st = (cp1, st1)" by fastforce
  note rd = reading_fgets [OF "1.prems"(1,2) fg]
  show ?case
  proof (cases "cp1 \<and> \<not> header st1")
    case False
    then have "cp = cp1" "st' = st1" using "1.prems"(3) fg by (auto simp: entries.simps [of _ _ st])
    then show ?thesis using rd by (auto split: if_splits)
  next
    case True
    then obtain l where l: "cbuf st1 = Some l" "reading w text l st1" using rd by auto
    obtain st2 kv cur2 where st: "fputs (the (cbuf st1)) (count_line (the (cbuf st1)) st1) = Some st2"
      "id_val (the (cbuf st1)) = Next kv" "(case kv of None \<Rightarrow> Some cur | Some (i, v) \<Rightarrow> assign testpoint i v cur) = Some cur2"
      "entries testpoint cur2 st2 = Next (cp, st', cur')"
      using "1.prems" fg True by (auto simp: entries.simps [of _ _ st] split: option.splits pstep.splits)
    have "reading w text [] st2" using reading_take(1) [OF l(2)] st(1) l(1) by simp
    from "1.IH" [OF refl fg [symmetric] True st(1-3) this "1.prems"(2) st(4)] show ?thesis .
  qed
qed

lemma reading_end:
  assumes "reading w text [] st" "rest st = []"
  shows "crc st = crc_ptr (bytes_of text) 0" "flen st = of_nat (length text)" "arch st = (if w then Some text else None)"
  using assms by (auto simp: reading_def)

section \<open>Sections\<close>

text \<open>One section of a file that is read to the end.\<close>

definition section_end :: "bool \<Rightarrow> pstate \<Rightarrow> pstate option" where
  "section_end cp st = (if cp \<and> \<not> feof st then map_option (count_line (the (cbuf st))) (fputs (the (cbuf st)) st) else Some st)"

lemma sectionsE:
  assumes "sections callback testpoint deflt st user = Next r"
  obtains cp st1 current st2 deflt' user' where "entries testpoint uninit st = Next (cp, st1, current)"
    "section_end cp st1 = Some st2"
    "deflt' = current \<and> user' = user \<or>
     deflt' = deflt \<and> callback (section_name (the (cbuf st))) (setdefaults testpoint deflt current) user = (True, user')"
    "if \<not> cp \<or> feof st2 then r = (crc_len (flen st2) (crc st2), arch st2, user')
     else sections callback testpoint deflt' st2 user' = Next r \<and> length (rest st2) < length (rest st)"
proof -
  obtain cp st1 current where e: "entries testpoint uninit st = Next (cp, st1, current)"
    using assms by (auto simp: sections.simps [of _ _ _ st] Let_def split: pstep.splits)
  obtain st2 where st2: "section_end cp st1 = Some st2"
    using assms e by (auto simp: sections.simps [of _ _ _ st] section_end_def Let_def split: option.splits)
  note run = assms [unfolded sections.simps [of _ _ _ st] e Let_def pstep.case prod.case section_end_def [symmetric] st2 option.case]
  have less: "length (rest st2) < length (rest st)" if "cp \<and> \<not> feof st2"
    using that st2 entries_shorter e by (auto simp: section_end_def split: if_splits dest!: fputs_rest)
  show thesis
  proof (cases "strcaseeq (section_name (the (cbuf st))) ''default''")
    case True
    then show ?thesis using run that [OF e st2, of current user] less by (auto split: if_splits)
  next
    case False
    obtain ok user' where cb: "callback (section_name (the (cbuf st))) (setdefaults testpoint deflt current) user = (ok, user')"
      by fastforce
    then show ?thesis using run False that [OF e st2, of deflt user'] less by (auto split: if_splits)
  qed
qed

lemma reading_section_end:
  assumes "if cp then (\<exists>l. cbuf st = Some l \<and> reading w text l st \<and> (feof st \<longrightarrow> rest st = [] \<and> l \<noteq> [] \<and> last l \<noteq> CHR 0x0A))
      else reading w text [] st \<and> rest st = []"
    and "section_end cp st = Some st'" "text \<noteq> []" "last text = CHR 0x0A"
  shows "reading w text [] st' \<and> (\<not> cp \<or> feof st' \<longrightarrow> rest st' = [])"
proof (cases cp)
  case False
  then show ?thesis using assms by (auto simp: section_end_def)
next
  case True
  then obtain l where l: "cbuf st = Some l" "reading w text l st" "feof st \<Longrightarrow> rest st = [] \<and> l \<noteq> [] \<and> last l \<noteq> CHR 0x0A"
    using assms(1) by auto
  have "\<not> feof st"
  proof
    assume eof: "feof st"
    obtain pre where "text = pre @ l @ rest st" using l(2) by (auto simp: reading_def)
    then show False using l(3) [OF eof] assms(4) by simp
  qed
  then obtain st1 where "fputs l st = Some st1" "st' = count_line l st1"
    using assms(2) True l(1) by (auto simp: section_end_def)
  then show ?thesis using reading_take(2) [OF l(2)] True \<open>\<not> feof st\<close> fputs_rest by fastforce
qed

lemma sections_checksum:
  assumes "reading w text [] st" "no_nul text" "text \<noteq> []" "last text = CHR 0x0A"
    and "sections callback testpoint deflt st user = Next (c, a, user')"
  shows "c = crc_len (of_nat (length text)) (crc_ptr (bytes_of text) 0) \<and> a = (if w then Some text else None)"
  using assms
proof (induction "length (rest st)" arbitrary: st deflt user rule: less_induct)
  case less
  obtain cp st1 current st2 deflt' u1 where st: "entries testpoint uninit st = Next (cp, st1, current)"
    "section_end cp st1 = Some st2"
    "if \<not> cp \<or> feof st2 then (c, a, user') = (crc_len (flen st2) (crc st2), arch st2, u1)
     else sections callback testpoint deflt' st2 u1 = Next (c, a, user') \<and> length (rest st2) < length (rest st)"
    using sectionsE [OF less.prems(5)] by metis
  have rd: "reading w text [] st2 \<and> (\<not> cp \<or> feof st2 \<longrightarrow> rest st2 = [])"
    using reading_section_end [OF reading_entries [OF less.prems(1,2) st(1)] st(2) less.prems(3,4)] .
  show ?case
  proof (cases "\<not> cp \<or> feof st2")
    case True
    then show ?thesis using st(3) rd reading_end [of w "text" st2] by auto
  next
    case False
    then show ?thesis using st(3) rd less.hyps [of st2 deflt' u1] less.prems(2-4) by auto
  qed
qed

text \<open>The text that \<open>parseConfigFile\<close> starts on.\<close>

lemma parseConfigFile_Parsed:
  assumes "parseConfigFile (Some text) archive callback testpoint user = Parsed c a user'"
  defines "w \<equiv> (\<exists>n. archive = Some (Some n))"
  obtains st where "sections callback testpoint uninit st user = Next (c, a, user')" "no_nul text \<Longrightarrow> reading w text [] st"
proof -
  define st0 where "st0 = \<lparr>rest = text, feof = False, cbuf = None, crc = 0, flen = 0,
      arch = (case archive of Some (Some n) \<Rightarrow> Some [] | _ \<Rightarrow> None),
      disk = (case archive of Some (Some n) \<Rightarrow> n | _ \<Rightarrow> 0)\<rparr>"
  have r0: "reading w text [] st0"
    by (auto simp: reading_def st0_def w_def bytes_of_def split: option.splits)
  obtain cp st1 l st2 where st: "preamble st0 = Next (cp, st1)" "cbuf st1 = Some l" "fputs l st1 = Some st2"
    "cp" "sections callback testpoint uninit (count_line l st2) user = Next (c, a, user')"
    using assms(1) unfolding parseConfigFile_def option.case Let_def st0_def [symmetric]
    by (auto split: if_splits option.splits pstep.splits prod.splits)
  have "reading w text [] (count_line l st2)" if "no_nul text"
    using reading_preamble [OF r0 that st(1)] st(2-4) reading_take(2) by auto
  then show thesis using that st(5) by blast
qed

text \<open>C10: The checksum and the archive are those of the file. When \<open>parseConfigFile\<close> accepts a file
  that is text (no NUL) and ends its last line, the checksum it returns is the one of the whole file
  with its length mixed in, however the 128-byte buffer cuts it into lines,
  and the archive is the file, byte for byte.\<close>

theorem config_checksum_and_archive:
  assumes "parseConfigFile (Some text) (Some (Some n)) callback testpoint user = Parsed c a user'"
    and "no_nul text" "text \<noteq> []" "last text = CHR 0x0A"
  shows "c = crc_len (of_nat (length text)) (crc_ptr (bytes_of text) 0) \<and> a = Some text"
proof -
  obtain st where "sections callback testpoint uninit st user = Next (c, a, user')" "reading True text [] st"
    using parseConfigFile_Parsed [OF assms(1)] assms(2) by auto
  from sections_checksum [OF this(2) assms(2-4) this(1)] show ?thesis by simp
qed

text \<open>A file with one channel.\<close>

definition ex_config :: string where
  "ex_config = ''[X1:A]'' @ [CHR 0x0A] @ ''datarate=2048'' @ [CHR 0x0A] @ ''chnnum=7'' @ [CHR 0x0A]"

lemma ex_config_text: "no_nul ex_config" "ex_config \<noteq> []" "last ex_config = CHR 0x0A"
  by (simp_all add: no_nul_def ex_config_def)

lemma ex_config_parsed:
  "(case parseConfigFile (Some ex_config) (Some (Some 99)) (\<lambda>n p u. (True, u @ [(n, datarate p)])) 0 [] of
      Parsed c a u \<Rightarrow> u = [(''X1:A'', 2048)] | _ \<Rightarrow> False)"
  by code_simp

theorem config_checksum_and_archive_witness:
  "\<exists>c. parseConfigFile (Some ex_config) (Some (Some 99)) (\<lambda>n p u. (True, u @ [(n, datarate p)])) 0 [] =
     Parsed c (Some ex_config) [(''X1:A'', 2048)]"
proof -
  obtain c a where run: "parseConfigFile (Some ex_config) (Some (Some 99)) (\<lambda>n p u. (True, u @ [(n, datarate p)])) 0 [] =
      Parsed c a [(''X1:A'', 2048)]"
    using ex_config_parsed by (auto split: outcome.splits)
  from config_checksum_and_archive [OF run ex_config_text] run show ?thesis by blast
qed

section \<open>What a callback may rely on\<close>

definition rate_ok :: "int \<Rightarrow> bool" where
  "rate_ok r \<longleftrightarrow> r = -1 \<or> (\<exists>k. 4 \<le> k \<and> k \<le> 19 \<and> r = 2 ^ k)"

lemma pow2_loop_power: "pow2_loop v \<Longrightarrow> 1 < v \<Longrightarrow> \<exists>k > 0. v = 2 ^ k"
proof (induction v rule: pow2_loop.induct)
  case (1 v)
  have ev: "even v" using "1.prems"(1) by (auto simp: pow2_loop.simps [of v] split: if_splits)
  then obtain h where h: "v = 2 * h" by blast
  show ?case
  proof (cases "1 < h")
    case True
    then have "pow2_loop h" using "1.prems"(1) h by (simp add: pow2_loop.simps [of "2 * h"])
    with ev h True have "\<exists>k > 0. h = 2 ^ k" by (intro "1.IH") simp_all
    then obtain k where "h = 2 ^ k" by blast
    then show ?thesis using h by (intro exI [of _ "Suc k"]) simp
  next
    case False
    then have "v = 2 ^ 1" using h "1.prems"(2) by simp
    then show ?thesis by (intro exI [of _ 1]) simp
  qed
qed

lemma assign_rate: "assign testpoint i v cur = Some cur' \<Longrightarrow> rate_ok (datarate cur) \<Longrightarrow> rate_ok (datarate cur')"
proof -
  assume a: "assign testpoint i v cur = Some cur'" and ok: "rate_ok (datarate cur)"
  have "rate_ok n" if n: "pow2_loop n" "\<not> n < 16" "\<not> 512 * 1024 < n" for n
  proof -
    obtain k where k: "n = 2 ^ k" using pow2_loop_power [OF n(1)] n(2) by auto
    have "(2 :: int) ^ 4 \<le> 2 ^ k" "(2 :: int) ^ k \<le> 2 ^ 19" using n(2,3) k by simp_all
    then have "4 \<le> k" "k \<le> 19" by (simp_all only: power_increasing_iff)
    with k show ?thesis by (auto simp: rate_ok_def)
  qed
  with a ok show ?thesis
    unfolding assign_def by (auto split: if_splits option.splits)
qed

lemma entries_rate:
  "entries testpoint cur st = Next (cp, st', cur') \<Longrightarrow> rate_ok (datarate cur) \<Longrightarrow> rate_ok (datarate cur')"
proof (induction testpoint cur st rule: entries.induct)
  case (1 testpoint cur st)
  obtain cp1 st1 where fg: "fgets st = (cp1, st1)" by fastforce
  show ?case
  proof (cases "cp1 \<and> \<not> header st1")
    case False
    then show ?thesis using "1.prems" fg by (auto simp: entries.simps [of _ _ st])
  next
    case True
    obtain st2 kv cur2 where st: "fputs (the (cbuf st1)) (count_line (the (cbuf st1)) st1) = Some st2"
      "id_val (the (cbuf st1)) = Next kv" "(case kv of None \<Rightarrow> Some cur | Some (i, v) \<Rightarrow> assign testpoint i v cur) = Some cur2"
      "entries testpoint cur2 st2 = Next (cp, st', cur')"
      using "1.prems" fg True by (auto simp: entries.simps [of _ _ st] split: option.splits pstep.splits)
    have "rate_ok (datarate cur2)" using st(3) "1.prems"(2) assign_rate by (auto split: option.splits)
    from "1.IH" [OF refl fg [symmetric] True st(1-3) st(4) this] show ?thesis .
  qed
qed

lemma setdefaults_rate: "rate_ok (datarate d) \<Longrightarrow> rate_ok (datarate c) \<Longrightarrow> rate_ok (datarate (setdefaults testpoint d c))"
  by (simp add: setdefaults_def Let_def)

lemma section_name_short: "length (section_name s) \<le> 59"
  by (simp add: section_name_def)

text \<open>The contract between the reader and a client: the client keeps its invariant \<open>P\<close> on every channel
  whose name is at most 59 characters long and whose rate is legal.\<close>

locale channel_client =
  fixes callback :: "string \<Rightarrow> CHAN_PARAM \<Rightarrow> 'u \<Rightarrow> bool \<times> 'u" and P :: "'u \<Rightarrow> bool"
  assumes accept: "P u \<Longrightarrow> length name \<le> 59 \<Longrightarrow> rate_ok (datarate p) \<Longrightarrow> callback name p u = (True, u') \<Longrightarrow> P u'"
begin

lemma sections_keep:
  assumes "P user" "rate_ok (datarate deflt)" "sections callback testpoint deflt st user = Next (c, a, user')"
  shows "P user'"
  using assms
proof (induction "length (rest st)" arbitrary: st deflt user rule: less_induct)
  case less
  obtain cp st1 current st2 deflt' u1 where st: "entries testpoint uninit st = Next (cp, st1, current)"
    "deflt' = current \<and> u1 = user \<or>
     deflt' = deflt \<and> callback (section_name (the (cbuf st))) (setdefaults testpoint deflt current) user = (True, u1)"
    "if \<not> cp \<or> feof st2 then (c, a, user') = (crc_len (flen st2) (crc st2), arch st2, u1)
     else sections callback testpoint deflt' st2 u1 = Next (c, a, user') \<and> length (rest st2) < length (rest st)"
    using sectionsE [OF less.prems(3)] by metis
  have cur: "rate_ok (datarate current)" using entries_rate [OF st(1)] by (simp add: uninit_def rate_ok_def)
  have u1: "P u1" "rate_ok (datarate deflt')"
    using st(2) cur less.prems(1,2) accept section_name_short setdefaults_rate by blast+
  then show ?case using st(3) less.hyps [of st2 u1 deflt'] by (auto split: if_splits)
qed

lemma parse_keeps:
  assumes "P user" "parseConfigFile fl archive callback testpoint user = Parsed c a user'"
  shows "P user'"
proof -
  obtain tx where tx: "fl = Some tx" using assms(2) by (auto simp: parseConfigFile_def split: option.splits)
  obtain st where "sections callback testpoint uninit st user = Next (c, a, user')"
    using assms(2) unfolding tx by (rule parseConfigFile_Parsed)
  moreover have "rate_ok (datarate uninit)" by (simp add: uninit_def rate_ok_def)
  ultimately show ?thesis using sections_keep [OF assms(1)] by blast
qed

end

section \<open>The channel table\<close>

definition info_ok :: "DAQ_INFO_BLOCK \<Rightarrow> bool" where
  "info_ok i \<longleftrightarrow> length (dtp i) = 512 \<and> 0 \<le> numChans i \<and> numChans i \<le> 512 \<and>
     0 \<le> numEpicsInts i \<and> 0 \<le> numEpicsFloats i \<and> 0 \<le> numEpicsFilts i \<and>
     numEpicsTotal i = numEpicsInts i + numEpicsFloats i + numEpicsFilts i \<and>
     (\<forall>j < nat (numChans i). \<exists>r. rate_ok r \<and> dataRate (dtp i ! j) = word_of_int r \<and> length (channel_name (dtp i ! j)) \<le> 59)"

interpretation daqinfo: channel_client infoCallback info_ok
proof
  fix u name p u'
  assume ok: "info_ok u" and name: "length name \<le> 59" and rate: "rate_ok (datarate p)"
    and cb: "infoCallback name p u = (True, u')"
  have nat_less: "j < nat (numChans u + 1) \<longleftrightarrow> j < nat (numChans u) \<or> j = nat (numChans u)" for j
    using ok by (auto simp: info_ok_def)
  show "info_ok u'"
    using ok name rate cb
    by (auto simp: infoCallback_def info_ok_def nth_list_update nat_less split: if_splits)
qed

text \<open>C23: The channel table that the front end gets is sound. Whatever the files hold, when
  \<open>loadDaqConfigFile\<close> succeeds the table has at most 512 channels, all inside its array, each with a
  name of at most 59 characters and a rate that was either never set or is a power of two
  from 16 to 524288; and the total of EPICS channels is the sum of its three kinds.\<close>

theorem loaded_table_sound:
  assumes "loadDaqConfigFile fs site ifo sys info tps = Loaded info' tps' a" "length (dtp info) = 512"
  shows "0 \<le> numChans info' \<and> numChans info' \<le> 512 \<and> length (dtp info') = 512 \<and>
    numEpicsTotal info' = numEpicsInts info' + numEpicsFloats info' + numEpicsFilts info' \<and>
    (\<forall>j < nat (numChans info'). length (channel_name (dtp info' ! j)) \<le> 59 \<and>
       (dataRate (dtp info' ! j) = -1 \<or> (\<exists>k. 4 \<le> k \<and> k \<le> 19 \<and> dataRate (dtp info' ! j) = 2 ^ k)))"
proof -
  let ?info = "info\<lparr>numChans := 0, numEpicsInts := 0, numEpicsTotal := 0, numEpicsFloats := 0, numEpicsFilts := 0\<rparr>"
  obtain fl archive c i where parse: "parseConfigFile fl archive infoCallback 0 ?info = Parsed c a i"
    and info': "info' = i\<lparr>configFileCRC := c\<rparr>"
    using assms(1) by (auto simp: loadDaqConfigFile_def Let_def split: if_splits pstep.splits outcome.splits)
  have "info_ok ?info" using assms(2) by (simp add: info_ok_def)
  from daqinfo.parse_keeps [OF this parse] have ok: "info_ok i" .
  have "(dataRate (dtp i ! j) = -1 \<or> (\<exists>k. 4 \<le> k \<and> k \<le> 19 \<and> dataRate (dtp i ! j) = 2 ^ k)) \<and>
    length (channel_name (dtp i ! j)) \<le> 59" if j: "j < nat (numChans i)" for j
  proof -
    obtain r where r: "rate_ok r" "dataRate (dtp i ! j) = word_of_int r" "length (channel_name (dtp i ! j)) \<le> 59"
      using ok j by (auto simp: info_ok_def)
    have "word_of_int (2 ^ k) = (2 ^ k :: u32)" for k by simp
    with r show ?thesis unfolding rate_ok_def by fastforce
  qed
  then show ?thesis using ok by (auto simp: info' info_ok_def)
qed

definition ex_info :: DAQ_INFO_BLOCK where
  "ex_info = \<lparr>numChans = 0, numEpicsInts = 0, numEpicsFloats = 0, numEpicsFilts = 0, numEpicsTotal = 0, configFileCRC = 0,
     dtp = replicate 512 \<lparr>channel_name = [], tpnum = 0, dataType = 0, dataRate = 0, dataGain = Zero False\<rparr>\<rparr>"

definition ex_fs :: filesys where
  "ex_fs = \<lparr>fopen_r = (\<lambda>f. if f = ''/opt/rtcds/lho/h1/chans/daq/SYS.ini'' then Some ex_config else None),
     fsystem = (\<lambda>c. 0), fopen_w = (\<lambda>f. Some 1000)\<rparr>"

lemma ex_load:
  "(case loadDaqConfigFile ex_fs ''lho'' ''H1'' ''SYS'' ex_info [] of Loaded i t a \<Rightarrow> numChans i = 1 | _ \<Rightarrow> False)"
  by code_simp

theorem loaded_table_sound_witness:
  "\<exists>i t a. loadDaqConfigFile ex_fs ''lho'' ''H1'' ''SYS'' ex_info [] = Loaded i t a \<and> length (dtp i) = 512 \<and> numChans i = 1"
proof -
  obtain i t a where run: "loadDaqConfigFile ex_fs ''lho'' ''H1'' ''SYS'' ex_info [] = Loaded i t a" "numChans i = 1"
    using ex_load by (auto split: load_result.splits)
  have "length (dtp ex_info) = 512" by (simp add: ex_info_def)
  from loaded_table_sound [OF run(1) this] run show ?thesis by blast
qed

section \<open>Written files read back\<close>

text \<open>Lines, names and values that come back as they were written.\<close>

definition plain :: "string \<Rightarrow> bool" where
  "plain s \<longleftrightarrow> (\<forall>c \<in> set s. \<not> isspace c \<and> c \<noteq> CHR 0x00 \<and> c \<noteq> CHR ''='')"

lemma fline_line: "CHR 0x0A \<notin> set l \<Longrightarrow> length l < n \<Longrightarrow> fline n (l @ CHR 0x0A # r) = l @ [CHR 0x0A]"
proof (induction l arbitrary: n)
  case Nil
  then show ?case by (cases n) auto
next
  case (Cons c l)
  then show ?case by (cases n) auto
qed

lemma fgets_line:
  assumes "rest st = l @ CHR 0x0A # r" "CHR 0x0A \<notin> set l" "CHR 0x00 \<notin> set l" "length l < 127"
  shows "fgets st = (True, st\<lparr>rest := r, cbuf := Some (l @ [CHR 0x0A]), feof := False\<rparr>)"
proof -
  have "cstr (l @ [CHR 0x0A]) = l @ [CHR 0x0A]" using assms(3) by (intro cstr_no_nul) (simp add: no_nul_def)
  then show ?thesis using assms by (simp add: fgets_def fline_line Let_def)
qed

lemma fgets_end: "rest st = [] \<Longrightarrow> fgets st = (False, st\<lparr>feof := True\<rparr>)"
  by (simp add: fgets_def)

text \<open>A step of the section loop without an archive.\<close>

lemma fputs_no_archive: "arch st = None \<Longrightarrow> fputs s st = Some st"
  by (simp add: fputs_def)

lemma entries_line:
  assumes "fgets st = (True, st1)" "\<not> header st1" "cbuf st1 = Some l" "arch st1 = None"
  shows "entries testpoint cur st =
    (case id_val l of Undefined \<Rightarrow> Undefined | Fail \<Rightarrow> Fail
     | Next kv \<Rightarrow> (case (case kv of None \<Rightarrow> Some cur | Some (i, v) \<Rightarrow> assign testpoint i v cur) of
         None \<Rightarrow> Fail | Some cur' \<Rightarrow> entries testpoint cur' (count_line l st1)))"
  using assms by (simp add: entries.simps [of _ _ st] fputs_no_archive)

text \<open>A file that starts with a section.\<close>

definition first_section :: "string \<Rightarrow> string \<Rightarrow> pstate" where
  "first_section l r = count_line (l @ [CHR 0x0A]) \<lparr>rest = r, feof = False, cbuf = Some (l @ [CHR 0x0A]), crc = 0, flen = 0,
     arch = None, disk = 0\<rparr>"

lemma parse_first_section:
  assumes "l = CHR ''['' # l'" "CHR 0x0A \<notin> set l" "CHR 0x00 \<notin> set l" "length l < 127"
  shows "parseConfigFile (Some (l @ CHR 0x0A # r)) None callback testpoint user =
    (case sections callback testpoint uninit (first_section l r) user of
       Undefined \<Rightarrow> Undefined_behaviour | Fail \<Rightarrow> Refused None | Next (c, a, u) \<Rightarrow> Parsed c a u)"
proof -
  define st where "st = \<lparr>rest = l @ CHR 0x0A # r, feof = False, cbuf = None, crc = 0, flen = 0, arch = None, disk = 0\<rparr>"
  define st1 where "st1 = st\<lparr>rest := r, cbuf := Some (l @ [CHR 0x0A]), feof := False\<rparr>"
  have "fgets st = (True, st1)" unfolding st1_def using assms by (intro fgets_line) (simp_all add: st_def)
  moreover have "header st1" using assms(1) by (simp add: header_def st1_def)
  ultimately have pre: "preamble st = Next (True, st1)" by (simp add: preamble.simps [of st])
  have "count_line (l @ [CHR 0x0A]) st1 = first_section l r" by (simp add: first_section_def st1_def st_def)
  moreover have "cbuf st1 = Some (l @ [CHR 0x0A])" "arch st1 = None" "\<not> feof (first_section l r)"
    by (simp_all add: st1_def st_def first_section_def)
  ultimately show ?thesis
    using pre unfolding parseConfigFile_def option.case Let_def st_def [symmetric]
    by (simp add: st_def [symmetric] fputs_no_archive)
qed

lemma sections_undefined:
  "entries testpoint uninit st = Undefined \<Longrightarrow> sections callback testpoint deflt st user = Undefined"
  by (simp add: sections.simps [of _ _ _ st])

lemma scan_plain:
  assumes "\<forall>c \<in> set i. \<not> isspace c \<and> Some c \<noteq> stop" "length i < n"
  shows "scan stop n (i @ r) = apfst ((@) i) (scan stop (n - length i) r)"
  using assms
proof (induction i arbitrary: n)
  case Nil
  then show ?case by (cases "scan stop n r") simp
next
  case (Cons c i)
  then have "scan stop n ((c # i) @ r) = apfst (Cons c) (scan stop (n - 1) (i @ r))" by auto
  also have "\<dots> = apfst (Cons c) (apfst ((@) i) (scan stop (n - 1 - length i) r))" using Cons by simp
  finally show ?case by (cases "scan stop (n - 1 - length i) r") simp
qed

lemma id_val_plain:
  assumes "plain i" "plain v" "length i < 64" "length v < 64"
  shows "id_val (i @ CHR ''='' # v @ [CHR 0x0A]) = Next (Some (i, v))"
proof -
  have 1: "scan (Some CHR ''='') 64 (i @ CHR ''='' # v @ [CHR 0x0A]) = (i, CHR ''='' # v @ [CHR 0x0A])"
    using scan_plain [of i "Some CHR ''=''" 64] assms(1,3) by (auto simp: plain_def)
  have "isspace (CHR 0x0A)" by (simp add: isspace_def)
  then have "scan None 64 (v @ [CHR 0x0A]) = (v, [])"
    using scan_plain [of v None 64 "[CHR 0x0A]"] assms(2,4) by (auto simp: plain_def)
  then show ?thesis using 1 assms(3,4) by (simp add: id_val_def)
qed

text \<open>C37: A long name overruns the reader's buffer. In a section, a line that holds exactly 64 characters
  other than blanks before its equals sign makes \<open>parseConfigFile\<close> write the terminator behind the end of its
  64-byte array, whatever else the file holds.\<close>

theorem long_name_overruns:
  assumes "plain i" "length i = 64" "length v < 50" "CHR 0x0A \<notin> set v" "CHR 0x00 \<notin> set v" "hd i \<noteq> CHR ''[''"
  shows "parseConfigFile (Some (''[A]'' @ CHR 0x0A # i @ ''='' @ v @ CHR 0x0A # tail)) None callback testpoint user =
    Undefined_behaviour"
proof -
  let ?l = "i @ CHR ''='' # v @ [CHR 0x0A]"
  let ?st = "first_section ''[A]'' (i @ CHR ''='' # v @ CHR 0x0A # tail)"
  have "CHR 0x0A \<notin> set i" "CHR 0x00 \<notin> set i" using assms(1) by (auto simp: plain_def isspace_def)
  then have fg: "fgets ?st = (True, ?st\<lparr>rest := tail, cbuf := Some ?l, feof := False\<rparr>)"
    using assms by (intro fgets_line [of _ "i @ CHR ''='' # v", simplified]) (simp_all add: first_section_def)
  have "\<not> header (?st\<lparr>rest := tail, cbuf := Some ?l, feof := False\<rparr>)"
    using assms(2,6) by (cases i) (simp_all add: header_def)
  moreover have "id_val ?l = Undefined"
  proof -
    have "scan (Some CHR ''='') 64 ?l = (i, CHR ''='' # v @ [CHR 0x0A])"
    proof -
      obtain j c where i: "i = j @ [c]" "length j = 63" using assms(2) by (cases i rule: rev_cases) auto
      then have "scan (Some CHR ''='') 64 (j @ c # CHR ''='' # v @ [CHR 0x0A]) =
          apfst ((@) j) (scan (Some CHR ''='') 1 (c # CHR ''='' # v @ [CHR 0x0A]))"
        using assms(1) scan_plain [of j "Some CHR ''=''" 64] by (auto simp: plain_def)
      then show ?thesis using i assms(1) by (auto simp: plain_def)
    qed
    then show ?thesis using assms(2) by (simp add: id_val_def)
  qed
  moreover have "arch ?st = None" by (simp add: first_section_def)
  ultimately have "entries testpoint uninit ?st = Undefined"
    using entries_line [OF fg, of ?l] by simp
  from sections_undefined [OF this, of callback uninit user] show ?thesis
    using parse_first_section [of "''[A]''" "''A]''" "i @ CHR ''='' # v @ CHR 0x0A # tail" callback testpoint user] by simp
qed

theorem long_name_overruns_witness:
  "parseConfigFile (Some (''[A]'' @ CHR 0x0A # replicate 64 (CHR ''x'') @ ''='' @ ''1'' @ CHR 0x0A # [])) None
     (\<lambda>n p u. (True, u)) 0 () = Undefined_behaviour"
  by (rule long_name_overruns) (simp_all add: plain_def isspace_def numeral_eq_Suc)

subsection \<open>Numbers\<close>

lemma dec_plain: "plain (dec n)"
  using dec_digits [of n] digit_plain by (auto simp: plain_def)

lemma to_int_dec:
  assumes "0 < n" "n < 2 ^ 31"
  shows "to_int (dec n) = Some (int n)"
proof -
  obtain c s where d: "dec n = c # s" using dec_digits [of n] by (cases "dec n") auto
  have c: "digval c < 10" "digval c \<noteq> 0" using dec_digits [of n] dec_hd [OF assms(1)] d by simp_all
  have "digval (CHR ''0'') = 0" by (simp add: digval_def)
  then have ne: "c \<noteq> CHR ''0''" "c \<noteq> CHR ''-''" "c \<noteq> CHR ''+''" using c digit_plain by auto
  have sg: "sign_of (dec n) = (False, dec n)" "\<not> hex_prefix (dec n)" "hd (dec n) \<noteq> CHR ''0''"
    using ne by (auto simp: sign_of_def hex_prefix_def d split: list.splits)
  have "digits 10 (dec n) = (map digval (dec n), [])" using dec_digits [of n] by (intro digits_all) blast
  then have "strtol (dec n) = (int n, [])"
    using sg dec_digits [of n] assms(2) by (simp add: strtol_def)
  then show ?thesis using assms(2) by (simp add: to_int_def c_int_def)
qed

lemma pow2_loop_pow: "pow2_loop (2 ^ Suc k)"
proof (induction k)
  case 0
  show ?case by (simp add: pow2_loop.simps)
next
  case (Suc k)
  have "(2 :: int) ^ Suc (Suc k) div 2 = 2 ^ Suc k" "even ((2 :: int) ^ Suc (Suc k))" "(1 :: int) < 2 ^ Suc k"
    by (simp, simp, rule one_less_power) simp_all
  then show ?case using Suc by (subst pow2_loop.simps) (simp only: Let_def if_True if_False simp_thms)
qed

subsection \<open>Channels\<close>

definition chan_body :: "nat \<Rightarrow> nat \<Rightarrow> string" where
  "chan_body rate num = ''datarate='' @ dec rate @ CHR 0x0A # ''chnnum='' @ dec num @ [CHR 0x0A]"

definition print_chan :: "string \<times> nat \<times> nat \<Rightarrow> string" where
  "print_chan = (\<lambda>(name, rate, num). CHR ''['' # name @ '']'' @ CHR 0x0A # chan_body rate num)"

definition chan_ok :: "string \<times> nat \<times> nat \<Rightarrow> bool" where
  "chan_ok = (\<lambda>(name, rate, num). (\<forall>c \<in> set name. c \<noteq> CHR '']'' \<and> c \<noteq> CHR 0x0A \<and> c \<noteq> CHR 0x00) \<and> length name \<le> 59 \<and>
     \<not> strcaseeq name ''default'' \<and> rate \<in> (\<lambda>k. 2 ^ k) ` {4..19} \<and> 0 < num \<and> num < 2 ^ 31)"

definition delivered :: "string \<times> nat \<times> nat \<Rightarrow> string \<times> CHAN_PARAM" where
  "delivered = (\<lambda>(name, rate, num). (name, uninit\<lparr>datarate := int rate, chnnum := int num\<rparr>))"

lemma assign_datarate:
  assumes "rate \<in> (\<lambda>k. 2 ^ k) ` {4..19}"
  shows "assign testpoint ''datarate'' (dec rate) cur = Some (cur\<lparr>datarate := int rate\<rparr>)"
proof -
  obtain k where k: "rate = 2 ^ k" "4 \<le> k" "k \<le> 19" using assms by auto
  have r: "(2 :: nat) ^ 4 \<le> rate" "rate \<le> 2 ^ 19" using k by (simp_all only: power_increasing_iff)
  have "pow2_loop (int rate)" using k pow2_loop_pow [of "k - 1"] by simp
  moreover have "to_int (dec rate) = Some (int rate)" using r by (intro to_int_dec) auto
  moreover have "\<not> strcaseeq ''datarate'' ''dcuid''" "strcaseeq ''datarate'' ''datarate''" by code_simp+
  ultimately show ?thesis using r by (simp add: assign_def)
qed

lemma assign_chnnum:
  assumes "0 < num" "num < 2 ^ 31"
  shows "assign testpoint ''chnnum'' (dec num) cur = Some (cur\<lparr>chnnum := int num\<rparr>)"
proof -
  have "\<not> strcaseeq ''chnnum'' x" if "x \<in> {''dcuid'', ''datarate'', ''acquire'', ''ifoid'', ''rmid'', ''datatype''}" for x
    using that by (auto simp: strcaseeq_def tolower_def)
  moreover have "strcaseeq ''chnnum'' ''chnnum''" by code_simp
  ultimately show ?thesis using to_int_dec [OF assms] by (simp add: assign_def)
qed

lemma field_line:
  assumes "rest st = i @ CHR ''='' # dec n @ CHR 0x0A # r" "arch st = None" "plain i" "0 < length i" "length i < 10"
    "hd i \<noteq> CHR ''[''" "n < 2 ^ 31" "assign testpoint i (dec n) cur = Some cur'"
  obtains st' where "entries testpoint cur st = entries testpoint cur' st'" "rest st' = r" "arch st' = None"
proof -
  let ?l = "i @ CHR ''='' # dec n @ [CHR 0x0A]"
  have len: "length (dec n) \<le> 10" using assms(7) by (intro dec_length [of n 9, simplified]) simp
  have "CHR 0x0A \<notin> set (i @ CHR ''='' # dec n)" "CHR 0x00 \<notin> set (i @ CHR ''='' # dec n)"
    using assms(3) dec_plain [of n] by (auto simp: plain_def isspace_def)
  then have fg: "fgets st = (True, st\<lparr>rest := r, cbuf := Some ?l, feof := False\<rparr>)"
    using assms(1,5) len by (intro fgets_line [of _ "i @ CHR ''='' # dec n", simplified]) simp_all
  have "\<not> header (st\<lparr>rest := r, cbuf := Some ?l, feof := False\<rparr>)" using assms(4,6) by (cases i) (simp_all add: header_def)
  moreover have "id_val ?l = Next (Some (i, dec n))" using assms(3,5) len dec_plain by (intro id_val_plain) simp_all
  ultimately have "entries testpoint cur st = entries testpoint cur' (count_line ?l (st\<lparr>rest := r, cbuf := Some ?l, feof := False\<rparr>))"
    using entries_line [OF fg, of ?l] assms(2,8) by simp
  then show thesis using that assms(2) by simp
qed

lemma entries_chan:
  assumes "rest st = chan_body rate num @ r" "arch st = None" "chan_ok (name, rate, num)"
  obtains st' where "entries 0 uninit st = entries 0 (uninit\<lparr>datarate := int rate, chnnum := int num\<rparr>) st'"
    "rest st' = r" "arch st' = None"
proof -
  have ok: "rate \<in> (\<lambda>k. 2 ^ k) ` {4..19}" "0 < num" "num < 2 ^ 31" using assms(3) by (auto simp: chan_ok_def)
  then obtain k where "rate = 2 ^ k" "k \<le> 19" by auto
  then have "rate < 2 ^ 31" by (auto intro: order.strict_trans1 [OF power_increasing [of k 19 "2 :: nat"]])
  then obtain st1 where st1: "entries 0 uninit st = entries 0 (uninit\<lparr>datarate := int rate\<rparr>) st1"
    "rest st1 = ''chnnum'' @ CHR ''='' # dec num @ CHR 0x0A # r" "arch st1 = None"
    using field_line [OF _ assms(2), of "''datarate''" rate "''chnnum='' @ dec num @ CHR 0x0A # r" 0 uninit] assms(1)
      assign_datarate [OF ok(1)] by (auto simp: chan_body_def plain_def isspace_def)
  obtain st2 where "entries 0 (uninit\<lparr>datarate := int rate\<rparr>) st1 =
      entries 0 (uninit\<lparr>datarate := int rate, chnnum := int num\<rparr>) st2" "rest st2 = r" "arch st2 = None"
    using field_line [OF st1(2,3), of 0 "uninit\<lparr>datarate := int rate\<rparr>"] assign_chnnum [OF ok(2,3)] ok(3)
    by (auto simp: plain_def isspace_def)
  then show thesis using that st1(1) by simp
qed

lemma setdefaults_uninit: "setdefaults 0 uninit (uninit\<lparr>datarate := r, chnnum := n\<rparr>) = uninit\<lparr>datarate := r, chnnum := n\<rparr>"
  by (simp add: setdefaults_def Let_def uninit_def)

lemma section_name_header: "chan_ok (name, rate, num) \<Longrightarrow> section_name (CHR ''['' # name @ '']'' @ [CHR 0x0A]) = name"
proof -
  assume "chan_ok (name, rate, num)"
  then have "takeWhile (\<lambda>c. c \<noteq> CHR '']'') (name @ '']'' @ [CHR 0x0A]) = name" "length name \<le> 59"
    by (auto simp: chan_ok_def takeWhile_append takeWhile_eq_all_conv)
  then show ?thesis by (simp add: section_name_def)
qed

abbreviation (input) collect :: "string \<Rightarrow> CHAN_PARAM \<Rightarrow> (string \<times> CHAN_PARAM) list \<Rightarrow> bool \<times> (string \<times> CHAN_PARAM) list" where
  "collect \<equiv> \<lambda>n p u. (True, u @ [(n, p)])"

lemma sections_printed:
  assumes "cbuf st = Some (CHR ''['' # name @ '']'' @ [CHR 0x0A])" "rest st = chan_body rate num @ concat (map print_chan chs)"
    "arch st = None" "chan_ok (name, rate, num)" "\<forall>c \<in> set chs. chan_ok c"
  shows "\<exists>c. sections collect 0 uninit st u = Next (c, None, u @ map delivered ((name, rate, num) # chs))"
  using assms
proof (induction chs arbitrary: st name rate num u)
  case Nil
  let ?cur = "uninit\<lparr>datarate := int rate, chnnum := int num\<rparr>"
  obtain st1 where st1: "entries 0 uninit st = entries 0 ?cur st1" "rest st1 = []" "arch st1 = None"
    using entries_chan [of st rate num "[]" name] Nil.prems by auto
  have "entries 0 ?cur st1 = Next (False, st1\<lparr>feof := True\<rparr>, ?cur)"
    using fgets_end [OF st1(2)] by (simp add: entries.simps [of _ _ st1])
  moreover have "\<not> strcaseeq name ''default''" using Nil.prems(4) by (simp add: chan_ok_def)
  ultimately show ?case
    using st1 Nil.prems(1) section_name_header [OF Nil.prems(4)]
    by (simp add: sections.simps [of _ _ _ st] setdefaults_uninit delivered_def)
next
  case (Cons ch chs)
  obtain name2 rate2 num2 where ch: "ch = (name2, rate2, num2)" by (cases ch) auto
  let ?cur = "uninit\<lparr>datarate := int rate, chnnum := int num\<rparr>"
  let ?h = "CHR ''['' # name2 @ '']'' @ [CHR 0x0A]"
  let ?r = "chan_body rate2 num2 @ concat (map print_chan chs)"
  obtain st1 where st1: "entries 0 uninit st = entries 0 ?cur st1" "rest st1 = (CHR ''['' # name2 @ '']'') @ CHR 0x0A # ?r"
    "arch st1 = None"
    using entries_chan [OF Cons.prems(2,3,4)] by (auto simp: ch print_chan_def)
  have ok2: "chan_ok (name2, rate2, num2)" using Cons.prems(5) ch by simp
  let ?st2 = "st1\<lparr>rest := ?r, cbuf := Some ?h, feof := False\<rparr>"
  have "fgets st1 = (True, ?st2)"
    using fgets_line [OF st1(2)] ok2 by (auto simp: chan_ok_def)
  then have e: "entries 0 ?cur st1 = Next (True, ?st2, ?cur)"
    by (simp add: entries.simps [of _ _ st1] header_def)
  have "\<exists>c. sections collect 0 uninit (count_line ?h ?st2) (u @ [(name, ?cur)]) =
      Next (c, None, (u @ [(name, ?cur)]) @ map delivered ((name2, rate2, num2) # chs))"
    using Cons.prems(5) st1(3) ok2 by (intro Cons.IH) simp_all
  moreover have "\<not> strcaseeq name ''default''" using Cons.prems(4) by (simp add: chan_ok_def)
  ultimately show ?case
    using st1 e Cons.prems(1) section_name_header [OF Cons.prems(4)]
    by (simp add: sections.simps [of _ _ _ st] setdefaults_uninit fputs_no_archive ch delivered_def)
qed

text \<open>C15: What is written in a configuration file is what the reader delivers. For every list of channels
  (names of up to 59 characters without a bracket, legal rates, positive numbers) written as sections with a
  rate and a channel number in decimal, \<open>parseConfigFile\<close> accepts the file and calls back once per
  channel, in order, with exactly that name, rate and number and every other
  parameter unset.\<close>

theorem printed_config_reads_back:
  assumes "chs \<noteq> []" "\<forall>c \<in> set chs. chan_ok c"
  shows "\<exists>c. parseConfigFile (Some (concat (map print_chan chs))) None (\<lambda>n p u. (True, u @ [(n, p)])) 0 [] =
    Parsed c None (map delivered chs)"
proof -
  obtain name rate num rst where chs: "chs = (name, rate, num) # rst" using assms(1) by (cases chs) auto
  have ok: "chan_ok (name, rate, num)" "\<forall>c \<in> set rst. chan_ok c" using assms(2) chs by auto
  let ?l = "CHR ''['' # name @ '']''"
  let ?r = "chan_body rate num @ concat (map print_chan rst)"
  have tx: "concat (map print_chan chs) = ?l @ CHR 0x0A # ?r" by (simp add: chs print_chan_def)
  have l: "CHR 0x0A \<notin> set ?l" "CHR 0x00 \<notin> set ?l" "length ?l < 127" using ok(1) by (auto simp: chan_ok_def)
  have "\<exists>c. sections collect 0 uninit (first_section ?l ?r) [] = Next (c, None, [] @ map delivered ((name, rate, num) # rst))"
    using ok by (intro sections_printed) (simp_all add: first_section_def)
  then show ?thesis
    unfolding tx using parse_first_section [OF refl l, of ?r collect 0 "[]"] by (auto simp: chs)
qed

theorem printed_config_reads_back_witness:
  "\<exists>c. parseConfigFile (Some (concat (map print_chan [(''X1:A'', 2048, 7), (''X1:B'', 16, 12)]))) None
     (\<lambda>n p u. (True, u @ [(n, p)])) 0 [] = Parsed c None (map delivered [(''X1:A'', 2048, 7), (''X1:B'', 16, 12)])"
proof -
  have "(2048 :: nat) \<in> (\<lambda>k. 2 ^ k) ` {4..19}" by (rule image_eqI [of _ _ 11]) simp_all
  moreover have "(16 :: nat) \<in> (\<lambda>k. 2 ^ k) ` {4..19}" by (rule image_eqI [of _ _ 4]) simp_all
  ultimately have "\<forall>c \<in> set [(''X1:A'', 2048, 7), (''X1:B'', 16, 12)]. chan_ok c"
    by (simp add: chan_ok_def strcaseeq_def)
  then show ?thesis by (intro printed_config_reads_back) simp_all
qed

end
