(* ===== verification/DaqDecim.thy ===== *)
theory DaqDecim
  imports Iir
begin

text \<open>
  The decimation filters of the data acquisition (\<open>daqWrite\<close> of \<open>src/include/drv/daqLib.c\<close>): one table of three sections for
  every factor, in the biquad form that the code generator selects (\<open>CORE_BIQUAD\<close>) and in the direct form of
  the other build. The entries are the decimal literals of the source in units of \<open>10\<^sup>-\<^sup>2\<^sup>0\<close>.
\<close>

section \<open>Biquad form\<close>

definition dCoeff2x :: "int list" where
  "dCoeff2x = [2717257186578000000, - 11590554090880000000, - 40753832312918000000, 266236735378793000000,
     337073457156755000000, - 49505157452475000000, - 110461941102831000000, 140184470311617000000,
     179227686661261000000, - 74143396593712000000, - 162740819248313000000, 72188475979666000000,
     83591053325065000000]"

definition dCoeff4x :: "int list" where
  "dCoeff4x = [426219526013000000, 46640482430571000000, - 10620935923005000000, 250932081620118000000,
     293670663266542000000, 43602772908265000000, - 31016854747127000000, 75143527373544000000,
     100523899718152000000, 44571894955428000000, - 47692045639835000000, 36664098129003000000,
     44400157533740000000]"

definition dCoeff8x :: "int list" where
  "dCoeff8x = [162185538923000000, 73342532779703000000, - 2862365091314000000, 144110125961504000000,
     167905228090487000000, 77657563380963000000, - 8304311675394000000, 18851328163424000000,
     32889453107067000000, 83213081484618000000, - 12573495191273000000, 9409119791085010000,
     13622543115194000000]"

definition dCoeff16x :: "int list" where
  "dCoeff16x = [112590539483000000, 86616831686611000000, - 753654634986012000, 48586805026482000000,
     61216318704885000000, 90508101474565000000, - 2153497115447990000, 1498868425814990000,
     8837269835802000000, 94631370100442000000, - 3204179555610000000, 1412816060274010000,
     3577266404222020000]"

definition dCoeff32x :: "int list" where
  "dCoeff32x = [102945292275000000, 93288074072411000000, - 194092797014001000, 10751900551591000000,
     17269733682166000000, 95705391699530000000, - 548573773340011000, - 1499979879663020000,
     2246054647466990000, 98100244642901000000, - 807148639261013000, - 189235941040011000,
     903370776797985000]"

definition dCoeff64x :: "int list" where
  "dCoeff64x = [101894798776000000, 96638168022541000000, - 49297462796005200, 1147570619135000000,
     4460105133798000000, 97969775930388000000, - 138449271550001000, - 1328571015038980000,
     563203783023014000, 99249184543014000000, - 202449978136010000, - 322227927422025000,
     226137551427974000]"

definition dCoeff128x :: "int list" where
  "dCoeff128x = [102359688929000000, 98317523053482000000, - 12425419109995900, - 545789721985002000,
     1124261805423000000, 99014707880010000000, - 34777399646990200, - 809690612593994000,
     140824107749005000, 99674681025230000000, - 50688887713989900, - 218112074794985000,
     56518012261030900]"

definition dCoeff256x :: "int list" where
  "dCoeff256x = [102849104272000000, 99158359864769000000, - 3119261702000390, - 556878740432998000,
     281642133096005000, 99514878857652000000, - 8715098127998200, - 441208984599983000,
     35197059620006900, 99849900371282000000, - 12681361272992600, - 123294150072994000,
     14124117372005300]"

section \<open>Direct form\<close>

definition sosCoeff2x :: "int list" where
  "sosCoeff2x = [2717257186578000000, - 88409445909120000000, 29163278222038000000, 177827289469673000000,
     100000000000000000000, - 50494842547525000000, 60956783650356000000, 89689627764092000000,
     100000000000000000000, - 25856603406288000000, 88597422654601000000, 46331872573378000000,
     100000000000000000000]"

definition sosCoeff4x :: "int list" where
  "sosCoeff4x = [426219526013000000, - 146640482430571000000, 57261418353576000000, 104291599189547000000,
     100000000000000000000, - 143602772908265000000, 74619627655392000000, - 68459245534721000000,
     100000000000000000000, - 144571894955428000000, 92263940595263000000, - 107907796826425000000,
     100000000000000000000]"

definition sosCoeff8x :: "int list" where
  "sosCoeff8x = [162185538923000000, - 173342532779703000000, 76204897871017000000, - 29232406818199000000,
     100000000000000000000, - 177657563380963000000, 85961875056357000000, - 158806235217539000000,
     100000000000000000000, - 183213081484618000000, 95786576675891000000, - 173803961693533000000,
     100000000000000000000]"

definition sosCoeff16x :: "int list" where
  "sosCoeff16x = [112590539483000000, - 186616831686611000000, 87370486321597000000, - 138030026660129000000,
     100000000000000000000, - 190508101474565000000, 92661598590013000000, - 189009233048750000000,
     100000000000000000000, - 194631370100442000000, 97835549656052000000, - 193218554040168000000,
     100000000000000000000]"

definition sosCoeff32x :: "int list" where
  "sosCoeff32x = [102945292275000000, - 193288074072411000000, 93482166869425000000, - 182536173520820000000,
     100000000000000000000, - 195705391699530000000, 96253965472870000000, - 197205371579193000000,
     100000000000000000000, - 198100244642901000000, 98907393282162000000, - 198289480583941000000,
     100000000000000000000]"

definition sosCoeff64x :: "int list" where
  "sosCoeff64x = [101894798776000000, - 196638168022541000000, 96687465485337000000, - 195490597403406000000,
     100000000000000000000, - 197969775930388000000, 98108225201938000000, - 199298346945427000000,
     100000000000000000000, - 199249184543014000000, 99451634521150000000, - 199571412470436000000,
     100000000000000000000]"

definition sosCoeff128x :: "int list" where
  "sosCoeff128x = [102359688929000000, - 198317523053482000000, 98329948472592000000, - 198863312775467000000,
     100000000000000000000, - 199014707880010000000, 99049485279657000000, - 199824398492604000000,
     100000000000000000000, - 199674681025230000000, 99725369912944000000, - 199892793100025000000,
     100000000000000000000]"

definition sosCoeff256x :: "int list" where
  "sosCoeff256x = [102849104272000000, - 199158359864769000000, 99161479126471000000, - 199715238605202000000,
     100000000000000000000, - 199514878857652000000, 99523593955780000000, - 199956087842252000000,
     100000000000000000000, - 199849900371282000000, 99862581732555000000, - 199973194521355000000,
     100000000000000000000]"

section \<open>The two builds\<close>

definition dCoeff :: "int \<Rightarrow> int list option" where
  "dCoeff k =
     (if k = 2 then Some dCoeff2x else if k = 4 then Some dCoeff4x else if k = 8 then Some dCoeff8x
      else if k = 16 then Some dCoeff16x else if k = 32 then Some dCoeff32x else if k = 64 then Some dCoeff64x
      else if k = 128 then Some dCoeff128x else if k = 256 then Some dCoeff256x else None)"

definition literals :: "int list \<Rightarrow> fp list" where
  "literals t = map (\<lambda>i. lit i (10 ^ 20)) t"

definition sosCoeff :: "int \<Rightarrow> int list option" where
  "sosCoeff k =
     (if k = 2 then Some sosCoeff2x else if k = 4 then Some sosCoeff4x else if k = 8 then Some sosCoeff8x
      else if k = 16 then Some sosCoeff16x else if k = 32 then Some sosCoeff32x else if k = 64 then Some sosCoeff64x
      else if k = 128 then Some sosCoeff128x else if k = 256 then Some sosCoeff256x else None)"

text \<open>The conversion to biquad form of the coefficient file reader, on a table of three sections.\<close>

definition units :: "int arith" where
  "units = \<lparr>add_of = (+), sub_of = (-), mul_of = (*), neg_of = uminus, one_of = 10 ^ 20\<rparr>"

definition to_biquad :: "int list \<Rightarrow> int list" where
  "to_biquad t = t ! 0 # concat (map (\<lambda>i. biquad_of units (t ! (4 * i + 1)) (t ! (4 * i + 2)) (t ! (4 * i + 3)) (t ! (4 * i + 4)))
     [0, 1, 2])"

definition tables_close :: "int list option \<Rightarrow> int list option \<Rightarrow> bool" where
  "tables_close b s = (case (b, s) of (Some b, Some s) \<Rightarrow> length b = 13 \<and> length s = 13 \<and>
     list_all2 (\<lambda>x y. \<bar>x - y\<bar> \<le> 31000) b (to_biquad s) | _ \<Rightarrow> False)"

lemma tables_close_each:
  "list_all (\<lambda>k. tables_close (dCoeff k) (sosCoeff k)) [2, 4, 8, 16, 32, 64, 128, 256]"
  by code_simp

text \<open>The two builds decimate by the same filters: for every factor, the table in biquad form is the conversion of
  the direct form to within \<open>3.1 * 10\<^sup>-\<^sup>1\<^sup>6\<close>, and for the factors 2 and 4 it is exactly the conversion.\<close>

theorem decimation_tables_agree:
  assumes "k \<in> {2, 4, 8, 16, 32, 64, 128, 256}"
  shows "tables_close (dCoeff k) (sosCoeff k)"
    and "k \<le> 4 \<Longrightarrow> map_option to_biquad (sosCoeff k) = dCoeff k"
proof -
  show "tables_close (dCoeff k) (sosCoeff k)" using assms tables_close_each by auto
  have "map_option to_biquad (sosCoeff 2) = dCoeff 2" "map_option to_biquad (sosCoeff 4) = dCoeff 4"
    by code_simp+
  then show "map_option to_biquad (sosCoeff k) = dCoeff k" if "k \<le> 4" using assms that by auto
qed

end
