(* ===== verification/DaqTable.thy ===== *)
theory DaqTable
  imports DaqConfig DaqDecim FilterCoeff
begin

text \<open>
  The data acquisition of a front end (\<open>src/include/drv/daqLib.c\<close>): its state, and the tables it works from, which
  \<open>daqConfig\<close> and \<open>loadLocalTable\<close> make from the channel configuration in shared memory. The shared
  memory of the network driver is an array of bytes with 16 blocks of \<open>buf_size\<close>; addresses are relative to its start.
  \<open>None\<close> is an access outside an array or a division by zero.
\<close>

section \<open>Data\<close>

record DAQ_LKUP_TABLE =
  ltype :: int
  sysNum :: int
  fmNum :: int
  sigNum :: int
  decFactor :: int
  loffset :: int

record DAQ_RANGE =
  filtTpMin :: int
  filtTpMax :: int
  filtTpSize :: int
  xTpMin :: int
  xTpMax :: int
  filtExMin :: int
  filtExMax :: int
  filtExSize :: int
  xExMin :: int
  xExMax :: int

record DAQ_XFER_INFO =
  crcLength :: int
  xferSize1 :: int
  totalSize :: int
  totalSizeNet :: int
  offsetAccum :: int
  fileCrc :: u32

text \<open>The local copy of the configuration has the fields that \<open>daqConfig\<close> computes in addition.\<close>

record DAQ_INFO_LOCAL = DAQ_INFO_BLOCK +
  epicsdblDataOffset :: int
  cpyepics2times :: int
  cpyIntSize :: "int \<times> int"
  numEpicsFiltXfers :: int
  numEpicsFiltsLast :: int

record blockProp =
  btimeSec :: u32
  btimeNSec :: u32
  bcycle :: u32
  bcrc :: u32

record rmIpcStr =
  icycle :: u32
  idcuId :: u32
  icrc :: u32
  idataBlockSize :: u32
  ibp :: "blockProp list"

text \<open>What is fixed when a front end is built: its rate in samples per block, its number, its test point ranges, the
  number of its filter modules and of the integers in the generated structure \<open>CDS_EPICS_OUT\<close>.\<close>

record daq_env =
  sysRate :: int
  dcuId :: int
  daqRange :: DAQ_RANGE
  maxModules :: int
  cdsInts :: int

text \<open>What a call reads besides: the test points that are not in filter modules, the EPICS values (the bytes of the
  integers, the doubles by their address), the status words and samples of the excitations by their address, the time.\<close>

record daq_in =
  tpData :: "fp list"
  epicsBytes :: "nat \<Rightarrow> u8"
  epicsDbl :: "int \<Rightarrow> fp"
  excStatus :: "int \<Rightarrow> int"
  excData :: "int \<Rightarrow> fp"
  cycle_gps_time :: u32

text \<open>The static variables of \<open>daqWrite\<close> (\<open>wbase\<close> is \<open>pWriteBuffer\<close>), the globals of the file, and the shared memories it
  writes: the data (\<open>swing\<close>), \<open>dipc\<close>, the table for the frame builder, the selections of the test point manager (by
  interface, the numbers and the status words), the configuration; and the data of the front end.\<close>

record daq_st =
  daqBlockNum :: int
  daqXmitBlockNum :: int
  excBlockNum :: int
  excDataSize :: int
  xferInfo :: DAQ_XFER_INFO
  localTable :: "DAQ_LKUP_TABLE list"
  excTable :: "DAQ_LKUP_TABLE list"
  wbase :: int
  daqSlot :: int
  excSlot :: int
  dataInfo :: DAQ_INFO_LOCAL
  tpStart :: int
  validTp :: int
  validTpNet :: int
  validEx :: int
  tpNum :: "u32 list"
  tpNumNet :: "u32 list"
  totalChans :: int
  dHistory :: "fp list list"
  pEpicsDblData :: int
  pEpicsFloat :: "int option"
  curDaqBlockSize :: u32
  swing :: "nat \<Rightarrow> u8"
  dipc :: rmIpcStr
  tpCount :: int
  tpShm :: "u32 list"
  gdsTp :: "(u32 list \<times> u32 list) list"
  reconfig :: int
  pInfo :: DAQ_INFO_BLOCK
  dsp :: fm_sys
  excSignal :: "fp list"
  gdsMonitor :: "u32 list"

text \<open>The test point ranges of a front end with \<open>m\<close> filter modules, as the control loop sets them.\<close>

definition daq_range :: "bool \<Rightarrow> int \<Rightarrow> DAQ_RANGE" where
  "daq_range slow m =
     (let ex = (if slow then 20001 else 1); tp = (if slow then 30001 else 10001)
      in \<lparr>filtTpMin = tp, filtTpMax = tp + m * 3, filtTpSize = m * 3, xTpMin = tp + m * 3, xTpMax = tp + m * 3 + 500,
          filtExMin = ex, filtExMax = ex + m, filtExSize = m, xExMin = ex + m, xExMax = ex + m + 50\<rparr>)"

abbreviation (input) DAQ_NUM_DATA_BLOCKS :: int where "DAQ_NUM_DATA_BLOCKS \<equiv> 16"
abbreviation (input) DAQ_GDS_MAX_TP_ALLOWED :: nat where "DAQ_GDS_MAX_TP_ALLOWED \<equiv> 64"
abbreviation (input) DAQ_16K_SAMPLE_SIZE :: int where "DAQ_16K_SAMPLE_SIZE \<equiv> 1024"
abbreviation (input) DAQ_DCU_BLOCK_SIZE :: int where "DAQ_DCU_BLOCK_SIZE \<equiv> 0x40000"
abbreviation (input) buf_size :: int where "buf_size \<equiv> DAQ_DCU_BLOCK_SIZE * 2"
abbreviation (input) DAQ_NUM_FM_TP :: int where "DAQ_NUM_FM_TP \<equiv> 3"
abbreviation (input) DAQ_SRC_FM_TP :: int where "DAQ_SRC_FM_TP \<equiv> 0"
abbreviation (input) DAQ_SRC_NFM_TP :: int where "DAQ_SRC_NFM_TP \<equiv> 1"
abbreviation (input) DAQ_SRC_FM_EXC :: int where "DAQ_SRC_FM_EXC \<equiv> 2"
abbreviation (input) DAQ_SRC_NFM_EXC :: int where "DAQ_SRC_NFM_EXC \<equiv> 3"
abbreviation (input) DAQ_DATATYPE_FLOAT :: u32 where "DAQ_DATATYPE_FLOAT \<equiv> 4"
abbreviation (input) DAQ_XFER_FMD_PER_CYCLE :: int where "DAQ_XFER_FMD_PER_CYCLE \<equiv> 100"
abbreviation (input) DAQ_XFER_CYCLE_FMD :: int where "DAQ_XFER_CYCLE_FMD \<equiv> 2"

definition daqSizeByType :: "int list" where
  "daqSizeByType = [0, 2, 4, 8, 4, 8, 16, 4]"

definition DAQ_DATA_TYPE_SIZE :: "u32 \<Rightarrow> int option" where
  "DAQ_DATA_TYPE_SIZE t = (if unat t < length daqSizeByType then Some (daqSizeByType ! unat t) else None)"

section \<open>The configuration\<close>

text \<open>The loop over the channels of \<open>daqConfig\<close>: \<open>n\<close> are left, \<open>ii\<close> is the next. The size is computed in \<open>unsigned int\<close>.\<close>

fun config_chans ::
  "DAQ_INFO_CHAN list \<Rightarrow> nat \<Rightarrow> nat \<Rightarrow> DAQ_INFO_CHAN list \<Rightarrow> u32 \<Rightarrow> (DAQ_INFO_CHAN list \<times> u32) option" where
  "config_chans src 0 ii tps len = Some (tps, len)"
| "config_chans src (Suc n) ii tps len =
     (if ii < length src \<and> ii < length tps then
        (case DAQ_DATA_TYPE_SIZE (dataType (src ! ii)) of
           None \<Rightarrow> None
         | Some sz \<Rightarrow>
             config_chans src n (ii + 1)
               (tps[ii := (tps ! ii)\<lparr>tpnum := tpnum (src ! ii), dataType := dataType (src ! ii),
                  dataRate := dataRate (src ! ii)\<rparr>])
               (len + word_of_int sz * dataRate (src ! ii) div 16))
      else None)"

definition epics_layout :: "daq_env \<Rightarrow> DAQ_INFO_LOCAL \<Rightarrow> DAQ_INFO_LOCAL" where
  "epics_layout env d =
     (let ii = cdsInts env * 4; jj = (numEpicsInts d - cdsInts env) * 4;
          hole = (if ii smod 8 \<noteq> 0 then 4 else 0) + (if jj smod 8 \<noteq> 0 then 4 else 0);
          twice = (ii smod 8 \<noteq> 0 \<and> jj > 0)
      in d\<lparr>epicsdblDataOffset := hole, cpyepics2times := (if twice then 1 else 0),
           cpyIntSize := (if twice then (ii, jj) else (numEpicsInts d * 4, 0))\<rparr>)"

definition daqConfig :: "daq_env \<Rightarrow> daq_st \<Rightarrow> (int \<times> daq_st) option" where
  "daqConfig env st =
     (let p = pInfo st
      in if numChans p > DCU_MAX_CHANNELS then Some (-1, st)
         else
           let m = maxModules env;
               d = (dataInfo st)\<lparr>numChans := numChans p, numEpicsInts := numEpicsInts p, numEpicsFloats := numEpicsFloats p,
                     numEpicsFilts := numEpicsFilts p, numEpicsTotal := numEpicsTotal p,
                     numEpicsFiltXfers := m sdiv DAQ_XFER_FMD_PER_CYCLE +
                       (if m smod DAQ_XFER_FMD_PER_CYCLE \<noteq> 0 then 1 else 0) + DAQ_XFER_CYCLE_FMD,
                     numEpicsFiltsLast := (if m smod DAQ_XFER_FMD_PER_CYCLE \<noteq> 0 then m smod DAQ_XFER_FMD_PER_CYCLE
                       else DAQ_XFER_FMD_PER_CYCLE)\<rparr>;
               d = epics_layout env d
           in (case config_chans (dtp p) (nat (numChans p)) 0 (dtp d) (word_of_int (4 * numEpicsTotal d)) of
                 None \<Rightarrow> None
               | Some (tps, len) \<Rightarrow>
                   Some (sint len, st\<lparr>dataInfo := d\<lparr>dtp := tps\<rparr>,
                     pEpicsDblData := numEpicsInts d * 4 + epicsdblDataOffset d,
                     curDaqBlockSize := len * 16\<rparr>)))"

section \<open>The channel table\<close>

text \<open>Where the data of a channel or test point comes from. The numbers are compared as \<open>unsigned int\<close>.\<close>

definition in_range :: "u32 \<Rightarrow> int \<Rightarrow> int \<Rightarrow> bool" where
  "in_range t lo hi \<longleftrightarrow> word_of_int lo \<le> t \<and> t < word_of_int hi"

definition from_min :: "u32 \<Rightarrow> int \<Rightarrow> int" where
  "from_min t lo = sint (t - word_of_int lo)"

definition fm_testpoint :: "DAQ_RANGE \<Rightarrow> u32 \<Rightarrow> DAQ_LKUP_TABLE \<Rightarrow> DAQ_LKUP_TABLE option" where
  "fm_testpoint r t e =
     (let jj = from_min t (filtTpMin r); sys = jj sdiv filtTpSize r; jj = jj - sys * filtTpSize r
      in if filtTpSize r = 0 then None
         else Some (e\<lparr>ltype := DAQ_SRC_FM_TP, sysNum := sys, fmNum := jj sdiv DAQ_NUM_FM_TP, sigNum := jj smod DAQ_NUM_FM_TP\<rparr>))"

definition chan_source :: "DAQ_RANGE \<Rightarrow> u32 \<Rightarrow> DAQ_LKUP_TABLE \<Rightarrow> DAQ_LKUP_TABLE pstep" where
  "chan_source r t e =
     (if in_range t (filtTpMin r) (filtTpMax r) then
        (case fm_testpoint r t e of None \<Rightarrow> Undefined | Some e \<Rightarrow> Next e)
      else if in_range t (filtExMin r) (filtExMax r) then
        Next (e\<lparr>ltype := DAQ_SRC_FM_EXC, fmNum := from_min t (filtExMin r)\<rparr>)
      else if in_range t (xTpMin r) (xTpMax r) then
        Next (e\<lparr>ltype := DAQ_SRC_NFM_TP, sigNum := from_min t (xTpMin r)\<rparr>)
      else if in_range t (xExMin r) (xExMax r) then
        Next (e\<lparr>ltype := DAQ_SRC_NFM_EXC, fmNum := from_min t (xExMin r), sigNum := from_min t (xExMin r)\<rparr>)
      else Fail)"

text \<open>The loop over the channels of \<open>loadLocalTable\<close>: the return value, the table and \<open>offsetAccum\<close>.\<close>

fun load_chans ::
  "daq_env \<Rightarrow> DAQ_INFO_CHAN list \<Rightarrow> nat \<Rightarrow> nat \<Rightarrow> DAQ_LKUP_TABLE list \<Rightarrow> int \<Rightarrow>
     (int \<times> DAQ_LKUP_TABLE list \<times> int) option" where
  "load_chans env tps 0 ii lt acc = Some (0, lt, acc)"
| "load_chans env tps (Suc n) ii lt acc =
     (if \<not> (ii < length tps \<and> ii < length lt) then None
      else
        let rate = dataRate (tps ! ii) div 16
        in if rate > word_of_int (sysRate env) then Some (-1, lt, acc)
           else if rate = 0 then None
           else
             let dec = sint (word_of_int (sysRate env) div rate :: u32);
                 lt = lt[ii := (lt ! ii)\<lparr>decFactor := dec\<rparr>]
             in (case DAQ_DATA_TYPE_SIZE (dataType (tps ! ii)) of
                   None \<Rightarrow> None
                 | Some sz \<Rightarrow>
                     let acc = acc + sysRate env sdiv dec * sz
                     in if \<not> ii + 1 < length lt then None
                        else
                          let lt = lt[ii + 1 := (lt ! (ii + 1))\<lparr>loffset := acc\<rparr>]
                          in (case chan_source (daqRange env) (tpnum (tps ! ii)) (lt ! ii) of
                                Undefined \<Rightarrow> None
                              | Fail \<Rightarrow> Some (-1, lt, acc)
                              | Next e \<Rightarrow> load_chans env tps n (ii + 1) (lt[ii := e]) acc)))"

definition loadLocalTable :: "daq_env \<Rightarrow> daq_st \<Rightarrow> (int \<times> daq_st) option" where
  "loadLocalTable env st =
     (let x = xferInfo st; d = dataInfo st; acc = 4 * numEpicsTotal d; lt = localTable st
      in if sysRate env = 0 \<or> lt = [] then None
         else (case load_chans env (dtp d) (nat (numChans d)) 0 (lt[0 := (lt ! 0)\<lparr>loffset := acc\<rparr>]) acc of
                 None \<Rightarrow> None
               | Some (ret, lt, acc) \<Rightarrow>
                   Some (ret, st\<lparr>localTable := lt,
                     xferInfo := x\<lparr>fileCrc := configFileCRC (pInfo st), xferSize1 := crcLength x sdiv sysRate env,
                       totalSize := crcLength x, totalSizeNet := crcLength x, offsetAccum := acc\<rparr>\<rparr>)))"

end
