(* ===== verification/DaqSelect.thy ===== *)
theory DaqSelect
  imports DaqTable
begin

text \<open>
  The selection of test points and excitations, which \<open>daqWrite\<close> takes over from the test point manager once a second
  (\<open>src/include/drv/daqLib.c\<close>): deselected numbers are removed from the table of 64 slots, numbers that stay keep their
  slots, and new ones take the first empty slots.
\<close>

section \<open>The lists of the manager\<close>

text \<open>The copies of the two lists that the search clears as it goes, and the search itself: \<open>off\<close> is the place where
  the excitation of the slot was found when it was selected.\<close>

fun in_the_lists_from ::
  "nat \<Rightarrow> nat \<Rightarrow> u32 \<Rightarrow> int \<Rightarrow> u32 list \<times> u32 list \<Rightarrow> bool \<times> u32 list \<times> u32 list" where
  "in_the_lists_from 0 i tp off (tps, exs) = (False, tps, exs)"
| "in_the_lists_from (Suc n) i tp off (tps, exs) =
     (if tps ! i = tp then (True, tps[i := 0], exs)
      else if exs ! i = tp then
        (if int i \<noteq> off then (False, tps, exs) else (True, tps, exs[i := 0]))
      else in_the_lists_from n (i + 1) tp off (tps, exs))"

definition in_the_lists :: "u32 \<Rightarrow> int \<Rightarrow> u32 list \<times> u32 list \<Rightarrow> bool \<times> u32 list \<times> u32 list" where
  "in_the_lists = in_the_lists_from DAQ_GDS_MAX_TP_ALLOWED 0"

fun empty_slot_from :: "u32 list \<Rightarrow> nat \<Rightarrow> nat option" where
  "empty_slot_from [] i = None"
| "empty_slot_from (t # ts) i = (if t = 0 then Some i else empty_slot_from ts (i + 1))"

definition empty_slot :: "u32 list \<Rightarrow> nat option" where
  "empty_slot ts = empty_slot_from ts 0"

section \<open>Deselection\<close>

definition slot_index :: "daq_st \<Rightarrow> nat \<Rightarrow> nat option" where
  "slot_index st i =
     (let k = numChans (dataInfo st) + int i
      in if 0 \<le> k \<and> nat k < length (localTable st) \<and> nat k < length (dtp (dataInfo st)) then Some (nat k) else None)"

definition set_dataType :: "nat \<Rightarrow> u32 \<Rightarrow> daq_st \<Rightarrow> daq_st" where
  "set_dataType k t st =
     st\<lparr>dataInfo := (dataInfo st)\<lparr>dtp := (dtp (dataInfo st))[k := (dtp (dataInfo st) ! k)\<lparr>dataType := t\<rparr>]\<rparr>\<rparr>"

definition set_excite :: "int \<Rightarrow> fp \<Rightarrow> daq_st \<Rightarrow> daq_st option" where
  "set_excite fm v st =
     (if 0 \<le> fm \<and> nat fm < length (fmdata (dsp st)) then
        Some (st\<lparr>dsp := (dsp st)\<lparr>fmdata := (fmdata (dsp st))[nat fm := (fmdata (dsp st) ! nat fm)\<lparr>exciteInput := v\<rparr>]\<rparr>\<rparr>)
      else None)"

definition set_excSignal :: "int \<Rightarrow> fp \<Rightarrow> daq_st \<Rightarrow> daq_st option" where
  "set_excSignal fm v st =
     (if 0 \<le> fm \<and> nat fm < length (excSignal st) then Some (st\<lparr>excSignal := (excSignal st)[nat fm := v]\<rparr>) else None)"

text \<open>A slot is given up; the excitation of a slot, if it was one, is switched off.\<close>

definition stop_excitation :: "int \<Rightarrow> nat \<Rightarrow> daq_st \<Rightarrow> daq_st option" where
  "stop_excitation typ i st =
     (let e = excTable st ! i; st0 = st\<lparr>excTable := (excTable st)[i := e\<lparr>sigNum := 0\<rparr>]\<rparr>
      in if typ = DAQ_SRC_FM_EXC then set_excite (fmNum e) f0 st0
         else if typ = DAQ_SRC_NFM_EXC then set_excSignal (fmNum e) f0 st0
         else Some st)"

definition free_slot :: "nat \<Rightarrow> daq_st \<Rightarrow> daq_st option" where
  "free_slot i st =
     (let st = st\<lparr>tpNum := (tpNum st)[i := 0]\<rparr>
      in case slot_index st i of
           None \<Rightarrow> None
         | Some k \<Rightarrow>
             (case stop_excitation (ltype (localTable st ! k)) i st of
                None \<Rightarrow> None
              | Some st \<Rightarrow>
                  Some (set_dataType k DAQ_DATATYPE_FLOAT
                    (st\<lparr>localTable := (localTable st)[k := (localTable st ! k)
                       \<lparr>ltype := 0, sysNum := 0, fmNum := 0, sigNum := 0, decFactor := 1\<rparr>]\<rparr>))))"

fun deselect :: "nat list \<Rightarrow> u32 list \<times> u32 list \<Rightarrow> daq_st \<Rightarrow> ((u32 list \<times> u32 list) \<times> daq_st) option" where
  "deselect [] ls st = Some (ls, st)"
| "deselect (i # is) ls st =
     (if tpNum st ! i = 0 then deselect is ls st
      else
        let (found, ls) = in_the_lists (tpNum st ! i) (loffset (excTable st ! i)) ls
        in if found then deselect is ls st
           else (case free_slot i st of None \<Rightarrow> None | Some st \<Rightarrow> deselect is ls st))"

section \<open>Selection\<close>

definition clear_status :: "nat \<Rightarrow> nat \<Rightarrow> daq_st \<Rightarrow> daq_st" where
  "clear_status j slot st =
     st\<lparr>gdsTp := (gdsTp st)[j := (fst (gdsTp st ! j), (snd (gdsTp st ! j))[slot := 0])]\<rparr>"

definition fill_slot :: "nat \<Rightarrow> nat \<Rightarrow> DAQ_LKUP_TABLE \<Rightarrow> nat \<Rightarrow> u32 \<Rightarrow> daq_st \<Rightarrow> daq_st" where
  "fill_slot slot k e j tpn st =
     (let st = clear_status j slot (set_dataType k DAQ_DATATYPE_FLOAT (st\<lparr>localTable := (localTable st)[k := e]\<rparr>))
      in st\<lparr>tpNum := (tpNum st)[slot := tpn]\<rparr>)"

text \<open>A new test point in a slot; \<open>sysoffs\<close> is 1 for the slower systems.\<close>

definition add_testpoint :: "daq_env \<Rightarrow> nat \<Rightarrow> nat \<Rightarrow> u32 \<Rightarrow> daq_st \<Rightarrow> daq_st option" where
  "add_testpoint env sysoffs slot tpn st =
     (let r = daqRange env
      in if in_range tpn (filtTpMin r) (filtTpMax r) then
           (case slot_index st slot of
              None \<Rightarrow> None
            | Some k \<Rightarrow>
                (case fm_testpoint r tpn (localTable st ! k) of
                   None \<Rightarrow> None
                 | Some e \<Rightarrow> Some (fill_slot slot k (e\<lparr>decFactor := 1\<rparr>) (2 + sysoffs) tpn st)))
         else if in_range tpn (xTpMin r) (xTpMax r) then
           (case slot_index st slot of
              None \<Rightarrow> None
            | Some k \<Rightarrow>
                Some (fill_slot slot k ((localTable st ! k)
                  \<lparr>ltype := DAQ_SRC_NFM_TP, sigNum := from_min tpn (xTpMin r), decFactor := 1\<rparr>) (2 + sysoffs) tpn st))
         else Some st)"

text \<open>A new excitation; \<open>ii\<close> is its place in the list of the manager.\<close>

definition fill_exc_slot :: "nat \<Rightarrow> nat \<Rightarrow> DAQ_LKUP_TABLE \<Rightarrow> nat \<Rightarrow> nat \<Rightarrow> u32 \<Rightarrow> daq_st \<Rightarrow> daq_st" where
  "fill_exc_slot slot k e j ii tpn st =
     (let e = e\<lparr>sigNum := int ii, decFactor := 1\<rparr>;
          x = (excTable st ! slot)\<lparr>sigNum := sint tpn, sysNum := sysNum e, fmNum := fmNum e, loffset := int ii\<rparr>
      in fill_slot slot k e j tpn (st\<lparr>excTable := (excTable st)[slot := x]\<rparr>))"

definition add_excitation :: "daq_env \<Rightarrow> nat \<Rightarrow> nat \<Rightarrow> nat \<Rightarrow> u32 \<Rightarrow> daq_st \<Rightarrow> daq_st option" where
  "add_excitation env sysoffs slot ii tpn st =
     (let r = daqRange env
      in if in_range tpn (filtExMin r) (filtExMax r) then
           (case slot_index st slot of
              None \<Rightarrow> None
            | Some k \<Rightarrow>
                if filtExSize r = 0 then None
                else
                  let jj = from_min tpn (filtExMin r)
                  in Some (fill_exc_slot slot k ((localTable st ! k)\<lparr>ltype := DAQ_SRC_FM_EXC,
                       sysNum := jj sdiv filtExSize r, fmNum := jj smod filtExSize r\<rparr>) sysoffs ii tpn st))
         else if in_range tpn (xExMin r) (xExMax r) then
           (case slot_index st slot of
              None \<Rightarrow> None
            | Some k \<Rightarrow>
                Some (fill_exc_slot slot k ((localTable st ! k)\<lparr>ltype := DAQ_SRC_NFM_EXC, sysNum := 0,
                  fmNum := from_min tpn (xExMin r)\<rparr>) sysoffs ii tpn st))
         else Some st)"

text \<open>The loop over the new numbers, with their places in the lists; it ends when no slot is left.\<close>

fun select_new :: "daq_env \<Rightarrow> nat \<Rightarrow> (bool \<times> nat \<times> u32) list \<Rightarrow> daq_st \<Rightarrow> daq_st option" where
  "select_new env sysoffs [] st = Some st"
| "select_new env sysoffs ((exc, ii, tpn) # more_tps) st =
     (if tpn = 0 then select_new env sysoffs more_tps st
      else (case empty_slot (tpNum st) of
              None \<Rightarrow> Some st
            | Some slot \<Rightarrow>
                (case (if exc then add_excitation env sysoffs slot ii tpn st else add_testpoint env sysoffs slot tpn st) of
                   None \<Rightarrow> None
                 | Some st \<Rightarrow> select_new env sysoffs more_tps st)))"

section \<open>The transmission\<close>

definition num_tps :: "u32 list \<Rightarrow> nat" where
  "num_tps ts = length (dropWhile (\<lambda>t. t = 0) (rev ts))"

text \<open>The offsets of the test points in the block and the numbers that the operator sees.\<close>

fun tp_offsets :: "daq_env \<Rightarrow> nat list \<Rightarrow> daq_st \<Rightarrow> daq_st option" where
  "tp_offsets env [] st = Some st"
| "tp_offsets env (i # is) st =
     (case slot_index st i of
        None \<Rightarrow> None
      | Some k \<Rightarrow>
          let x = xferInfo st
          in tp_offsets env is
               (st\<lparr>localTable := (localTable st)[k := (localTable st ! k)\<lparr>loffset := offsetAccum x\<rparr>],
                  xferInfo := x\<lparr>offsetAccum := offsetAccum x + sysRate env * 4\<rparr>,
                  gdsMonitor := (if i < 32 then (gdsMonitor st)[i := tpNum st ! i] else gdsMonitor st)\<rparr>))"

definition testpoint_totals :: "daq_env \<Rightarrow> daq_st \<Rightarrow> daq_st option" where
  "testpoint_totals env st =
     (let n = num_tps (tpNum st); x = xferInfo st
      in map_option (\<lambda>st. st\<lparr>gdsMonitor := take n (gdsMonitor st) @ replicate (length (gdsMonitor st) - n) 0\<rparr>)
           (tp_offsets env [0..<n]
             (st\<lparr>totalChans := numChans (dataInfo st) + int n, validTp := int n,
                xferInfo := x\<lparr>totalSize := crcLength x + int n * sysRate env * 4, offsetAccum := tpStart st\<rparr>\<rparr>)))"

definition check_testpoints :: "daq_env \<Rightarrow> daq_st \<Rightarrow> daq_st option" where
  "check_testpoints env st =
     (let sysoffs = (if sysRate env < DAQ_16K_SAMPLE_SIZE then 1 else 0);
          exs = take DAQ_GDS_MAX_TP_ALLOWED (fst (gdsTp st ! sysoffs));
          tps = take DAQ_GDS_MAX_TP_ALLOWED (fst (gdsTp st ! (2 + sysoffs)))
      in case deselect [0..<DAQ_GDS_MAX_TP_ALLOWED] (tps, exs) st of
           None \<Rightarrow> None
         | Some ((tps, exs), st) \<Rightarrow>
             (case select_new env sysoffs
                (map (\<lambda>i. (False, i, tps ! i)) [0..<DAQ_GDS_MAX_TP_ALLOWED] @
                 map (\<lambda>i. (True, i, exs ! i)) [0..<DAQ_GDS_MAX_TP_ALLOWED]) st of
                None \<Rightarrow> None
              | Some st \<Rightarrow> testpoint_totals env st))"

end
