(* ===== verification/DaqWrite.thy ===== *)
theory DaqWrite
  imports DaqSelect
begin

text \<open>
  One call of \<open>daqWrite\<close> (\<open>src/include/drv/daqLib.c\<close>): the samples of all channels go into the block that is being
  filled, EPICS values follow in the first cycles of a block, excitations are read for the next cycle, and at the end of
  a block it is announced to the network driver, a new configuration is taken over and the test points are checked.
  Conversions of a \<open>double\<close> out of the range of an integer type give what the processor gives.
\<close>

unbundle bit_operations_syntax

section \<open>Values in memory\<close>

definition float_bits :: "fp \<Rightarrow> u32" where
  "float_bits x =
     (case x of
        NaN \<Rightarrow> 0x7fc00000
      | Inf s \<Rightarrow> (if s then 0x80000000 else 0) OR 0x7f800000
      | Zero s \<Rightarrow> (if s then 0x80000000 else 0)
      | Fin s m e \<Rightarrow>
          let l = bitlen m; ex = e + l + 126
          in word_of_int ((if s then 2 ^ 31 else 0) +
               (if 0 < ex then ex * 2 ^ 23 + (m * 2 ^ nat (24 - l) - 2 ^ 23)
                else m * 2 ^ nat (e + 149))))"

definition float_bytes :: "fp \<Rightarrow> u8 list" where
  "float_bytes x = word_bytes 4 (float_bits x)"

definition double_of_bits :: "u64 \<Rightarrow> fp" where
  "double_of_bits w =
     (let s = bit w 63; ex = uint (drop_bit 52 w AND 0x7ff); f = uint (w AND 0xfffffffffffff)
      in if ex = 0x7ff then (if f = 0 then Inf s else NaN)
         else if ex = 0 then (if f = 0 then Zero s else let (m, e) = norm2 f (-1074) in Fin s m e)
         else let (m, e) = norm2 (2 ^ 52 + f) (ex - 1075) in Fin s m e)"

text \<open>A truncating conversion with 64 bits; the conversions to \<open>unsigned int\<close> and \<open>short\<close> keep its low bits, or those of
  the conversion to \<open>int\<close>.\<close>

fun double_to_long :: "fp \<Rightarrow> int" where
  "double_to_long (Fin s m e) =
     (let v = (if 0 \<le> e then m * 2 ^ nat e else m div 2 ^ nat (- e)); v = (if s then - v else v)
      in if - (2 ^ 63) \<le> v \<and> v < 2 ^ 63 then v else - (2 ^ 63))"
| "double_to_long (Zero s) = 0"
| "double_to_long x = - (2 ^ 63)"

definition double_to_uint :: "fp \<Rightarrow> u32" where
  "double_to_uint x = word_of_int (double_to_long x)"

text \<open>The first word of a filter history, which channels of type \<open>unsigned int\<close> use as their memory.\<close>

definition uint_hist :: "fp list \<Rightarrow> u32" where
  "uint_hist h = ucast (double_bits (h ! 0))"

definition set_uint_hist :: "u32 \<Rightarrow> fp list \<Rightarrow> fp list" where
  "set_uint_hist v h = h[0 := double_of_bits ((double_bits (h ! 0) AND NOT (mask 32)) OR ucast v)]"

definition write_bytes :: "int \<Rightarrow> u8 list \<Rightarrow> daq_st \<Rightarrow> daq_st option" where
  "write_bytes a bs st =
     (if 0 \<le> a \<and> a + int (length bs) \<le> 16 * buf_size
      then Some (st\<lparr>swing := (\<lambda>i. if nat a \<le> i \<and> i < nat a + length bs then bs ! (i - nat a) else swing st i)\<rparr>)
      else None)"

section \<open>Samples\<close>

definition read_source :: "daq_in \<Rightarrow> daq_st \<Rightarrow> DAQ_LKUP_TABLE \<Rightarrow> fp option" where
  "read_source inp st e =
     (let d = fmdata (dsp st); fm = fmNum e; fm_ok = (0 \<le> fm \<and> nat fm < length d)
      in if ltype e = DAQ_SRC_FM_TP then
           (if sigNum e = 0 then (if fm_ok then Some (filterInput (d ! nat fm)) else None)
            else if sigNum e = 1 then (if fm_ok then Some (inputTestpoint (d ! nat fm)) else None)
            else if sigNum e = 2 then (if fm_ok then Some (testpoint (d ! nat fm)) else None)
            else Some f0)
         else if ltype e = DAQ_SRC_NFM_TP then
           (if 0 \<le> sigNum e \<and> nat (sigNum e) < length (tpData inp) then Some (tpData inp ! nat (sigNum e)) else None)
         else if ltype e = DAQ_SRC_FM_EXC then (if fm_ok then Some (exciteInput (d ! nat fm)) else None)
         else if ltype e = DAQ_SRC_NFM_EXC then
           (if 0 \<le> fm \<and> nat fm < length (excSignal st) then Some (excSignal st ! nat fm) else None)
         else Some f0)"

definition decimate :: "int \<Rightarrow> fp \<Rightarrow> fp list \<Rightarrow> (fp \<times> fp list) option" where
  "decimate k x h =
     (case dCoeff k of None \<Rightarrow> Some (x, h) | Some t \<Rightarrow> iir_filter_biquad x (literals t) 3 h)"

text \<open>The bytes of a sample and their place in the region of the channel.\<close>

definition sample_bytes :: "u32 \<Rightarrow> int \<Rightarrow> int \<Rightarrow> fp \<Rightarrow> u32 \<Rightarrow> int \<times> u8 list" where
  "sample_bytes typ slot dcf x hist =
     (let k = slot sdiv dcf
      in if typ = 1 then (2 * (k XOR 1), word_bytes 2 (word_of_int (float_to_int x) :: 16 word))
         else if typ = 5 then (8 * k, double_bytes x)
         else if typ = 7 then (4 * k, word_bytes 4 (if dcf = 1 then double_to_uint x else double_to_uint x AND hist))
         else if typ = 2 then (4 * slot, int_bytes (float_to_int x))
         else (4 * k, float_bytes (to_float x)))"

definition set_history :: "nat \<Rightarrow> fp list \<Rightarrow> daq_st \<Rightarrow> daq_st" where
  "set_history ii h st = st\<lparr>dHistory := (dHistory st)[ii := h]\<rparr>"

definition write_chan :: "daq_in \<Rightarrow> nat \<Rightarrow> daq_st \<Rightarrow> daq_st option" where
  "write_chan inp ii st =
     (if \<not> (ii < length (localTable st) \<and> ii < length (dtp (dataInfo st)) \<and> ii < length (dHistory st)) then None
      else
        let e = localTable st ! ii; typ = dataType (dtp (dataInfo st) ! ii); h = dHistory st ! ii; dcf = decFactor e
        in (case read_source inp st e of
              None \<Rightarrow> None
            | Some x \<Rightarrow>
                (case (if typ \<noteq> 7 then decimate dcf x h else Some (x, h)) of
                   None \<Rightarrow> None
                 | Some (x, h) \<Rightarrow>
                     let st = set_history ii h st
                     in if dcf = 0 then None
                        else if daqSlot st smod dcf = 0 then
                          (let (a, bs) = sample_bytes typ (daqSlot st) dcf x (uint_hist h)
                           in write_bytes (wbase st + loffset e + a) bs st)
                        else if typ = 7 then
                          Some (set_history ii (set_uint_hist (if daqSlot st smod dcf = 1 then double_to_uint x
                            else uint_hist h AND double_to_uint x) h) st)
                        else Some st)))"

fun write_chans :: "daq_in \<Rightarrow> nat list \<Rightarrow> daq_st \<Rightarrow> daq_st option" where
  "write_chans inp [] st = Some st"
| "write_chans inp (ii # is) st = (case write_chan inp ii st of None \<Rightarrow> None | Some st \<Rightarrow> write_chans inp is st)"

section \<open>EPICS values\<close>

definition epics_ints :: "daq_in \<Rightarrow> daq_st \<Rightarrow> daq_st option" where
  "epics_ints inp st =
     (let d = dataInfo st; (n0, n1) = cpyIntSize d
      in if n0 < 0 \<or> n1 < 0 then None
         else (case write_bytes (wbase st) (map (epicsBytes inp) [0..<nat n0]) st of
                 None \<Rightarrow> None
               | Some st \<Rightarrow>
                   if cpyepics2times d \<noteq> 0
                   then write_bytes (wbase st + n0) (map (epicsBytes inp) [nat n0 + 4..<nat n0 + 4 + nat n1]) st
                   else Some st))"

text \<open>Floats from \<open>pEpicsFloat\<close> on.\<close>

fun put_floats :: "fp list \<Rightarrow> daq_st \<Rightarrow> daq_st option" where
  "put_floats [] st = Some st"
| "put_floats (x # xs) st =
     (case pEpicsFloat st of
        None \<Rightarrow> None
      | Some a \<Rightarrow>
          (case write_bytes a (float_bytes (to_float x)) st of
             None \<Rightarrow> None
           | Some st \<Rightarrow> put_floats xs (st\<lparr>pEpicsFloat := Some (a + 4)\<rparr>)))"

definition epics_doubles :: "daq_in \<Rightarrow> daq_st \<Rightarrow> daq_st option" where
  "epics_doubles inp st =
     put_floats (map (\<lambda>i. epicsDbl inp (pEpicsDblData st + 8 * int i)) [0..<nat (numEpicsFloats (dataInfo st))])
       (st\<lparr>pEpicsFloat := Some (wbase st + 4 * numEpicsInts (dataInfo st))\<rparr>)"

definition fm_values :: "FM_OP_IN \<Rightarrow> FM_OP_DATA \<Rightarrow> fp list" where
  "fm_values i d = [offset i, outgain i, limiter i, gain_ramp_time i, of_cint (uint (swReq i)), of_cint (uint (swMask i)),
     filterInput d, exciteInput d, output16Hz d, fmOutput d, of_cint (uint (swStatus d))]"

fun put_modules :: "nat list \<Rightarrow> daq_st \<Rightarrow> daq_st option" where
  "put_modules [] st = Some st"
| "put_modules (i # is) st =
     (if i < length (inputs (dsp st)) \<and> i < length (fmdata (dsp st)) then
        (case put_floats (fm_values (inputs (dsp st) ! i) (fmdata (dsp st) ! i)) st of
           None \<Rightarrow> None
         | Some st \<Rightarrow> put_modules is st)
      else None)"

definition epics_modules :: "daq_st \<Rightarrow> daq_st option" where
  "epics_modules st =
     (let d = dataInfo st; jj = DAQ_XFER_FMD_PER_CYCLE * (daqSlot st - DAQ_XFER_CYCLE_FMD);
          kk = jj + (if daqSlot st = numEpicsFiltXfers d - 1 then numEpicsFiltsLast d else DAQ_XFER_FMD_PER_CYCLE)
      in put_modules [nat jj..<nat kk] st)"

definition epics_values :: "daq_in \<Rightarrow> daq_st \<Rightarrow> daq_st option" where
  "epics_values inp st =
     (if daqSlot st = 0 then epics_ints inp st
      else if daqSlot st = 1 then epics_doubles inp st
      else if daqSlot st \<ge> DAQ_XFER_CYCLE_FMD \<and> daqSlot st < numEpicsFiltXfers (dataInfo st) then epics_modules st
      else Some st)"

section \<open>Excitations\<close>

definition read_exc :: "daq_in \<Rightarrow> nat \<Rightarrow> daq_st \<Rightarrow> daq_st option" where
  "read_exc inp ii st =
     (if \<not> ii < length (localTable st) then None
      else
        let e = localTable st ! ii
        in if ltype e < DAQ_SRC_FM_EXC then Some st
           else
             let a = excBlockNum st * DAQ_DCU_BLOCK_SIZE + sigNum e * excDataSize st;
                 (x, st) = (if excStatus inp a = 0 then (excData inp (a + excSlot st * 4 + 4), st\<lparr>validEx := 0x100\<rparr>)
                            else (f0, st))
             in if ltype e = DAQ_SRC_FM_EXC then set_excite (fmNum e) x st
                else if ltype e = DAQ_SRC_NFM_EXC then set_excSignal (fmNum e) x st
                else Some st)"

fun read_excs :: "daq_in \<Rightarrow> nat list \<Rightarrow> daq_st \<Rightarrow> daq_st option" where
  "read_excs inp [] st = Some st"
| "read_excs inp (ii # is) st = (case read_exc inp ii st of None \<Rightarrow> None | Some st \<Rightarrow> read_excs inp is st)"

definition excitations :: "daq_env \<Rightarrow> daq_in \<Rightarrow> daq_st \<Rightarrow> daq_st option" where
  "excitations env inp st =
     (let st = st\<lparr>excSlot := (excSlot st + 1) smod sysRate env, validEx := 0\<rparr>
      in case read_excs inp [nat (numChans (dataInfo st))..<nat (totalChans st)] st of
           None \<Rightarrow> None
         | Some st \<Rightarrow>
             Some (if excSlot st = sysRate env - 1
                   then st\<lparr>excBlockNum := (excBlockNum st + 1) smod DAQ_NUM_DATA_BLOCKS\<rparr> else st))"

section \<open>The end of a block\<close>

definition announce :: "daq_env \<Rightarrow> daq_in \<Rightarrow> daq_st \<Rightarrow> daq_st" where
  "announce env inp st =
     (let x = xferInfo st; n = daqXmitBlockNum st; i = dipc st
      in st\<lparr>dipc := i\<lparr>idcuId := word_of_int (dcuId env), icrc := fileCrc x, idataBlockSize := word_of_int (totalSizeNet x),
              ibp := (ibp i)[nat n := \<lparr>btimeSec = cycle_gps_time inp, btimeNSec = word_of_int n, bcycle = word_of_int n,
                bcrc = word_of_int (crcLength x)\<rparr>],
              icycle := word_of_int n\<rparr>,
            tpCount := validTpNet st OR validEx st,
            tpShm := take (nat (validTp st)) (tpNumNet st) @ drop (nat (validTp st)) (tpShm st)\<rparr>)"

definition next_block :: "daq_st \<Rightarrow> daq_st" where
  "next_block st =
     (let n = (daqXmitBlockNum st + 1) smod DAQ_NUM_DATA_BLOCKS
      in st\<lparr>daqBlockNum := (daqBlockNum st + 1) smod DAQ_NUM_DATA_BLOCKS, daqXmitBlockNum := n, wbase := buf_size * n\<rparr>)"

text \<open>A new configuration. The status of \<open>loadLocalTable\<close> is not looked at.\<close>

definition reconfigure :: "daq_env \<Rightarrow> daq_st \<Rightarrow> daq_st option" where
  "reconfigure env st =
     (case daqConfig env (st\<lparr>reconfig := 0\<rparr>) of
        None \<Rightarrow> None
      | Some (len, st) \<Rightarrow>
          let st = st\<lparr>xferInfo := (xferInfo st)\<lparr>crcLength := len\<rparr>\<rparr>
          in if len = 0 then Some st
             else (case loadLocalTable env st of
                     None \<Rightarrow> None
                   | Some (status, st) \<Rightarrow>
                       let n = numChans (dataInfo st)
                       in Some (st\<lparr>dHistory := replicate (nat n) (replicate MAX_HISTRY f0) @ drop (nat n) (dHistory st),
                            tpStart := offsetAccum (xferInfo st), totalChans := n\<rparr>)))"

definition net_testpoints :: "daq_st \<Rightarrow> daq_st" where
  "net_testpoints st =
     (let n = nat (validTp st)
      in st\<lparr>tpNumNet := take n (tpNum st) @ drop n (tpNumNet st), validTpNet := validTp st,
            xferInfo := (xferInfo st)\<lparr>totalSizeNet := totalSize (xferInfo st)\<rparr>\<rparr>)"

definition end_of_block :: "daq_env \<Rightarrow> daq_in \<Rightarrow> daq_st \<Rightarrow> daq_st option" where
  "end_of_block env inp st =
     (let st = next_block (announce env inp st)
      in case (if reconfig st = 1 \<and> daqBlockNum st = 0 then reconfigure env st else Some st) of
           None \<Rightarrow> None
         | Some st \<Rightarrow>
             (case (if daqBlockNum st = 15 then check_testpoints env st else Some st) of
                None \<Rightarrow> None
              | Some st \<Rightarrow> Some (if daqBlockNum st = 0 then net_testpoints st else st)))"

section \<open>The call\<close>

definition daq_connect :: "daq_env \<Rightarrow> daq_st \<Rightarrow> (int \<times> daq_st) option" where
  "daq_connect env st =
     (let st = st\<lparr>daqBlockNum := DAQ_NUM_DATA_BLOCKS - 1, daqXmitBlockNum := 0, excBlockNum := 0, daqSlot := -1, excSlot := 0,
            dHistory := map (map (\<lambda>_. f0)) (dHistory st), wbase := buf_size * 15, excDataSize := 4 + 4 * sysRate env,
            reconfig := 0\<rparr>
      in case daqConfig env st of
           None \<Rightarrow> None
         | Some (len, st) \<Rightarrow>
             let st = st\<lparr>xferInfo := (xferInfo st)\<lparr>crcLength := len\<rparr>\<rparr>
             in if len = -1 then Some (-1, st)
                else (case loadLocalTable env st of
                        None \<Rightarrow> None
                      | Some (status, st) \<Rightarrow>
                          if status = -1 then Some (-1, st)
                          else
                            let j = (if sysRate env < DAQ_16K_SAMPLE_SIZE then 1 else 0);
                                clr = (\<lambda>ts. replicate DAQ_GDS_MAX_TP_ALLOWED 0 @ drop DAQ_GDS_MAX_TP_ALLOWED ts);
                                st = st\<lparr>tpStart := offsetAccum (xferInfo st), totalChans := numChans (dataInfo st),
                                  gdsTp := (gdsTp st)[j := apfst clr (gdsTp st ! j), 2 + j := apfst clr (gdsTp st ! (2 + j))],
                                  tpNum := replicate DAQ_GDS_MAX_TP_ALLOWED 0, tpNumNet := replicate DAQ_GDS_MAX_TP_ALLOWED 0,
                                  validTp := 0, validTpNet := 0\<rparr>
                            in Some (totalSize (xferInfo st) * DAQ_NUM_DATA_BLOCKS sdiv 1000, st)))"

definition daq_cycle :: "daq_env \<Rightarrow> daq_in \<Rightarrow> daq_st \<Rightarrow> (int \<times> daq_st) option" where
  "daq_cycle env inp st =
     (if sysRate env = 0 then None
      else
        let st = st\<lparr>daqSlot := (daqSlot st + 1) smod sysRate env\<rparr>
        in (case write_chans inp [0..<nat (totalChans st)] st of
              None \<Rightarrow> None
            | Some st \<Rightarrow>
                (case epics_values inp st of
                   None \<Rightarrow> None
                 | Some st \<Rightarrow>
                     (case excitations env inp st of
                        None \<Rightarrow> None
                      | Some st \<Rightarrow>
                          (case (if daqSlot st = sysRate env - 1 then end_of_block env inp st else Some st) of
                             None \<Rightarrow> None
                           | Some st \<Rightarrow> Some (totalSize (xferInfo st) * DAQ_NUM_DATA_BLOCKS sdiv 1000, st))))))"

definition daqWrite :: "int \<Rightarrow> daq_env \<Rightarrow> daq_in \<Rightarrow> daq_st \<Rightarrow> (int \<times> daq_st) option" where
  "daqWrite flag env inp st =
     (if flag = 0 then daq_connect env st
      else if flag = 1 then daq_cycle env inp st
      else Some (totalSize (xferInfo st) * DAQ_NUM_DATA_BLOCKS sdiv 1000, st))"

end
