(* ===== verification/DaqLayout.thy ===== *)
theory DaqLayout
  imports DaqWrite FilterModule
begin

text \<open>
  What \<open>daqConfig\<close> and \<open>loadLocalTable\<close> make of a sound configuration: the channels lie one behind the other after the EPICS
  values, in regions that fit their samples, and their data comes from the right place.
\<close>

section \<open>Sound configurations\<close>

text \<open>The bytes that a channel takes in a block.\<close>

definition chan_bytes :: "DAQ_INFO_CHAN \<Rightarrow> int" where
  "chan_bytes c = daqSizeByType ! unat (dataType c) * (uint (dataRate c) div 16)"

definition chan_start :: "DAQ_INFO_BLOCK \<Rightarrow> nat \<Rightarrow> int" where
  "chan_start p i = 4 * numEpicsTotal p + (\<Sum>j < i. chan_bytes (dtp p ! j))"

definition tp_known :: "DAQ_RANGE \<Rightarrow> u32 \<Rightarrow> bool" where
  "tp_known r t \<longleftrightarrow> in_range t (filtTpMin r) (filtTpMax r) \<or> in_range t (filtExMin r) (filtExMax r) \<or>
     in_range t (xTpMin r) (xTpMax r) \<or> in_range t (xExMin r) (xExMax r)"

text \<open>A front end of a rate up to 16384 per second with at least one filter module, and a channel of it: a known type, a
  rate that is a power of two from 16 to that of the front end, a number of one of its test points or excitations.\<close>

definition env_ok :: "daq_env \<Rightarrow> bool" where
  "env_ok env \<longleftrightarrow> (\<exists>a \<le> 10. 2 \<le> a \<and> sysRate env = 2 ^ a) \<and> 1 \<le> maxModules env \<and> maxModules env \<le> 1000 \<and>
     0 \<le> cdsInts env \<and> (\<exists>slow. daqRange env = daq_range slow (maxModules env))"

definition chan_ok :: "daq_env \<Rightarrow> DAQ_INFO_CHAN \<Rightarrow> bool" where
  "chan_ok env c \<longleftrightarrow> unat (dataType c) < 8 \<and>
     (\<exists>k. 4 \<le> k \<and> k \<le> 14 \<and> dataRate c = 2 ^ k \<and> 2 ^ k \<le> 16 * sysRate env) \<and> tp_known (daqRange env) (tpnum c)"

definition info_fits :: "daq_env \<Rightarrow> DAQ_INFO_BLOCK \<Rightarrow> bool" where
  "info_fits env p \<longleftrightarrow> 0 \<le> numChans p \<and> numChans p \<le> 448 \<and> length (dtp p) = 512 \<and> 0 \<le> numEpicsInts p \<and>
     0 \<le> numEpicsFloats p \<and> numEpicsFilts p = 11 * maxModules env \<and>
     numEpicsTotal p = numEpicsInts p + numEpicsFloats p + numEpicsFilts p \<and>
     (\<forall>i < nat (numChans p). chan_ok env (dtp p ! i)) \<and> chan_start p (nat (numChans p)) \<le> DAQ_DCU_BLOCK_SIZE"

lemma type_size_bounds: "k < 8 \<Longrightarrow> 0 \<le> daqSizeByType ! k \<and> daqSizeByType ! k \<le> 16"
proof -
  have "\<forall>x \<in> set daqSizeByType. 0 \<le> x \<and> x \<le> 16" "length daqSizeByType = 8" by (simp_all add: daqSizeByType_def)
  then show "k < 8 \<Longrightarrow> ?thesis" by (metis nth_mem)
qed

lemma DAQ_DATA_TYPE_SIZE_known: "unat t < 8 \<Longrightarrow> DAQ_DATA_TYPE_SIZE t = Some (daqSizeByType ! unat t)"
  by (simp add: DAQ_DATA_TYPE_SIZE_def daqSizeByType_def)

lemma chan_bytes_nonneg: "unat (dataType c) < 8 \<Longrightarrow> 0 \<le> chan_bytes c"
  unfolding chan_bytes_def using type_size_bounds by (intro mult_nonneg_nonneg) (simp_all add: pos_imp_zdiv_nonneg_iff)

lemma uint_pow2: "k < 32 \<Longrightarrow> uint (2 ^ k :: u32) = 2 ^ k"
proof -
  assume "k < 32"
  then have "(2 :: int) ^ k < 2 ^ 32" by (intro power_strict_increasing) simp_all
  moreover have "uint (2 ^ k :: u32) = 2 ^ k mod 2 ^ 32" using uint_word_of_int [of "2 ^ k", where 'a = 32] by simp
  ultimately show ?thesis by (simp add: mod_pos_pos_trivial)
qed

lemma chan_bytes_word:
  assumes "unat (dataType c) < 8" "dataRate c = 2 ^ k" "4 \<le> k" "k \<le> 14"
  shows "word_of_int (daqSizeByType ! unat (dataType c)) * dataRate c div 16 = (word_of_int (chan_bytes c) :: u32)"
proof -
  define sz where "sz = daqSizeByType ! unat (dataType c)"
  have sz: "0 \<le> sz" "sz \<le> 16" using type_size_bounds [OF assms(1)] by (simp_all add: sz_def)
  have r: "uint (dataRate c) = 2 ^ k" using assms uint_pow2 [of k] by simp
  have k: "(2::int) ^ k = 16 * 2 ^ (k - 4)" using assms(3) using power_add [of "2 :: int" 4 "k - 4"] by simp
  have "(2::int) ^ k \<le> 2 ^ 14" using assms(4) by (intro power_increasing) simp_all
  then have "sz * 2 ^ k \<le> 16 * 2 ^ 14" "0 \<le> sz * 2 ^ k" using sz mult_mono [of sz 16 "2 ^ k" "2 ^ 14"] by simp_all
  then have "uint (word_of_int sz * dataRate c) = sz * 2 ^ k"
    using sz r by (simp add: uint_word_ariths uint_word_of_int mod_pos_pos_trivial)
  then have "uint (word_of_int sz * dataRate c div 16) = sz * 2 ^ k div 16" by (simp add: uint_div)
  also have "\<dots> = chan_bytes c" by (simp add: chan_bytes_def r sz_def k)
  finally show ?thesis unfolding sz_def by (metis word_of_int_uint)
qed

section \<open>The configuration\<close>

definition same_chan :: "DAQ_INFO_CHAN \<Rightarrow> DAQ_INFO_CHAN \<Rightarrow> bool" where
  "same_chan c d \<longleftrightarrow> tpnum c = tpnum d \<and> dataType c = dataType d \<and> dataRate c = dataRate d"

lemma config_chans_copies:
  assumes "\<forall>j. ii \<le> j \<and> j < ii + n \<longrightarrow> chan_ok env (src ! j)" "ii + n \<le> length src" "ii + n \<le> length tps"
  shows "\<exists>tps'. config_chans src n ii tps (word_of_int len) =
      Some (tps', word_of_int (len + (\<Sum>j = ii..<ii + n. chan_bytes (src ! j)))) \<and>
    length tps' = length tps \<and> (\<forall>j. ii \<le> j \<and> j < ii + n \<longrightarrow> same_chan (tps' ! j) (src ! j)) \<and>
    (\<forall>j < ii. tps' ! j = tps ! j)"
  using assms
proof (induction n arbitrary: ii tps len)
  case (Suc n)
  let ?c = "src ! ii"
  let ?tps = "tps[ii := (tps ! ii)\<lparr>tpnum := tpnum ?c, dataType := dataType ?c, dataRate := dataRate ?c\<rparr>]"
  have ok: "chan_ok env ?c" using Suc.prems(1) by simp
  then obtain k where k: "unat (dataType ?c) < 8" "dataRate ?c = 2 ^ k" "4 \<le> k" "k \<le> 14" by (auto simp: chan_ok_def)
  define S where "S = (\<Sum>j = ii + 1..<ii + 1 + n. chan_bytes (src ! j))"
  have sum: "(\<Sum>j = ii..<ii + Suc n. chan_bytes (src ! j)) = chan_bytes ?c + S"
    unfolding S_def by (simp add: sum.atLeast_Suc_lessThan)
  have "\<forall>j. ii + 1 \<le> j \<and> j < ii + 1 + n \<longrightarrow> chan_ok env (src ! j)" "ii + 1 + n \<le> length src" "ii + 1 + n \<le> length ?tps"
    using Suc.prems by auto
  from Suc.IH [OF this, of "len + chan_bytes ?c"] obtain tps' where
    tps': "config_chans src n (ii + 1) ?tps (word_of_int (len + chan_bytes ?c)) =
      Some (tps', word_of_int (len + chan_bytes ?c + S))"
    "length tps' = length tps" "\<forall>j. ii + 1 \<le> j \<and> j < ii + 1 + n \<longrightarrow> same_chan (tps' ! j) (src ! j)"
    "\<forall>j < ii + 1. tps' ! j = ?tps ! j"
    unfolding S_def by auto
  have "config_chans src (Suc n) ii tps (word_of_int len) =
      Some (tps', word_of_int (len + (\<Sum>j = ii..<ii + Suc n. chan_bytes (src ! j))))"
    unfolding sum
    using Suc.prems(2,3) tps'(1) DAQ_DATA_TYPE_SIZE_known [OF k(1)] chan_bytes_word [OF k]
    by (simp add: add.assoc)
  moreover have "same_chan (tps' ! ii) ?c" using tps'(4) Suc.prems(3) by (simp add: same_chan_def)
  then have "\<forall>j. ii \<le> j \<and> j < ii + Suc n \<longrightarrow> same_chan (tps' ! j) (src ! j)"
    using tps'(3) by (metis Suc_eq_plus1 add_Suc_right add_Suc_shift le_neq_implies_less less_eq_Suc_le)
  ultimately show ?case using tps'(2,4) by simp
qed auto

section \<open>The channel table\<close>

text \<open>An entry of the table names a source inside its array: \<open>m\<close> filter modules, 500 test points, 50 excitations.\<close>

definition source_ok :: "int \<Rightarrow> DAQ_LKUP_TABLE \<Rightarrow> bool" where
  "source_ok m e \<longleftrightarrow> 0 \<le> ltype e \<and> ltype e \<le> 3 \<and> (ltype e = 0 \<or> ltype e = 2 \<longrightarrow> 0 \<le> fmNum e \<and> fmNum e < m) \<and>
     (ltype e = 1 \<longrightarrow> 0 \<le> sigNum e \<and> sigNum e < 500) \<and> (ltype e = 3 \<longrightarrow> 0 \<le> fmNum e \<and> fmNum e < 50)"

text \<open>An entry for the signal of number \<open>t\<close>.\<close>

definition entry_for :: "DAQ_RANGE \<Rightarrow> u32 \<Rightarrow> DAQ_LKUP_TABLE \<Rightarrow> bool" where
  "entry_for r t e \<longleftrightarrow>
     in_range t (filtTpMin r) (filtTpMax r) \<and> ltype e = DAQ_SRC_FM_TP \<and>
       fmNum e = from_min t (filtTpMin r) div 3 \<and> sigNum e = from_min t (filtTpMin r) mod 3 \<or>
     in_range t (filtExMin r) (filtExMax r) \<and> ltype e = DAQ_SRC_FM_EXC \<and> fmNum e = from_min t (filtExMin r) \<or>
     in_range t (xTpMin r) (xTpMax r) \<and> ltype e = DAQ_SRC_NFM_TP \<and> sigNum e = from_min t (xTpMin r) \<or>
     in_range t (xExMin r) (xExMax r) \<and> ltype e = DAQ_SRC_NFM_EXC \<and> fmNum e = from_min t (xExMin r)"

lemma in_range_uint:
  assumes "in_range t lo hi" "0 \<le> lo" "lo \<le> hi" "hi < 2 ^ 31"
  shows "lo \<le> uint t" "uint t < hi" "from_min t lo = uint t - lo"
proof -
  have "uint (word_of_int lo :: u32) = lo" "uint (word_of_int hi :: u32) = hi"
    using assms by (simp_all add: uint_word_of_int mod_pos_pos_trivial)
  then have t: "lo \<le> uint t" "uint t < hi" "uint (t - word_of_int lo) = uint t - lo"
    using assms(1) by (simp_all add: in_range_def word_less_def word_le_def uint_minus_simple_alt [THEN iffD1])
  have "sint (t - word_of_int lo) = signed_take_bit 31 (uint t - lo)" by (simp add: sint_uint t(3))
  also have "\<dots> = uint t - lo" using t assms by (intro signed_take_bit_int_eq_self) simp_all
  finally show "lo \<le> uint t" "uint t < hi" "from_min t lo = uint t - lo" using t by (simp_all add: from_min_def)
qed

lemma from_min_bounds:
  assumes "in_range t lo hi" "0 \<le> lo" "lo \<le> hi" "hi < 2 ^ 31"
  shows "0 \<le> from_min t lo" "from_min t lo < hi - lo"
  using in_range_uint [OF assms] by simp_all

lemma range_bounds:
  assumes "r = daq_range slow m" "1 \<le> m" "m \<le> 1000"
  shows "0 \<le> filtTpMin r \<and> filtTpMin r \<le> filtTpMax r \<and> filtTpMax r < 2 ^ 31 \<and> filtTpMax r - filtTpMin r = 3 * m \<and> filtTpSize r = 3 * m"
    "0 \<le> filtExMin r \<and> filtExMin r \<le> filtExMax r \<and> filtExMax r < 2 ^ 31 \<and> filtExMax r - filtExMin r = m \<and> filtExSize r = m"
    "0 \<le> xTpMin r \<and> xTpMin r \<le> xTpMax r \<and> xTpMax r < 2 ^ 31 \<and> xTpMax r - xTpMin r = 500"
    "0 \<le> xExMin r \<and> xExMin r \<le> xExMax r \<and> xExMax r < 2 ^ 31 \<and> xExMax r - xExMin r = 50"
  using assms by (simp_all add: daq_range_def Let_def)

lemma fm_testpoint_ok:
  assumes "r = daq_range slow m" "1 \<le> m" "m \<le> 1000" "in_range t (filtTpMin r) (filtTpMax r)"
  shows "\<exists>e'. fm_testpoint r t e = Some e' \<and> source_ok m e' \<and> entry_for r t e' \<and> decFactor e' = decFactor e \<and> loffset e' = loffset e"
proof -
  note r = range_bounds(1) [OF assms(1-3)]
  define jj where "jj = from_min t (filtTpMin r)"
  have jj: "0 \<le> jj" "jj < 3 * m" using from_min_bounds [OF assms(4)] r by (simp_all add: jj_def)
  then have "jj sdiv (3 * m) = 0" using assms(2) by (simp add: sdiv_nonneg)
  moreover have "jj sdiv 3 = jj div 3" "jj smod 3 = jj mod 3" "jj div 3 < m" "0 \<le> jj div 3"
    using jj by (simp_all add: sdiv_nonneg smod_nonneg)
  ultimately show ?thesis
    using r assms(2,4) by (simp add: fm_testpoint_def Let_def source_ok_def entry_for_def flip: jj_def)
qed

lemma chan_source_ok:
  assumes "r = daq_range slow m" "1 \<le> m" "m \<le> 1000" "tp_known r t"
  shows "\<exists>e'. chan_source r t e = Next e' \<and> source_ok m e' \<and> entry_for r t e' \<and> decFactor e' = decFactor e \<and> loffset e' = loffset e"
proof -
  note r = range_bounds [OF assms(1-3)]
  consider "in_range t (filtTpMin r) (filtTpMax r)"
    | "\<not> in_range t (filtTpMin r) (filtTpMax r)" "in_range t (filtExMin r) (filtExMax r)"
    | "\<not> in_range t (filtTpMin r) (filtTpMax r)" "\<not> in_range t (filtExMin r) (filtExMax r)" "in_range t (xTpMin r) (xTpMax r)"
    | "\<not> in_range t (filtTpMin r) (filtTpMax r)" "\<not> in_range t (filtExMin r) (filtExMax r)"
      "\<not> in_range t (xTpMin r) (xTpMax r)" "in_range t (xExMin r) (xExMax r)"
    using assms(4) unfolding tp_known_def by blast
  then show ?thesis
  proof cases
    case 1
    then show ?thesis using fm_testpoint_ok [OF assms(1-3) 1, of e] by (auto simp: chan_source_def)
  next
    case 2
    then show ?thesis using from_min_bounds [OF 2(2)] r(2) by (simp add: chan_source_def source_ok_def entry_for_def)
  next
    case 3
    then show ?thesis using from_min_bounds [OF 3(3)] r(3) by (simp add: chan_source_def source_ok_def entry_for_def)
  next
    case 4
    then show ?thesis using from_min_bounds [OF 4(4)] r(4) by (simp add: chan_source_def source_ok_def entry_for_def)
  qed
qed

text \<open>The decimation factor of a channel.\<close>

lemma dec_factor:
  assumes "env_ok env" "chan_ok env c"
  defines "q \<equiv> uint (dataRate c) div 16"
  shows "\<not> dataRate c div 16 > word_of_int (sysRate env)" "dataRate c div 16 \<noteq> 0"
    "sint (word_of_int (sysRate env) div (dataRate c div 16) :: u32) * q = sysRate env"
    "0 < sint (word_of_int (sysRate env) div (dataRate c div 16) :: u32)" "0 < q"
proof -
  obtain a where a: "a \<le> 10" "sysRate env = 2 ^ a" using assms(1) by (auto simp: env_ok_def)
  obtain k where k: "4 \<le> k" "k \<le> 14" "dataRate c = 2 ^ k" "(2::int) ^ k \<le> 16 * 2 ^ a"
    using assms(2) a by (auto simp: chan_ok_def)
  define j where "j = k - 4"
  have kj: "k = 4 + j" using k(1) by (simp add: j_def)
  have r: "uint (dataRate c) = 16 * 2 ^ j" using k(2,3) uint_pow2 [of k] kj by (simp add: power_add)
  then have q: "q = 2 ^ j" "uint (dataRate c div 16) = 2 ^ j" by (simp_all add: q_def uint_div)
  have ja: "j \<le> a" using k(4) kj by (simp add: power_add)
  have sa: "uint (word_of_int (sysRate env) :: u32) = 2 ^ a" using a uint_pow2 [of a] by simp
  have "uint (word_of_int (sysRate env) div (dataRate c div 16) :: u32) = 2 ^ a div 2 ^ j" by (simp add: uint_div sa r)
  also have "\<dots> = 2 ^ (a - j)" using ja by (simp add: power_diff)
  finally have d: "uint (word_of_int (sysRate env) div (dataRate c div 16) :: u32) = 2 ^ (a - j)" .
  define x :: int where "x = 2 ^ (a - j)"
  have "x \<le> 2 ^ 10" unfolding x_def using a(1) by (intro power_increasing) simp_all
  moreover have "0 < x" by (simp add: x_def)
  ultimately have "signed_take_bit 31 x = x" by (intro signed_take_bit_int_eq_self) simp_all
  then have s: "sint (word_of_int (sysRate env) div (dataRate c div 16) :: u32) = 2 ^ (a - j)"
    by (simp add: sint_uint d x_def)
  show "\<not> dataRate c div 16 > word_of_int (sysRate env)" using ja by (simp add: word_less_def sa q power_increasing)
  show "dataRate c div 16 \<noteq> 0" using q(2) by auto
  show "sint (word_of_int (sysRate env) div (dataRate c div 16) :: u32) * q = sysRate env"
    unfolding s q(1) using ja by (simp add: a(2) power_add [symmetric])
  show "0 < sint (word_of_int (sysRate env) div (dataRate c div 16) :: u32)" "0 < q" by (simp_all add: s q)
qed

definition entry_ok :: "daq_env \<Rightarrow> DAQ_INFO_CHAN \<Rightarrow> DAQ_LKUP_TABLE \<Rightarrow> bool" where
  "entry_ok env c e \<longleftrightarrow> source_ok (maxModules env) e \<and> entry_for (daqRange env) (tpnum c) e \<and> 0 < decFactor e \<and>
     decFactor e * (uint (dataRate c) div 16) = sysRate env"

lemma load_chans_step:
  assumes "env_ok env" "chan_ok env (tps ! ii)" "ii < length tps" "ii + 1 < length lt"
  shows "\<exists>e. load_chans env tps (Suc n) ii lt acc =
      load_chans env tps n (ii + 1) (lt[ii + 1 := (lt ! (ii + 1))\<lparr>loffset := acc + chan_bytes (tps ! ii)\<rparr>, ii := e])
        (acc + chan_bytes (tps ! ii)) \<and> entry_ok env (tps ! ii) e \<and> loffset e = loffset (lt ! ii)"
proof -
  let ?c = "tps ! ii"
  note d = dec_factor [OF assms(1,2)]
  define dcf where "dcf = sint (word_of_int (sysRate env) div (dataRate ?c div 16) :: u32)"
  have t: "unat (dataType ?c) < 8" "tp_known (daqRange env) (tpnum ?c)" using assms(2) by (auto simp: chan_ok_def)
  obtain slow where env: "daqRange env = daq_range slow (maxModules env)" "1 \<le> maxModules env" "maxModules env \<le> 1000"
    using assms(1) by (auto simp: env_ok_def)
  obtain e where e: "chan_source (daqRange env) (tpnum ?c) ((lt ! ii)\<lparr>decFactor := dcf\<rparr>) = Next e"
    "source_ok (maxModules env) e" "entry_for (daqRange env) (tpnum ?c) e" "decFactor e = dcf" "loffset e = loffset (lt ! ii)"
    using chan_source_ok [OF env t(2), of "(lt ! ii)\<lparr>decFactor := dcf\<rparr>"] by auto
  have "sysRate env sdiv dcf = uint (dataRate ?c) div 16"
  proof -
    have q: "dcf * (uint (dataRate ?c) div 16) = sysRate env" "0 < dcf" using d(3,4) by (simp_all add: dcf_def)
    have "0 \<le> sysRate env" using assms(1) by (auto simp: env_ok_def)
    then have "sysRate env sdiv dcf = sysRate env div dcf" using q(2) by (simp add: sdiv_nonneg)
    also have "\<dots> = dcf * (uint (dataRate ?c) div 16) div dcf" by (simp only: q(1))
    also have "\<dots> = uint (dataRate ?c) div 16" using q(2) by simp
    finally show ?thesis .
  qed
  then have sz: "sysRate env sdiv dcf * daqSizeByType ! unat (dataType ?c) = chan_bytes ?c"
    by (simp add: chan_bytes_def mult.commute)
  have "load_chans env tps (Suc n) ii lt acc =
      load_chans env tps n (ii + 1) (lt[ii + 1 := (lt ! (ii + 1))\<lparr>loffset := acc + chan_bytes ?c\<rparr>, ii := e]) (acc + chan_bytes ?c)"
    using assms(3,4) d(1,2) e(1) DAQ_DATA_TYPE_SIZE_known [OF t(1)] sz
    by (simp add: Let_def list_update_swap flip: dcf_def)
  moreover have "entry_ok env ?c e" using e(2-4) d(3,4) by (simp add: entry_ok_def dcf_def)
  ultimately show ?thesis using e(5) by blast
qed

lemma load_chans_lays_out:
  assumes "env_ok env" "\<forall>j. ii \<le> j \<and> j < ii + n \<longrightarrow> chan_ok env (tps ! j)" "ii + n \<le> length tps" "ii + n < length lt"
    and "loffset (lt ! ii) = acc"
  shows "\<exists>lt'. load_chans env tps n ii lt acc = Some (0, lt', acc + (\<Sum>j = ii..<ii + n. chan_bytes (tps ! j))) \<and>
    length lt' = length lt \<and> (\<forall>j < ii. lt' ! j = lt ! j) \<and>
    (\<forall>j. ii \<le> j \<and> j < ii + n \<longrightarrow> entry_ok env (tps ! j) (lt' ! j) \<and>
       loffset (lt' ! j) = acc + (\<Sum>i = ii..<j. chan_bytes (tps ! i)))"
  using assms(2-)
proof (induction n arbitrary: ii lt acc)
  case (Suc n)
  let ?b = "chan_bytes (tps ! ii)"
  have c: "chan_ok env (tps ! ii)" "ii < length tps" "ii + 1 < length lt" using Suc.prems by simp_all
  obtain e where e: "load_chans env tps (Suc n) ii lt acc =
      load_chans env tps n (ii + 1) (lt[ii + 1 := (lt ! (ii + 1))\<lparr>loffset := acc + ?b\<rparr>, ii := e]) (acc + ?b)"
    "entry_ok env (tps ! ii) e" "loffset e = loffset (lt ! ii)"
    using load_chans_step [OF assms(1) c] by blast
  define lt1 where "lt1 = lt[ii + 1 := (lt ! (ii + 1))\<lparr>loffset := acc + ?b\<rparr>, ii := e]"
  have "\<forall>j. ii + 1 \<le> j \<and> j < ii + 1 + n \<longrightarrow> chan_ok env (tps ! j)" "ii + 1 + n \<le> length tps" "ii + 1 + n < length lt1"
    "loffset (lt1 ! (ii + 1)) = acc + ?b"
    using Suc.prems c(3) by (auto simp: lt1_def)
  from Suc.IH [OF this] obtain lt' where lt':
    "load_chans env tps n (ii + 1) lt1 (acc + ?b) = Some (0, lt', acc + ?b + (\<Sum>j = ii + 1..<ii + 1 + n. chan_bytes (tps ! j)))"
    "length lt' = length lt" "\<forall>j < ii + 1. lt' ! j = lt1 ! j"
    "\<forall>j. ii + 1 \<le> j \<and> j < ii + 1 + n \<longrightarrow> entry_ok env (tps ! j) (lt' ! j) \<and>
       loffset (lt' ! j) = acc + ?b + (\<Sum>i = ii + 1..<j. chan_bytes (tps ! i))"
    by (auto simp: lt1_def)
  have sum: "(\<Sum>i = ii..<j. chan_bytes (tps ! i)) = ?b + (\<Sum>i = ii + 1..<j. chan_bytes (tps ! i))" if "ii < j" for j
    using that by (simp add: sum.atLeast_Suc_lessThan)
  have here: "lt' ! ii = e" "\<forall>j < ii. lt' ! j = lt ! j" using lt'(3) c(3) by (simp_all add: lt1_def)
  have "entry_ok env (tps ! j) (lt' ! j) \<and> loffset (lt' ! j) = acc + (\<Sum>i = ii..<j. chan_bytes (tps ! i))"
    if "ii \<le> j" "j < ii + Suc n" for j
  proof (cases "j = ii")
    case True
    then show ?thesis using here(1) e(2,3) Suc.prems(4) by simp
  next
    case False
    then show ?thesis using that lt'(4) sum [of j] by simp
  qed
  moreover have "load_chans env tps (Suc n) ii lt acc = Some (0, lt', acc + (\<Sum>j = ii..<ii + Suc n. chan_bytes (tps ! j)))"
    unfolding e(1) lt1_def [symmetric] lt'(1) using sum [of "ii + Suc n"] by simp
  ultimately show ?case using lt'(2) here(2) by blast
qed auto

lemma epics_layout_frame:
  "numChans (epics_layout env d) = numChans d" "numEpicsInts (epics_layout env d) = numEpicsInts d"
  "numEpicsFloats (epics_layout env d) = numEpicsFloats d" "numEpicsTotal (epics_layout env d) = numEpicsTotal d"
  "dtp (epics_layout env d) = dtp d" "numEpicsFiltXfers (epics_layout env d) = numEpicsFiltXfers d"
  "numEpicsFiltsLast (epics_layout env d) = numEpicsFiltsLast d"
  by (simp_all add: epics_layout_def Let_def)

lemma epics_layout_sizes:
  assumes "0 \<le> numEpicsInts d" "0 \<le> cdsInts env" "cpyIntSize (epics_layout env d) = (n0, n1)"
  shows "0 \<le> n0" "0 \<le> n1" "n0 + n1 = 4 * numEpicsInts d"
    "cpyepics2times (epics_layout env d) = 0 \<Longrightarrow> n1 = 0"
  using assms by (auto simp: epics_layout_def Let_def split: if_splits)

text \<open>Both routines together, as they run at the start and at a new configuration: the local copy, the channels one behind
  the other, the size of a block.\<close>

definition filt_xfers :: "int \<Rightarrow> int \<times> int" where
  "filt_xfers m = (if m mod 100 = 0 then (m div 100 + 2, 100) else (m div 100 + 3, m mod 100))"

definition info_copied :: "daq_env \<Rightarrow> DAQ_INFO_BLOCK \<Rightarrow> DAQ_INFO_LOCAL \<Rightarrow> bool" where
  "info_copied env p d \<longleftrightarrow> numChans d = numChans p \<and> numEpicsInts d = numEpicsInts p \<and> numEpicsFloats d = numEpicsFloats p \<and>
     numEpicsTotal d = numEpicsTotal p \<and> length (dtp d) = 512 \<and>
     (\<forall>j < nat (numChans p). same_chan (dtp d ! j) (dtp p ! j)) \<and>
     (numEpicsFiltXfers d, numEpicsFiltsLast d) = filt_xfers (maxModules env) \<and>
     (case cpyIntSize d of (n0, n1) \<Rightarrow> 0 \<le> n0 \<and> 0 \<le> n1 \<and> n0 + n1 = 4 * numEpicsInts p)"

definition laid_out :: "daq_env \<Rightarrow> DAQ_INFO_BLOCK \<Rightarrow> DAQ_LKUP_TABLE list \<Rightarrow> bool" where
  "laid_out env p lt \<longleftrightarrow> length lt = 512 \<and>
     (\<forall>j < nat (numChans p). entry_ok env (dtp p ! j) (lt ! j) \<and> loffset (lt ! j) = chan_start p j)"

lemma chan_start_bounds:
  assumes "info_fits env p" "i \<le> nat (numChans p)"
  shows "4 * numEpicsTotal p \<le> chan_start p i" "chan_start p i \<le> chan_start p (nat (numChans p))"
proof -
  have nn: "0 \<le> chan_bytes (dtp p ! j)" if "j < nat (numChans p)" for j
    using assms(1) that chan_bytes_nonneg by (auto simp: info_fits_def chan_ok_def)
  show "4 * numEpicsTotal p \<le> chan_start p i" using nn assms(2) by (auto simp: chan_start_def intro!: sum_nonneg)
  show "chan_start p i \<le> chan_start p (nat (numChans p))"
    using nn assms(2) by (auto simp: chan_start_def intro!: sum_mono2)
qed

lemma daqConfig_copies:
  assumes "env_ok env" "info_fits env (pInfo st)" "length (dtp (dataInfo st)) = 512"
  shows "\<exists>d off len. daqConfig env st = Some (chan_start (pInfo st) (nat (numChans (pInfo st))),
      st\<lparr>dataInfo := d, pEpicsDblData := off, curDaqBlockSize := len\<rparr>) \<and> info_copied env (pInfo st) d"
proof -
  define p where "p = pInfo st"
  define n where "n = nat (numChans p)"
  define d0 where "d0 = (dataInfo st)\<lparr>numChans := numChans p, numEpicsInts := numEpicsInts p, numEpicsFloats := numEpicsFloats p,
    numEpicsFilts := numEpicsFilts p, numEpicsTotal := numEpicsTotal p,
    numEpicsFiltXfers := maxModules env sdiv 100 + (if maxModules env smod 100 \<noteq> 0 then 1 else 0) + 2,
    numEpicsFiltsLast := (if maxModules env smod 100 \<noteq> 0 then maxModules env smod 100 else 100)\<rparr>"
  define d where "d = epics_layout env d0"
  have p: "0 \<le> numChans p" "numChans p \<le> 448" "length (dtp p) = 512" "0 \<le> numEpicsInts p"
    "\<forall>j. 0 \<le> j \<and> j < 0 + n \<longrightarrow> chan_ok env (dtp p ! j)" "chan_start p n \<le> 0x40000" "0 \<le> numEpicsTotal p"
    using assms(1,2) by (auto simp: info_fits_def p_def n_def env_ok_def)
  have l: "length (dtp d) = 512" "n \<le> 448" using assms(3) p(2) by (simp_all add: d_def epics_layout_frame d0_def n_def)
  obtain tps where tps: "config_chans (dtp p) n 0 (dtp d) (word_of_int (4 * numEpicsTotal p)) =
      Some (tps, word_of_int (chan_start p n))" "length tps = 512" "\<forall>j < n. same_chan (tps ! j) (dtp p ! j)"
    using config_chans_copies [OF p(5), of "dtp d" "4 * numEpicsTotal p"] p(3) l
    by (auto simp: chan_start_def atLeast0LessThan)
  define X where "X = chan_start p n"
  have "0 \<le> X" using chan_start_bounds(1) [of env p n] assms(2) p(7) by (simp add: p_def n_def X_def)
  then have "sint (word_of_int X :: u32) = X"
    using p(6) unfolding X_def [symmetric]
    by (simp add: sint_uint uint_word_of_int mod_pos_pos_trivial signed_take_bit_int_eq_self)
  then have "daqConfig env st = Some (X, st\<lparr>dataInfo := d\<lparr>dtp := tps\<rparr>,
      pEpicsDblData := numEpicsInts d * 4 + epicsdblDataOffset d, curDaqBlockSize := word_of_int X * 16\<rparr>)"
    using p(2) tps(1) unfolding daqConfig_def Let_def p_def [symmetric] d0_def [symmetric] d_def [symmetric] n_def [symmetric]
    by (simp add: X_def d_def epics_layout_frame(4) d0_def)
  moreover have "info_copied env p (d\<lparr>dtp := tps\<rparr>)"
  proof -
    obtain n0 n1 where nn: "cpyIntSize d = (n0, n1)" by (cases "cpyIntSize d")
    have "0 \<le> numEpicsInts d0" "0 \<le> cdsInts env" "0 \<le> maxModules env"
      using p(4) assms(1) by (simp_all add: d0_def env_ok_def)
    then show ?thesis
      using epics_layout_sizes [of d0 env n0 n1] nn tps(2,3)
      by (auto simp: info_copied_def filt_xfers_def n_def d_def epics_layout_frame d0_def sdiv_nonneg smod_nonneg)
  qed
  ultimately show ?thesis unfolding X_def n_def p_def by blast
qed

lemma same_chan_facts:
  assumes "same_chan c c'"
  shows "chan_ok env c = chan_ok env c'" "chan_bytes c = chan_bytes c'" "entry_ok env c e = entry_ok env c' e"
  using assms by (simp_all add: same_chan_def chan_ok_def chan_bytes_def entry_ok_def)

lemma loadLocalTable_lays_out:
  assumes "env_ok env" "info_fits env p" "info_copied env p (dataInfo st)" "length (localTable st) = 512"
    and "crcLength (xferInfo st) = chan_start p (nat (numChans p))"
  shows "\<exists>lt. loadLocalTable env st = Some (0, st\<lparr>localTable := lt, xferInfo := (xferInfo st)
      \<lparr>fileCrc := configFileCRC (pInfo st), xferSize1 := crcLength (xferInfo st) sdiv sysRate env,
       totalSize := chan_start p (nat (numChans p)), totalSizeNet := chan_start p (nat (numChans p)),
       offsetAccum := chan_start p (nat (numChans p))\<rparr>\<rparr>) \<and> laid_out env p lt"
proof -
  define n where "n = nat (numChans p)"
  define tps where "tps = dtp (dataInfo st)"
  define acc where "acc = 4 * numEpicsTotal p"
  define lt0 where "lt0 = (localTable st)[0 := (localTable st ! 0)\<lparr>loffset := acc\<rparr>]"
  have d: "numChans (dataInfo st) = numChans p" "numEpicsTotal (dataInfo st) = numEpicsTotal p" "length tps = 512"
    "\<forall>j < n. same_chan (tps ! j) (dtp p ! j)"
    using assms(3) by (auto simp: info_copied_def n_def tps_def)
  have n: "n \<le> 448" "\<forall>j < n. chan_ok env (dtp p ! j)" using assms(2) by (auto simp: info_fits_def n_def)
  have ok: "\<forall>j. 0 \<le> j \<and> j < 0 + n \<longrightarrow> chan_ok env (tps ! j)" using n(2) d(4) same_chan_facts(1) by auto
  have sums: "(\<Sum>i = 0..<j. chan_bytes (tps ! i)) = (\<Sum>i < j. chan_bytes (dtp p ! i))" if "j \<le> n" for j
    using that d(4) same_chan_facts(2) by (auto simp: atLeast0LessThan intro!: sum.cong)
  have lt0: "length lt0 = 512" "loffset (lt0 ! 0) = acc" using assms(4) by (simp_all add: lt0_def)
  obtain lt where lt: "load_chans env tps n 0 lt0 acc = Some (0, lt, chan_start p n)" "length lt = 512"
    "\<forall>j < n. entry_ok env (tps ! j) (lt ! j) \<and> loffset (lt ! j) = acc + (\<Sum>i = 0..<j. chan_bytes (tps ! i))"
    using load_chans_lays_out [OF assms(1) ok _ _ lt0(2)] n(1) d(3) lt0(1) sums [of n]
    by (auto simp: chan_start_def acc_def)
  have "laid_out env p lt"
    using lt(2,3) sums same_chan_facts(3) [OF d(4) [rule_format]]
    by (auto simp: laid_out_def chan_start_def acc_def simp flip: n_def)
  moreover have "sysRate env \<noteq> 0" "localTable st \<noteq> []" using assms(1,4) by (auto simp: env_ok_def)
  ultimately show ?thesis
    using lt(1) unfolding loadLocalTable_def Let_def d(1,2) tps_def [symmetric] n_def [symmetric] acc_def [symmetric] lt0_def [symmetric]
    by (auto simp: assms(5) n_def)
qed

section \<open>The start\<close>

text \<open>The arrays of the state have the lengths of the source.\<close>

definition arrays_ok :: "daq_env \<Rightarrow> daq_st \<Rightarrow> bool" where
  "arrays_ok env st \<longleftrightarrow> length (localTable st) = 512 \<and> length (excTable st) = 512 \<and> length (dtp (dataInfo st)) = 512 \<and>
     length (dHistory st) = 512 \<and> (\<forall>h \<in> set (dHistory st). length h = MAX_HISTRY) \<and> length (tpNum st) = 64 \<and>
     length (tpNumNet st) = 64 \<and> length (tpShm st) = 256 \<and> length (ibp (dipc st)) = 16 \<and> length (gdsMonitor st) = 32 \<and>
     length (gdsTp st) = 4 \<and> (\<forall>k < 4. length (fst (gdsTp st ! k)) = 256 \<and> length (snd (gdsTp st ! k)) = 256) \<and>
     length (inputs (dsp st)) = nat (maxModules env) \<and> length (fmdata (dsp st)) = nat (maxModules env) \<and> length (excSignal st) = 50"

definition daq_connected :: "daq_env \<Rightarrow> daq_st \<Rightarrow> bool" where
  "daq_connected env st \<longleftrightarrow> daqSlot st = -1 \<and> daqBlockNum st = 15 \<and> daqXmitBlockNum st = 0 \<and> wbase st = 15 * buf_size \<and>
     reconfig st = 0 \<and> excBlockNum st = 0 \<and> excSlot st = 0 \<and> excDataSize st = 4 + 4 * sysRate env \<and>
     info_copied env (pInfo st) (dataInfo st) \<and> laid_out env (pInfo st) (localTable st) \<and>
     totalChans st = numChans (pInfo st) \<and> validTp st = 0 \<and> validTpNet st = 0 \<and> tpNum st = replicate 64 0 \<and>
     crcLength (xferInfo st) = chan_start (pInfo st) (nat (numChans (pInfo st))) \<and>
     tpStart st = crcLength (xferInfo st) \<and> totalSize (xferInfo st) = crcLength (xferInfo st)"

lemma connect_arrays:
  assumes "env_ok env" "arrays_ok env st" "info_fits env (pInfo st)"
  shows "\<exists>st'. daqWrite 0 env inp st = Some (chan_start (pInfo st) (nat (numChans (pInfo st))) * 16 sdiv 1000, st') \<and>
    daq_connected env st' \<and> arrays_ok env st' \<and> pInfo st' = pInfo st \<and> dsp st' = dsp st"
proof -
  define p where "p = pInfo st"
  define X where "X = chan_start p (nat (numChans p))"
  define s0 where "s0 = st\<lparr>daqBlockNum := 16 - 1, daqXmitBlockNum := 0, excBlockNum := 0, daqSlot := -1, excSlot := 0,
     dHistory := map (map (\<lambda>_. f0)) (dHistory st), wbase := buf_size * 15, excDataSize := 4 + 4 * sysRate env, reconfig := 0\<rparr>"
  obtain d off len where c: "daqConfig env s0 = Some (X, s0\<lparr>dataInfo := d, pEpicsDblData := off, curDaqBlockSize := len\<rparr>)"
    "info_copied env p d"
    using daqConfig_copies [OF assms(1), of s0] assms(2,3) by (auto simp: s0_def p_def X_def arrays_ok_def)
  define s1 where "s1 = s0\<lparr>dataInfo := d, pEpicsDblData := off, curDaqBlockSize := len, xferInfo := (xferInfo s0)\<lparr>crcLength := X\<rparr>\<rparr>"
  obtain lt x where l: "loadLocalTable env s1 = Some (0, s1\<lparr>localTable := lt, xferInfo := x\<rparr>)" "laid_out env p lt"
    "crcLength x = X" "totalSize x = X" "offsetAccum x = X"
    using loadLocalTable_lays_out [of env p s1] assms c(2) by (auto simp: s1_def s0_def p_def X_def arrays_ok_def)
  have X: "0 \<le> X" "X \<noteq> -1"
    using chan_start_bounds(1) [OF assms(3), of "nat (numChans p)"] assms(1,3)
    by (auto simp: p_def X_def info_fits_def env_ok_def)
  define j :: nat where "j = (if sysRate env < 1024 then 1 else 0)"
  define clr where "clr = (\<lambda>ts :: u32 list. replicate 64 0 @ drop 64 ts)"
  define s2 where "s2 = s1\<lparr>localTable := lt, xferInfo := x, tpStart := X, totalChans := numChans d,
     gdsTp := (gdsTp s1)[j := apfst clr (gdsTp s1 ! j), 2 + j := apfst clr (gdsTp s1 ! (2 + j))],
     tpNum := replicate 64 0, tpNumNet := replicate 64 0, validTp := 0, validTpNet := 0\<rparr>"
  have "daqWrite 0 env inp st = Some (X * 16 sdiv 1000, s2)"
    unfolding daqWrite_def daq_connect_def Let_def s0_def [symmetric] c(1)
    using X(2) l by (simp add: Let_def s2_def j_def clr_def s1_def)
  moreover have "daq_connected env s2"
    using c(2) l X by (simp add: daq_connected_def s2_def s1_def s0_def p_def X_def info_copied_def)
  moreover have "arrays_ok env s2"
    using assms(2) c(2) l(2)
    by (auto simp: arrays_ok_def s2_def s1_def s0_def info_copied_def laid_out_def clr_def j_def nth_list_update)
  ultimately show ?thesis by (auto simp: X_def p_def s2_def s1_def s0_def)
qed

end
