(* ===== verification/DaqCycle.thy ===== *)
theory DaqCycle
  imports DaqLayout
begin

text \<open>
  The samples, EPICS values and excitations of a cycle: each part of \<open>daqWrite\<close> returns, and what it changes of the
  shared memory lies in the region that belongs to it.
\<close>

unbundle bit_operations_syntax

section \<open>Writes\<close>

text \<open>\<open>w'\<close> differs from \<open>w\<close> only between two addresses.\<close>

definition only_in :: "int \<Rightarrow> int \<Rightarrow> (nat \<Rightarrow> u8) \<Rightarrow> (nat \<Rightarrow> u8) \<Rightarrow> bool" where
  "only_in lo hi w w' \<longleftrightarrow> (\<forall>a. int a < lo \<or> hi \<le> int a \<longrightarrow> w' a = w a)"

lemma only_in_refl [simp]: "only_in lo hi w w"
  by (simp add: only_in_def)

lemma only_in_mono: "only_in lo hi w w' \<Longrightarrow> lo' \<le> lo \<Longrightarrow> hi \<le> hi' \<Longrightarrow> only_in lo' hi' w w'"
  by (auto simp: only_in_def)

lemma only_in_trans: "only_in lo hi w w' \<Longrightarrow> only_in lo hi w' w'' \<Longrightarrow> only_in lo hi w w''"
  by (auto simp: only_in_def)

lemma write_bytes_ok:
  assumes "0 \<le> a" "a + int (length bs) \<le> 16 * buf_size"
  shows "\<exists>w. write_bytes a bs st = Some (st\<lparr>swing := w\<rparr>) \<and> only_in a (a + int (length bs)) (swing st) w \<and>
    (\<forall>i < length bs. w (nat a + i) = bs ! i)"
proof -
  define w where "w = (\<lambda>i. if nat a \<le> i \<and> i < nat a + length bs then bs ! (i - nat a) else swing st i)"
  have "write_bytes a bs st = Some (st\<lparr>swing := w\<rparr>)" using assms by (simp add: write_bytes_def w_def)
  moreover have "only_in a (a + int (length bs)) (swing st) w" "\<forall>i < length bs. w (nat a + i) = bs ! i"
    using assms(1) by (auto simp: only_in_def w_def)
  ultimately show ?thesis by blast
qed

section \<open>Samples\<close>

text \<open>How far the samples of a block reach, \<open>n\<close> of them: the pairs of 16-bit samples are swapped, and samples of
  type \<open>int\<close> are spread over the block as if they were not decimated.\<close>

definition chan_span :: "u32 \<Rightarrow> int \<Rightarrow> int \<Rightarrow> int" where
  "chan_span ty n sr = (if ty = 1 then 2 * max 2 n else if ty = 5 then 8 * n else if ty = 2 then 4 * sr else 4 * n)"

lemma length_bytes [simp]:
  "length (word_bytes n w) = n" "length (int_bytes i) = 4" "length (double_bytes x) = 8" "length (float_bytes x) = 4"
  by (simp_all add: word_bytes_def int_bytes_def double_bytes_def float_bytes_def)

lemma sample_bytes_span:
  assumes "0 \<le> slot" "slot < sr" "0 < dcf" "dcf * n = sr" "n = 1 \<or> even n" "sample_bytes ty slot dcf x h = (a, bs)"
  shows "0 \<le> a \<and> a + int (length bs) \<le> chan_span ty n sr"
proof -
  define k where "k = slot sdiv dcf"
  have k: "k = slot div dcf" using assms(1,3) by (simp add: k_def sdiv_nonneg)
  have k0: "0 \<le> k" using assms(1,3) by (simp add: k pos_imp_zdiv_nonneg_iff)
  have "dcf * k \<le> slot" using pos_mod_sign [OF assms(3), of slot] mult_div_mod_eq [of dcf slot] unfolding k by linarith
  then have "dcf * k < dcf * n" using assms(2,4) by simp
  then have kn: "k < n" using assms(3) by simp
  have x: "0 \<le> k XOR 1" "k XOR 1 < max 2 n"
    using k0 kn assms(5) by (auto simp: xor_one_eq elim!: evenE oddE)
  have "n \<le> sr" using kn k0 assms(3,4) by (simp add: mult_le_cancel_right1 flip: assms(4))
  then show ?thesis
    using assms(1,2,6) k0 kn x by (auto simp: sample_bytes_def Let_def chan_span_def simp flip: k_def split: if_splits)
qed

text \<open>A channel that can be written: its source is there, the factor divides the rate, the samples fit into the block.\<close>

definition chan_safe :: "daq_env \<Rightarrow> daq_st \<Rightarrow> nat \<Rightarrow> bool" where
  "chan_safe env st ii \<longleftrightarrow> ii < 512 \<and>
     (let e = localTable st ! ii
      in source_ok (maxModules env) e \<and> 0 < decFactor e \<and> 0 \<le> loffset e \<and>
         (\<exists>n. decFactor e * n = sysRate env \<and> (n = 1 \<or> even n) \<and>
            loffset e + chan_span (dataType (dtp (dataInfo st) ! ii)) n (sysRate env) \<le> buf_size))"

definition chan_region :: "daq_env \<Rightarrow> daq_st \<Rightarrow> nat \<Rightarrow> int \<times> int" where
  "chan_region env st ii =
     (let e = localTable st ! ii; lo = wbase st + loffset e
      in (lo, lo + chan_span (dataType (dtp (dataInfo st) ! ii)) (sysRate env div decFactor e) (sysRate env)))"

lemma read_source_ok:
  assumes "arrays_ok env st" "source_ok (maxModules env) e" "500 \<le> length (tpData inp)"
  shows "\<exists>x. read_source inp st e = Some x"
proof -
  have "0 \<le> fmNum e \<and> nat (fmNum e) < length (fmdata (dsp st))" if "ltype e = 0 \<or> ltype e = 2"
    using that assms(1,2) by (auto simp: source_ok_def arrays_ok_def)
  moreover have "0 \<le> fmNum e \<and> nat (fmNum e) < length (excSignal st)" if "ltype e = 3"
    using that assms(1,2) by (auto simp: source_ok_def arrays_ok_def)
  moreover have "0 \<le> sigNum e \<and> nat (sigNum e) < length (tpData inp)" if "ltype e = 1"
    using that assms(2,3) by (auto simp: source_ok_def)
  ultimately show ?thesis by (auto simp: read_source_def Let_def)
qed

lemma dCoeff_length: "dCoeff k = Some t \<Longrightarrow> length t = 13"
  by (auto simp: dCoeff_def dCoeff2x_def dCoeff4x_def dCoeff8x_def dCoeff16x_def dCoeff32x_def dCoeff64x_def
      dCoeff128x_def dCoeff256x_def split: if_splits)

lemma decimate_ok:
  assumes "length h = MAX_HISTRY"
  shows "\<exists>y h'. decimate k x h = Some (y, h') \<and> length h' = MAX_HISTRY"
proof (cases "dCoeff k")
  case (Some t)
  have "length (literals t) = 13" using dCoeff_length [OF Some] by (simp add: literals_def)
  then show ?thesis
    using Some assms biquad_sections_total [of 1 3 "literals t" 0 h doubles]
    by (auto simp: decimate_def iir_filter_biquad_def iir_filter_biquad_on_def)
qed (use assms in \<open>simp add: decimate_def\<close>)

definition hist_ok :: "fp list list \<Rightarrow> bool" where
  "hist_ok hs \<longleftrightarrow> length hs = 512 \<and> (\<forall>h \<in> set hs. length h = MAX_HISTRY)"

lemma hist_ok_update: "hist_ok hs \<Longrightarrow> length h = MAX_HISTRY \<Longrightarrow> hist_ok (hs[i := h])"
  by (auto simp: hist_ok_def dest!: set_update_subset_insert [THEN subsetD])

lemma write_chan_ok:
  assumes "arrays_ok env st" "chan_safe env st ii" "500 \<le> length (tpData inp)" "0 \<le> daqSlot st" "daqSlot st < sysRate env"
    and "0 \<le> wbase st" "wbase st \<le> 15 * buf_size"
  shows "\<exists>h w. write_chan inp ii st = Some (st\<lparr>dHistory := h, swing := w\<rparr>) \<and> hist_ok h \<and>
    (case chan_region env st ii of (lo, hi) \<Rightarrow> only_in lo hi (swing st) w)"
proof -
  define e where "e = localTable st ! ii"
  define ty where "ty = dataType (dtp (dataInfo st) ! ii)"
  obtain n where e: "ii < 512" "source_ok (maxModules env) e" "0 < decFactor e" "0 \<le> loffset e" "decFactor e * n = sysRate env"
      "n = 1 \<or> even n" "loffset e + chan_span ty n (sysRate env) \<le> buf_size"
    using assms(2) by (auto simp: chan_safe_def Let_def e_def ty_def)
  have len: "ii < length (localTable st)" "ii < length (dtp (dataInfo st))" "ii < length (dHistory st)" "hist_ok (dHistory st)"
    "length (dHistory st ! ii) = MAX_HISTRY"
    using assms(1) e(1) by (auto simp: arrays_ok_def hist_ok_def)
  obtain x where x: "read_source inp st e = Some x" using read_source_ok [OF assms(1) e(2) assms(3)] by blast
  obtain y h where y: "(if ty \<noteq> 7 then decimate (decFactor e) x (dHistory st ! ii) else Some (x, dHistory st ! ii)) = Some (y, h)"
    "length h = MAX_HISTRY"
    using decimate_ok [OF len(5), of "decFactor e" x] len(5) by (cases "ty = 7") auto
  define st1 where "st1 = set_history ii h st"
  have hist: "hist_ok ((dHistory st)[ii := h])" using hist_ok_update [OF len(4) y(2)] .
  have q: "sysRate env div decFactor e = n" using e(3) by (simp flip: e(5))
  obtain a bs where ab: "sample_bytes ty (daqSlot st) (decFactor e) y (uint_hist h) = (a, bs)" by fastforce
  note span = sample_bytes_span [OF assms(4,5) e(3,5,6) ab]
  obtain w where w: "write_bytes (wbase st + loffset e + a) bs st1 = Some (st1\<lparr>swing := w\<rparr>)"
    "only_in (wbase st + loffset e + a) (wbase st + loffset e + a + int (length bs)) (swing st) w"
    using write_bytes_ok [of "wbase st + loffset e + a" bs st1] span e(4,7) assms(6,7)
    by (auto simp: st1_def set_history_def)
  have region: "chan_region env st ii = (wbase st + loffset e, wbase st + loffset e + chan_span ty n (sysRate env))"
    by (simp add: chan_region_def Let_def q flip: e_def ty_def)
  have none: "case chan_region env st ii of (lo, hi) \<Rightarrow> only_in lo hi (swing st) (swing st)" by (simp add: region)
  have step: "write_chan inp ii st =
      (if daqSlot st smod decFactor e = 0 then write_bytes (wbase st + loffset e + a) bs st1
       else if ty = 7 then Some (set_history ii (set_uint_hist (if daqSlot st smod decFactor e = 1 then double_to_uint y
         else uint_hist h AND double_to_uint y) h) st1)
       else Some st1)"
    using len(1-3) x y(1) e(3) ab unfolding write_chan_def Let_def e_def [symmetric] ty_def [symmetric]
    by (simp add: set_history_def st1_def)
  consider "daqSlot st smod decFactor e = 0" | "daqSlot st smod decFactor e \<noteq> 0" "ty = 7"
    | "daqSlot st smod decFactor e \<noteq> 0" "ty \<noteq> 7" by blast
  then show ?thesis
  proof cases
    case 1
    then have "write_chan inp ii st = Some (st\<lparr>dHistory := (dHistory st)[ii := h], swing := w\<rparr>)"
      using step w(1) by (simp add: st1_def set_history_def)
    moreover have "case chan_region env st ii of (lo, hi) \<Rightarrow> only_in lo hi (swing st) w"
      using w(2) span by (simp add: region only_in_mono)
    ultimately show ?thesis using hist by (intro exI conjI)
  next
    case 2
    define h' where "h' = set_uint_hist (if daqSlot st smod decFactor e = 1 then double_to_uint y
         else uint_hist h AND double_to_uint y) h"
    have "write_chan inp ii st = Some (st\<lparr>dHistory := (dHistory st)[ii := h'], swing := swing st\<rparr>)"
      using step 2 by (simp add: st1_def set_history_def h'_def)
    moreover have "length h' = MAX_HISTRY" using y(2) by (simp add: h'_def set_uint_hist_def)
    then have "hist_ok ((dHistory st)[ii := h'])" by (rule hist_ok_update [OF len(4)])
    ultimately show ?thesis using none by (intro exI conjI)
  next
    case 3
    then have "write_chan inp ii st = Some (st\<lparr>dHistory := (dHistory st)[ii := h], swing := swing st\<rparr>)"
      using step by (simp add: st1_def set_history_def)
    then show ?thesis using hist none by (intro exI conjI)
  qed
qed

lemma write_chans_ok:
  assumes "arrays_ok env st" "\<forall>ii \<in> set is. chan_safe env st ii" "500 \<le> length (tpData inp)" "0 \<le> daqSlot st"
    and "daqSlot st < sysRate env" "0 \<le> wbase st" "wbase st \<le> 15 * buf_size"
  shows "\<exists>h w. write_chans inp is st = Some (st\<lparr>dHistory := h, swing := w\<rparr>) \<and> hist_ok h \<and>
    (\<forall>a. (\<forall>ii \<in> set is. case chan_region env st ii of (lo, hi) \<Rightarrow> int a < lo \<or> hi \<le> int a) \<longrightarrow> w a = swing st a)"
  using assms
proof (induction "is" arbitrary: st)
  case Nil
  have "hist_ok (dHistory st)" using Nil.prems(1) by (simp add: arrays_ok_def hist_ok_def)
  then show ?case by (intro exI [of _ "dHistory st"] exI [of _ "swing st"]) simp
next
  case (Cons ii "is")
  obtain h w where one: "write_chan inp ii st = Some (st\<lparr>dHistory := h, swing := w\<rparr>)" "hist_ok h"
    "case chan_region env st ii of (lo, hi) \<Rightarrow> only_in lo hi (swing st) w"
    using write_chan_ok [of env st ii inp] Cons.prems by auto
  define st1 where "st1 = st\<lparr>dHistory := h, swing := w\<rparr>"
  have st1: "arrays_ok env st1" "\<forall>ii \<in> set is. chan_safe env st1 ii"
    using Cons.prems(1,2) one(2) by (auto simp: st1_def arrays_ok_def hist_ok_def chan_safe_def)
  obtain h' w' where more: "write_chans inp is st1 = Some (st1\<lparr>dHistory := h', swing := w'\<rparr>)" "hist_ok h'"
    "\<forall>a. (\<forall>ii \<in> set is. case chan_region env st1 ii of (lo, hi) \<Rightarrow> int a < lo \<or> hi \<le> int a) \<longrightarrow> w' a = w a"
    using Cons.IH [OF st1] Cons.prems by (auto simp: st1_def)
  have "chan_region env st1 i = chan_region env st i" for i by (simp add: chan_region_def st1_def)
  then have "w' a = swing st a" if "\<forall>i \<in> set (ii # is). case chan_region env st i of (lo, hi) \<Rightarrow> int a < lo \<or> hi \<le> int a" for a
    using that more(3) one(3) by (auto simp: only_in_def)
  then show ?case using one(1) more(1,2) by (auto simp: st1_def)
qed

section \<open>EPICS values\<close>

lemma put_floats_ok:
  assumes "pEpicsFloat st = Some a" "0 \<le> a" "a + 4 * int (length xs) \<le> 16 * buf_size"
  shows "\<exists>w. put_floats xs st = Some (st\<lparr>pEpicsFloat := Some (a + 4 * int (length xs)), swing := w\<rparr>) \<and>
    only_in a (a + 4 * int (length xs)) (swing st) w"
  using assms
proof (induction xs arbitrary: st a)
  case Nil
  then show ?case by (intro exI [of _ "swing st"]) simp
next
  case (Cons x xs)
  obtain w where w: "write_bytes a (float_bytes (to_float x)) st = Some (st\<lparr>swing := w\<rparr>)" "only_in a (a + 4) (swing st) w"
    using write_bytes_ok [of a "float_bytes (to_float x)" st] Cons.prems by auto
  define st1 where "st1 = st\<lparr>swing := w, pEpicsFloat := Some (a + 4)\<rparr>"
  obtain w' where w': "put_floats xs st1 = Some (st1\<lparr>pEpicsFloat := Some (a + 4 + 4 * int (length xs)), swing := w'\<rparr>)"
    "only_in (a + 4) (a + 4 + 4 * int (length xs)) w w'"
    using Cons.IH [of st1 "a + 4"] Cons.prems by (auto simp: st1_def)
  have "only_in a (a + 4 * int (length (x # xs))) (swing st) w'"
    using only_in_mono [OF w(2), of a "a + 4 * int (length (x # xs))"]
      only_in_mono [OF w'(2), of a "a + 4 * int (length (x # xs))"] by (auto intro: only_in_trans)
  then show ?case using Cons.prems(1) w(1) w'(1) by (auto simp: st1_def add.assoc)
qed

lemma put_modules_ok:
  assumes "pEpicsFloat st = Some a" "0 \<le> a" "a + 44 * int (length is) \<le> 16 * buf_size"
    and "\<forall>i \<in> set is. i < length (inputs (dsp st)) \<and> i < length (fmdata (dsp st))"
  shows "\<exists>w. put_modules is st = Some (st\<lparr>pEpicsFloat := Some (a + 44 * int (length is)), swing := w\<rparr>) \<and>
    only_in a (a + 44 * int (length is)) (swing st) w"
  using assms
proof (induction "is" arbitrary: st a)
  case Nil
  then show ?case by (intro exI [of _ "swing st"]) simp
next
  case (Cons i "is")
  let ?xs = "fm_values (inputs (dsp st) ! i) (fmdata (dsp st) ! i)"
  have "length ?xs = 11" by (simp add: fm_values_def)
  then obtain w where w: "put_floats ?xs st = Some (st\<lparr>pEpicsFloat := Some (a + 44), swing := w\<rparr>)" "only_in a (a + 44) (swing st) w"
    using put_floats_ok [of st a ?xs] Cons.prems by auto
  define st1 where "st1 = st\<lparr>pEpicsFloat := Some (a + 44), swing := w\<rparr>"
  obtain w' where w': "put_modules is st1 = Some (st1\<lparr>pEpicsFloat := Some (a + 44 + 44 * int (length is)), swing := w'\<rparr>)"
    "only_in (a + 44) (a + 44 + 44 * int (length is)) w w'"
    using Cons.IH [of st1 "a + 44"] Cons.prems by (auto simp: st1_def)
  have "only_in a (a + 44 * int (length (i # is))) (swing st) w'"
    using only_in_mono [OF w(2), of a "a + 44 * int (length (i # is))"]
      only_in_mono [OF w'(2), of a "a + 44 * int (length (i # is))"] by (auto intro: only_in_trans)
  then show ?case using Cons.prems(4) w(1) w'(1) by (auto simp: st1_def add.assoc)
qed

text \<open>The start of the filter module values in the block, and where \<open>pEpicsFloat\<close> stands before the cycle of a slot.\<close>

definition floats_at :: "DAQ_INFO_BLOCK \<Rightarrow> daq_st \<Rightarrow> int" where
  "floats_at p st = wbase st + 4 * (numEpicsInts p + numEpicsFloats p)"

definition floats_ready :: "daq_env \<Rightarrow> DAQ_INFO_BLOCK \<Rightarrow> int \<Rightarrow> daq_st \<Rightarrow> bool" where
  "floats_ready env p slot st \<longleftrightarrow> (2 \<le> slot \<and> slot < fst (filt_xfers (maxModules env)) \<longrightarrow>
     pEpicsFloat st = Some (floats_at p st + 4400 * (slot - 2)))"

lemma filt_xfers_modules:
  assumes "1 \<le> m" "filt_xfers m = (x, l)"
  shows "100 * (x - 3) + l = m" "0 < l" "l \<le> 100" "3 \<le> x"
proof -
  have m: "100 * (m div 100) + m mod 100 = m" "0 \<le> m mod 100" "m mod 100 < 100" by simp_all
  have "1 \<le> m div 100" if "m mod 100 = 0" using that m(1) assms(1) by linarith
  moreover have "0 \<le> m div 100" using assms(1) by (simp add: pos_imp_zdiv_nonneg_iff)
  ultimately show "100 * (x - 3) + l = m" "0 < l" "l \<le> 100" "3 \<le> x"
    using assms(2) m by (auto simp: filt_xfers_def split: if_splits)
qed

lemma epics_ints_ok:
  assumes "info_copied env p (dataInfo st)" "0 \<le> wbase st" "wbase st + 4 * numEpicsInts p \<le> 16 * buf_size"
  shows "\<exists>w. epics_ints inp st = Some (st\<lparr>swing := w\<rparr>) \<and> only_in (wbase st) (wbase st + 4 * numEpicsInts p) (swing st) w"
proof -
  obtain n0 n1 where n: "cpyIntSize (dataInfo st) = (n0, n1)" "0 \<le> n0" "0 \<le> n1" "n0 + n1 = 4 * numEpicsInts p"
    using assms(1) by (auto simp: info_copied_def split: prod.splits)
  obtain w where w: "write_bytes (wbase st) (map (epicsBytes inp) [0..<nat n0]) st = Some (st\<lparr>swing := w\<rparr>)"
    "only_in (wbase st) (wbase st + n0) (swing st) w"
    using write_bytes_ok [of "wbase st" "map (epicsBytes inp) [0..<nat n0]" st] assms(2,3) n by auto
  obtain w' where w': "write_bytes (wbase st + n0) (map (epicsBytes inp) [nat n0 + 4..<nat n0 + 4 + nat n1]) (st\<lparr>swing := w\<rparr>) =
      Some (st\<lparr>swing := w'\<rparr>)" "only_in (wbase st + n0) (wbase st + n0 + n1) w w'"
    using write_bytes_ok [of "wbase st + n0" "map (epicsBytes inp) [nat n0 + 4..<nat n0 + 4 + nat n1]" "st\<lparr>swing := w\<rparr>"]
      assms(2,3) n by auto
  have "only_in (wbase st) (wbase st + 4 * numEpicsInts p) (swing st) w"
    "only_in (wbase st) (wbase st + 4 * numEpicsInts p) w w'"
    using only_in_mono [OF w(2)] only_in_mono [OF w'(2)] n by auto
  then show ?thesis
    using w(1) w'(1) n(1-3) by (cases "cpyepics2times (dataInfo st) = 0") (auto simp: epics_ints_def Let_def intro: only_in_trans)
qed

lemma info_copied_fields:
  assumes "info_copied env p d" "filt_xfers (maxModules env) = (x, l)"
  shows "numEpicsInts d = numEpicsInts p" "numEpicsFloats d = numEpicsFloats p" "numEpicsFiltXfers d = x"
    "numEpicsFiltsLast d = l" "numChans d = numChans p" "length (dtp d) = 512"
  using assms by (auto simp: info_copied_def)

lemma info_fits_epics:
  assumes "info_fits env p"
  shows "0 \<le> numEpicsInts p" "0 \<le> numEpicsFloats p"
    "numEpicsTotal p = numEpicsInts p + numEpicsFloats p + 11 * maxModules env" "4 * numEpicsTotal p \<le> 0x40000"
  using assms chan_start_bounds(1) [OF assms, of "nat (numChans p)"] by (auto simp: info_fits_def)

lemma epics_doubles_ok:
  assumes "info_copied env p (dataInfo st)" "0 \<le> numEpicsInts p" "0 \<le> numEpicsFloats p" "0 \<le> wbase st"
    and "floats_at p st \<le> 16 * buf_size"
  shows "\<exists>w. epics_doubles inp st = Some (st\<lparr>pEpicsFloat := Some (floats_at p st), swing := w\<rparr>) \<and>
    only_in (wbase st) (floats_at p st) (swing st) w"
proof -
  define xs where "xs = map (\<lambda>i. epicsDbl inp (pEpicsDblData st + 8 * int i)) [0..<nat (numEpicsFloats p)]"
  define s0 where "s0 = st\<lparr>pEpicsFloat := Some (wbase st + 4 * numEpicsInts p)\<rparr>"
  have d: "numEpicsInts (dataInfo st) = numEpicsInts p" "numEpicsFloats (dataInfo st) = numEpicsFloats p"
    using assms(1) by (auto simp: info_copied_def)
  have lx: "int (length xs) = numEpicsFloats p" using assms(3) by (simp add: xs_def)
  obtain w where w: "put_floats xs s0 = Some (s0\<lparr>pEpicsFloat := Some (floats_at p st), swing := w\<rparr>)"
    "only_in (wbase st + 4 * numEpicsInts p) (floats_at p st) (swing st) w"
    using put_floats_ok [of s0 "wbase st + 4 * numEpicsInts p" xs] assms
    by (auto simp: s0_def lx floats_at_def algebra_simps)
  have "only_in (wbase st) (floats_at p st) (swing st) w" by (rule only_in_mono [OF w(2)]) (use assms in auto)
  then show ?thesis using w(1) by (auto simp: epics_doubles_def d s0_def xs_def)
qed

lemma epics_modules_ok:
  assumes "env_ok env" "info_copied env p (dataInfo st)" "arrays_ok env st" "filt_xfers (maxModules env) = (x, l)"
    and "2 \<le> daqSlot st" "daqSlot st < x" "0 \<le> floats_at p st" "floats_at p st + 44 * maxModules env \<le> 16 * buf_size"
    and "floats_ready env p (daqSlot st) st"
  shows "\<exists>f w. epics_modules st = Some (st\<lparr>pEpicsFloat := f, swing := w\<rparr>) \<and>
    only_in (floats_at p st) (floats_at p st + 44 * maxModules env) (swing st) w \<and>
    floats_ready env p (daqSlot st + 1) (st\<lparr>pEpicsFloat := f\<rparr>)"
proof -
  define jj where "jj = 100 * (daqSlot st - 2)"
  define kk where "kk = jj + (if daqSlot st = x - 1 then l else 100)"
  have m: "1 \<le> maxModules env" using assms(1) by (simp add: env_ok_def)
  have k: "0 \<le> jj" "jj \<le> kk" "kk \<le> maxModules env"
    using assms(5,6) filt_xfers_modules [OF m assms(4)] by (auto simp: jj_def kk_def)
  have at: "pEpicsFloat st = Some (floats_at p st + 44 * jj)"
    using assms(4,5,6,9) by (auto simp: floats_ready_def jj_def algebra_simps)
  have "\<forall>i \<in> set [nat jj..<nat kk]. i < length (inputs (dsp st)) \<and> i < length (fmdata (dsp st))"
    using k assms(3) by (auto simp: arrays_ok_def)
  then obtain w where w: "put_modules [nat jj..<nat kk] st = Some (st\<lparr>pEpicsFloat := Some (floats_at p st + 44 * kk), swing := w\<rparr>)"
    "only_in (floats_at p st + 44 * jj) (floats_at p st + 44 * kk) (swing st) w"
    using put_modules_ok [OF at, of "[nat jj..<nat kk]"] k assms(7,8) by (auto simp: of_nat_diff algebra_simps)
  have "epics_modules st = put_modules [nat jj..<nat kk] st"
    by (simp only: epics_modules_def Let_def info_copied_fields [OF assms(2,4)] jj_def kk_def)
  moreover have "only_in (floats_at p st) (floats_at p st + 44 * maxModules env) (swing st) w"
    by (rule only_in_mono [OF w(2)]) (use k in auto)
  moreover have "floats_ready env p (daqSlot st + 1) (st\<lparr>pEpicsFloat := Some (floats_at p st + 44 * kk)\<rparr>)"
    using assms(4) by (auto simp: floats_ready_def floats_at_def kk_def jj_def)
  ultimately show ?thesis using w(1) by (intro exI conjI) simp_all
qed

lemma epics_values_ok:
  assumes "env_ok env" "info_fits env p" "info_copied env p (dataInfo st)" "arrays_ok env st"
    and "0 \<le> daqSlot st" "0 \<le> wbase st" "wbase st \<le> 15 * buf_size" "floats_ready env p (daqSlot st) st"
  shows "\<exists>f w. epics_values inp st = Some (st\<lparr>pEpicsFloat := f, swing := w\<rparr>) \<and>
    only_in (wbase st) (wbase st + 4 * numEpicsTotal p) (swing st) w \<and>
    floats_ready env p (daqSlot st + 1) (st\<lparr>pEpicsFloat := f\<rparr>)"
proof -
  obtain x l where x: "filt_xfers (maxModules env) = (x, l)" by (cases "filt_xfers (maxModules env)")
  have m: "1 \<le> maxModules env" using assms(1) by (simp add: env_ok_def)
  note d = info_copied_fields [OF assms(3) x] and p = info_fits_epics [OF assms(2)]
  have within: "wbase st \<le> floats_at p st" "floats_at p st + 44 * maxModules env = wbase st + 4 * numEpicsTotal p"
    "floats_at p st + 44 * maxModules env \<le> 16 * buf_size"
    using p assms(7) by (auto simp: floats_at_def)
  consider "daqSlot st = 0" | "daqSlot st = 1" | "2 \<le> daqSlot st" "daqSlot st < x" | "2 \<le> daqSlot st" "x \<le> daqSlot st"
    using assms(5) by linarith
  then show ?thesis
  proof cases
    case 1
    obtain w where w: "epics_ints inp st = Some (st\<lparr>swing := w\<rparr>)"
      "only_in (wbase st) (wbase st + 4 * numEpicsInts p) (swing st) w"
      using epics_ints_ok [OF assms(3,6)] assms(7) p m by auto
    have "only_in (wbase st) (wbase st + 4 * numEpicsTotal p) (swing st) w" by (rule only_in_mono [OF w(2)]) (use p m in auto)
    then show ?thesis using w(1) 1 by (intro exI [of _ "pEpicsFloat st"] exI [of _ w]) (simp add: epics_values_def floats_ready_def)
  next
    case 2
    obtain w where w: "epics_doubles inp st = Some (st\<lparr>pEpicsFloat := Some (floats_at p st), swing := w\<rparr>)"
      "only_in (wbase st) (floats_at p st) (swing st) w"
      using epics_doubles_ok [OF assms(3) p(1,2) assms(6)] within m by auto
    have "only_in (wbase st) (wbase st + 4 * numEpicsTotal p) (swing st) w"
      by (rule only_in_mono [OF w(2)]) (use within m in auto)
    moreover have "floats_ready env p (daqSlot st + 1) (st\<lparr>pEpicsFloat := Some (floats_at p st)\<rparr>)"
      using 2 by (simp add: floats_ready_def floats_at_def)
    ultimately show ?thesis using w(1) 2 by (intro exI conjI) (simp_all add: epics_values_def)
  next
    case 3
    obtain f w where w: "epics_modules st = Some (st\<lparr>pEpicsFloat := f, swing := w\<rparr>)"
      "only_in (floats_at p st) (floats_at p st + 44 * maxModules env) (swing st) w"
      "floats_ready env p (daqSlot st + 1) (st\<lparr>pEpicsFloat := f\<rparr>)"
      using epics_modules_ok [OF assms(1,3,4) x 3 _ _ assms(8)] within assms(6) by auto
    have "only_in (wbase st) (wbase st + 4 * numEpicsTotal p) (swing st) w"
      by (rule only_in_mono [OF w(2)]) (use within in auto)
    then show ?thesis using w(1,3) 3 by (intro exI conjI) (simp_all add: epics_values_def d)
  next
    case 4
    then have "epics_values inp st = Some (st\<lparr>pEpicsFloat := pEpicsFloat st, swing := swing st\<rparr>)"
      by (simp add: epics_values_def d)
    moreover have "floats_ready env p (daqSlot st + 1) (st\<lparr>pEpicsFloat := pEpicsFloat st\<rparr>)"
      using 4 x by (simp add: floats_ready_def)
    ultimately show ?thesis by (intro exI [of _ "pEpicsFloat st"] exI [of _ "swing st"]) simp
  qed
qed

section \<open>Excitations\<close>

lemma set_excite_ok:
  assumes "0 \<le> fm" "nat fm < length (fmdata (dsp st))"
  shows "\<exists>d. set_excite fm v st = Some (st\<lparr>dsp := (dsp st)\<lparr>fmdata := d\<rparr>\<rparr>) \<and> length d = length (fmdata (dsp st))"
  using assms by (auto simp: set_excite_def)

lemma read_exc_ok:
  assumes "arrays_ok env st" "chan_safe env st ii"
  shows "\<exists>v d x. read_exc inp ii st = Some (st\<lparr>validEx := v, dsp := (dsp st)\<lparr>fmdata := d\<rparr>, excSignal := x\<rparr>) \<and>
    length d = length (fmdata (dsp st)) \<and> length x = length (excSignal st)"
proof -
  define e where "e = localTable st ! ii"
  define a where "a = excBlockNum st * 0x40000 + sigNum e * excDataSize st"
  define v where "v = (if excStatus inp a = 0 then 0x100 else validEx st)"
  define x where "x = (if excStatus inp a = 0 then excData inp (a + excSlot st * 4 + 4) else f0)"
  have src: "source_ok (maxModules env) e" "ii < length (localTable st)"
    using assms by (auto simp: chan_safe_def Let_def e_def arrays_ok_def)
  have step: "read_exc inp ii st =
      (if ltype e < 2 then Some st else if ltype e = 2 then set_excite (fmNum e) x (st\<lparr>validEx := v\<rparr>)
       else if ltype e = 3 then set_excSignal (fmNum e) x (st\<lparr>validEx := v\<rparr>) else Some (st\<lparr>validEx := v\<rparr>))"
    using src(2) unfolding read_exc_def Let_def e_def [symmetric] a_def [symmetric] v_def x_def
    by (cases "excStatus inp a = 0") (auto simp: set_excite_def set_excSignal_def)
  consider "ltype e < 2" | "ltype e = 2" "0 \<le> fmNum e" "nat (fmNum e) < length (fmdata (dsp st))"
    | "ltype e = 3" "0 \<le> fmNum e" "nat (fmNum e) < length (excSignal st)"
  proof -
    have "length (fmdata (dsp st)) = nat (maxModules env)" "length (excSignal st) = 50" using assms(1) by (simp_all add: arrays_ok_def)
    moreover have "ltype e < 2 \<or> ltype e = 2 \<or> ltype e = 3" using src(1) by (auto simp: source_ok_def)
    ultimately show thesis using src(1) that by (auto simp: source_ok_def)
  qed
  then show ?thesis
  proof cases
    case 1
    then show ?thesis
      using step by (intro exI [of _ "validEx st"] exI [of _ "fmdata (dsp st)"] exI [of _ "excSignal st"]) simp
  next
    case 2
    then show ?thesis
      using step by (auto simp: set_excite_def intro!: exI [of _ v] exI [of _ "excSignal st"])
  next
    case 3
    then show ?thesis
      using step by (auto simp: set_excSignal_def intro!: exI [of _ v] exI [of _ "fmdata (dsp st)"])
  qed
qed

lemma read_excs_ok:
  assumes "arrays_ok env st" "\<forall>ii \<in> set is. chan_safe env st ii"
  shows "\<exists>v d x. read_excs inp is st = Some (st\<lparr>validEx := v, dsp := (dsp st)\<lparr>fmdata := d\<rparr>, excSignal := x\<rparr>) \<and>
    length d = length (fmdata (dsp st)) \<and> length x = length (excSignal st)"
  using assms
proof (induction "is" arbitrary: st)
  case Nil
  then show ?case by (intro exI [of _ "validEx st"] exI [of _ "fmdata (dsp st)"] exI [of _ "excSignal st"]) simp
next
  case (Cons ii "is")
  obtain v d x where one: "read_exc inp ii st = Some (st\<lparr>validEx := v, dsp := (dsp st)\<lparr>fmdata := d\<rparr>, excSignal := x\<rparr>)"
    "length d = length (fmdata (dsp st))" "length x = length (excSignal st)"
    using read_exc_ok [of env st ii inp] Cons.prems by auto
  define st1 where "st1 = st\<lparr>validEx := v, dsp := (dsp st)\<lparr>fmdata := d\<rparr>, excSignal := x\<rparr>"
  have "arrays_ok env st1" "\<forall>ii \<in> set is. chan_safe env st1 ii"
    using Cons.prems one(2,3) by (auto simp: st1_def arrays_ok_def chan_safe_def)
  from Cons.IH [OF this] show ?case using one by (auto simp: st1_def)
qed

end
