(* ===== verification/DaqSlots.thy ===== *)
theory DaqSlots
  imports DaqCycle
begin

text \<open>
  The table of test point slots (\<open>src/include/drv/daqLib.c\<close>): the check of the selections returns, leaves the channels of the
  configuration alone, and keeps every slot that is transmitted in a state in which it can be transmitted.
\<close>

section \<open>Slots\<close>

definition slot_pos :: "daq_st \<Rightarrow> nat \<Rightarrow> nat" where
  "slot_pos st i = nat (numChans (dataInfo st)) + i"

definition slot_clean :: "daq_env \<Rightarrow> daq_st \<Rightarrow> nat \<Rightarrow> bool" where
  "slot_clean env st i \<longleftrightarrow>
     (let e = localTable st ! slot_pos st i
      in source_ok (maxModules env) e \<and> decFactor e = 1 \<and> dataType (dtp (dataInfo st) ! slot_pos st i) = DAQ_DATATYPE_FLOAT \<and>
         (2 \<le> ltype e \<longrightarrow> fmNum (excTable st ! i) = fmNum e) \<and>
         (tpNum st ! i \<noteq> 0 \<longrightarrow> entry_for (daqRange env) (tpNum st ! i) e))"

text \<open>A slot at or below one that is in use is transmitted.\<close>

definition used :: "u32 list \<Rightarrow> nat \<Rightarrow> bool" where
  "used ts i \<longleftrightarrow> (\<exists>j. i \<le> j \<and> j < length ts \<and> ts ! j \<noteq> 0)"

definition slots_ok :: "daq_env \<Rightarrow> daq_st \<Rightarrow> bool" where
  "slots_ok env st \<longleftrightarrow> arrays_ok env st \<and> 0 \<le> numChans (dataInfo st) \<and> numChans (dataInfo st) \<le> 448 \<and>
     (\<forall>i < 64. used (tpNum st) i \<longrightarrow> slot_clean env st i)"

definition slots_except :: "nat \<Rightarrow> daq_env \<Rightarrow> daq_st \<Rightarrow> bool" where
  "slots_except s env st \<longleftrightarrow> arrays_ok env st \<and> 0 \<le> numChans (dataInfo st) \<and> numChans (dataInfo st) \<le> 448 \<and>
     (\<forall>i < 64. i \<noteq> s \<and> used (tpNum st) i \<longrightarrow> slot_clean env st i)"

text \<open>Nothing but the slots, the excitations and the status words of the manager has changed.\<close>

definition but_slots :: "daq_st \<Rightarrow> daq_st" where
  "but_slots st = st\<lparr>localTable := take (nat (numChans (dataInfo st))) (localTable st), excTable := [],
     dataInfo := (dataInfo st)\<lparr>dtp := take (nat (numChans (dataInfo st))) (dtp (dataInfo st))\<rparr>, tpNum := [],
     dsp := (dsp st)\<lparr>fmdata := []\<rparr>, excSignal := [], gdsTp := map (apsnd (\<lambda>_. [])) (gdsTp st)\<rparr>"

lemma slot_index_ok: "slots_ok env st \<Longrightarrow> i < 64 \<Longrightarrow> slot_index st i = Some (slot_pos st i)"
  by (auto simp: slots_ok_def arrays_ok_def slot_index_def slot_pos_def Let_def nat_add_distrib)

lemma slots_ok_except: "slots_ok env st \<Longrightarrow> slots_except s env st"
  by (simp add: slots_ok_def slots_except_def)

lemma slot_pos_less: "slots_ok env st \<Longrightarrow> i < 64 \<Longrightarrow> slot_pos st i < 512"
  by (auto simp: slots_ok_def slot_pos_def)

lemma used_mono: "used ts i \<Longrightarrow> j \<le> i \<Longrightarrow> used ts j"
  by (auto simp: used_def intro: le_trans)

lemma used_here: "i < length ts \<Longrightarrow> ts ! i \<noteq> 0 \<Longrightarrow> used ts i"
  by (auto simp: used_def)

lemma used_clear: "used (ts[i := 0]) j \<Longrightarrow> used ts j"
proof -
  assume "used (ts[i := 0]) j"
  then obtain l where l: "j \<le> l" "l < length ts" "ts[i := 0] ! l \<noteq> 0" by (auto simp: used_def)
  then have "l \<noteq> i" by auto
  then show ?thesis using l by (auto simp: used_def)
qed

section \<open>Deselection\<close>

lemma stop_excitation_ok:
  assumes "arrays_ok env st" "i < 64"
    and "t = 2 \<Longrightarrow> 0 \<le> fmNum (excTable st ! i) \<and> fmNum (excTable st ! i) < maxModules env"
    and "t = 3 \<Longrightarrow> 0 \<le> fmNum (excTable st ! i) \<and> fmNum (excTable st ! i) < 50"
  shows "\<exists>x d s. stop_excitation t i st = Some (st\<lparr>excTable := x, dsp := (dsp st)\<lparr>fmdata := d\<rparr>, excSignal := s\<rparr>) \<and>
    length x = 512 \<and> length d = length (fmdata (dsp st)) \<and> length s = length (excSignal st) \<and>
    (\<forall>j. fmNum (x ! j) = fmNum (excTable st ! j) \<and> loffset (x ! j) = loffset (excTable st ! j))"
proof -
  define e where "e = excTable st ! i"
  define x where "x = (excTable st)[i := e\<lparr>sigNum := 0\<rparr>]"
  have len: "length (excTable st) = 512" "length (fmdata (dsp st)) = nat (maxModules env)" "length (excSignal st) = 50"
    using assms(1) by (simp_all add: arrays_ok_def)
  have x: "length x = 512" "\<forall>j. fmNum (x ! j) = fmNum (excTable st ! j) \<and> loffset (x ! j) = loffset (excTable st ! j)"
    using len(1) assms(2) by (auto simp: x_def e_def nth_list_update)
  consider "t = 2" | "t = 3" | "t \<noteq> 2" "t \<noteq> 3" by blast
  then show ?thesis
  proof cases
    case 1
    then show ?thesis
      using assms(3) len x
      by (intro exI [of _ x] exI [of _ "(fmdata (dsp st))[nat (fmNum e) := (fmdata (dsp st) ! nat (fmNum e))\<lparr>exciteInput := f0\<rparr>]"]
          exI [of _ "excSignal st"]) (auto simp: stop_excitation_def Let_def set_excite_def simp flip: e_def x_def)
  next
    case 2
    then show ?thesis
      using assms(4) len x
      by (auto simp: stop_excitation_def Let_def set_excSignal_def simp flip: e_def x_def
          intro!: exI [of _ x] exI [of _ "fmdata (dsp st)"])
  next
    case 3
    then show ?thesis
      using len x by (auto simp: stop_excitation_def Let_def
          intro!: exI [of _ "excTable st"] exI [of _ "fmdata (dsp st)"] exI [of _ "excSignal st"])
  qed
qed

lemma free_slot_ok:
  assumes "slots_ok env st" "1 \<le> maxModules env" "i < 64" "tpNum st ! i \<noteq> 0"
  shows "\<exists>st'. free_slot i st = Some st' \<and> slots_ok env st' \<and> but_slots st' = but_slots st \<and> tpNum st' = (tpNum st)[i := 0] \<and>
    gdsTp st' = gdsTp st \<and> (\<forall>j. loffset (excTable st' ! j) = loffset (excTable st ! j))"
proof -
  define k where "k = slot_pos st i"
  define st0 where "st0 = st\<lparr>tpNum := (tpNum st)[i := 0]\<rparr>"
  have arr: "arrays_ok env st" "0 \<le> numChans (dataInfo st)" "numChans (dataInfo st) \<le> 448" "k < 512" "length (tpNum st) = 64"
    using assms(1,3) slot_pos_less [OF assms(1)] by (auto simp: slots_ok_def arrays_ok_def k_def)
  have clean: "slot_clean env st i" using assms arr(5) used_here by (auto simp: slots_ok_def)
  have src: "source_ok (maxModules env) (localTable st ! k)"
    "2 \<le> ltype (localTable st ! k) \<Longrightarrow> fmNum (excTable st ! i) = fmNum (localTable st ! k)"
    using clean by (auto simp: slot_clean_def Let_def k_def)
  have idx: "slot_index st0 i = Some k"
    using slot_index_ok [OF assms(1,3)] by (simp add: slot_index_def st0_def k_def)
  have "arrays_ok env st0" using arr(1) by (simp add: st0_def arrays_ok_def)
  moreover have "ltype (localTable st ! k) = 2 \<Longrightarrow> 0 \<le> fmNum (excTable st ! i) \<and> fmNum (excTable st ! i) < maxModules env"
    "ltype (localTable st ! k) = 3 \<Longrightarrow> 0 \<le> fmNum (excTable st ! i) \<and> fmNum (excTable st ! i) < 50"
    using src by (auto simp: source_ok_def)
  ultimately obtain x d s where stop: "stop_excitation (ltype (localTable st ! k)) i st0 =
      Some (st0\<lparr>excTable := x, dsp := (dsp st)\<lparr>fmdata := d\<rparr>, excSignal := s\<rparr>)" "length x = 512"
    "length d = length (fmdata (dsp st))" "length s = length (excSignal st)"
    "\<forall>j. fmNum (x ! j) = fmNum (excTable st ! j) \<and> loffset (x ! j) = loffset (excTable st ! j)"
    using stop_excitation_ok [of env st0 i "ltype (localTable st ! k)"] assms(3) by (auto simp: st0_def)
  define e where "e = (localTable st ! k)\<lparr>ltype := 0, sysNum := 0, fmNum := 0, sigNum := 0, decFactor := 1\<rparr>"
  define st' where "st' = set_dataType k 4 (st0\<lparr>excTable := x, dsp := (dsp st)\<lparr>fmdata := d\<rparr>, excSignal := s,
     localTable := (localTable st)[k := e]\<rparr>)"
  have run: "free_slot i st = Some st'"
    unfolding free_slot_def Let_def st0_def [symmetric] using idx stop(1) by (simp add: st'_def e_def st0_def)
  have pos: "slot_pos st' j = slot_pos st j" for j by (simp add: slot_pos_def st'_def set_dataType_def st0_def)
  have "slot_clean env st' j" if "j < 64" "used (tpNum st') j" for j
  proof (cases "j = i")
    case True
    then show ?thesis
      using arr(1,4) assms(2,3) pos [of j]
      by (simp add: slot_clean_def Let_def st'_def set_dataType_def st0_def e_def source_ok_def arrays_ok_def flip: k_def)
  next
    case False
    have "used (tpNum st) j" using that(2) used_clear by (simp add: st'_def set_dataType_def st0_def)
    then have "slot_clean env st j" using assms(1) that(1) by (simp add: slots_ok_def)
    moreover have "slot_pos st j \<noteq> k" using False by (simp add: k_def slot_pos_def)
    ultimately show ?thesis
      using stop(5) False pos [of j] by (simp add: slot_clean_def Let_def st'_def set_dataType_def st0_def)
  qed
  then have "slots_ok env st'"
    using arr stop(2-4) by (auto simp: slots_ok_def arrays_ok_def st'_def set_dataType_def st0_def)
  moreover have "nat (numChans (dataInfo st)) \<le> k" by (simp add: k_def slot_pos_def)
  then have "but_slots st' = but_slots st" by (simp add: but_slots_def st'_def set_dataType_def st0_def)
  ultimately show ?thesis using run stop(5) by (auto simp: st'_def set_dataType_def st0_def)
qed

lemma deselect_ok:
  assumes "slots_ok env st" "1 \<le> maxModules env" "\<forall>i \<in> set is. i < 64"
  shows "\<exists>ls' st'. deselect is ls st = Some (ls', st') \<and> slots_ok env st' \<and> but_slots st' = but_slots st \<and> gdsTp st' = gdsTp st"
  using assms
proof (induction "is" arbitrary: ls st)
  case (Cons i "is")
  obtain found ls1 where found: "in_the_lists (tpNum st ! i) (loffset (excTable st ! i)) ls = (found, ls1)" by (metis surj_pair)
  show ?case
  proof (cases "tpNum st ! i = 0 \<or> found")
    case True
    have "deselect (i # is) ls st = deselect is (if tpNum st ! i = 0 then ls else ls1) st" using True found by auto
    then show ?thesis using Cons.IH [OF Cons.prems(1,2)] Cons.prems(3) by auto
  next
    case False
    obtain st1 where st1: "free_slot i st = Some st1" "slots_ok env st1" "but_slots st1 = but_slots st" "gdsTp st1 = gdsTp st"
      using free_slot_ok [OF Cons.prems(1,2), of i] Cons.prems(3) False by auto
    then have "deselect (i # is) ls st = deselect is ls1 st1" using False found by simp
    then show ?thesis using Cons.IH [OF st1(2) Cons.prems(2)] Cons.prems(3) st1(3,4) by auto
  qed
qed auto

section \<open>Selection\<close>

lemma empty_slot_from_Some:
  "empty_slot_from ts i = Some s \<Longrightarrow> i \<le> s \<and> s < i + length ts \<and> ts ! (s - i) = 0 \<and> (\<forall>j. i \<le> j \<and> j < s \<longrightarrow> ts ! (j - i) \<noteq> 0)"
proof (induction ts arbitrary: i)
  case (Cons t ts)
  show ?case
  proof (cases "t = 0")
    case False
    then have "empty_slot_from ts (i + 1) = Some s" using Cons.prems by simp
    note ih = Cons.IH [OF this]
    have s: "s - i = Suc (s - (i + 1))" using ih [THEN conjunct1] by simp
    have "(t # ts) ! (j - i) \<noteq> 0" if "i \<le> j" "j < s" for j
    proof (cases "j = i")
      case False
      then have "j - i = Suc (j - (i + 1))" using that by simp
      then show ?thesis using ih that False by simp
    qed (use \<open>t \<noteq> 0\<close> in simp)
    then show ?thesis using ih s by simp
  qed (use Cons.prems in simp)
qed simp

lemma empty_slot_Some:
  assumes "empty_slot ts = Some s"
  shows "s < length ts" "ts ! s = 0" "\<And>j. j < s \<Longrightarrow> ts ! j \<noteq> 0"
  using empty_slot_from_Some [of ts 0 s] assms by (auto simp: empty_slot_def)

text \<open>A slot that is filled is clean afterwards, and so is every slot below it.\<close>

lemma fill_slot_ok:
  assumes "slots_except slot env st" "empty_slot (tpNum st) = Some slot" "source_ok (maxModules env) e" "decFactor e = 1"
    and "2 \<le> ltype e \<longrightarrow> fmNum (excTable st ! slot) = fmNum e" "j < 4" "entry_for (daqRange env) tpn e"
  shows "slots_ok env (fill_slot slot (slot_pos st slot) e j tpn st)"
    "but_slots (fill_slot slot (slot_pos st slot) e j tpn st) = but_slots st"
proof -
  define k where "k = slot_pos st slot"
  define st' where "st' = fill_slot slot k e j tpn st"
  have arr: "arrays_ok env st" "0 \<le> numChans (dataInfo st)" "numChans (dataInfo st) \<le> 448" "length (tpNum st) = 64"
    using assms(1) by (auto simp: slots_except_def arrays_ok_def)
  note free = empty_slot_Some [OF assms(2)]
  have k: "k < 512" "nat (numChans (dataInfo st)) \<le> k" using arr free(1) by (auto simp: k_def slot_pos_def)
  have pos: "slot_pos st' i = slot_pos st i" for i
    by (simp add: slot_pos_def st'_def fill_slot_def Let_def clear_status_def set_dataType_def)
  note defs = st'_def fill_slot_def Let_def clear_status_def set_dataType_def
  have "slot_clean env st' i" if i: "i < 64" and u: "used (tpNum st') i" for i
  proof (cases "i = slot")
    case True
    then show ?thesis
      using arr(1) k(1) assms(3-5,7) free(1) pos [of i] by (simp add: slot_clean_def defs arrays_ok_def flip: k_def)
  next
    case False
    obtain l where l: "i \<le> l" "l < 64" "tpNum st' ! l \<noteq> 0" using u arr(4) by (auto simp: used_def defs)
    have "used (tpNum st) i"
    proof (cases "l = slot")
      case True
      then have "tpNum st ! i \<noteq> 0" using free(3) l(1) False by simp
      then show ?thesis using used_here i arr(4) by simp
    next
      case False
      then show ?thesis using l arr(4) by (auto simp: used_def defs)
    qed
    then have "slot_clean env st i" using assms(1) i False by (simp add: slots_except_def)
    moreover have "slot_pos st i \<noteq> k" using False by (simp add: k_def slot_pos_def)
    ultimately show ?thesis using False pos [of i] by (simp add: slot_clean_def defs)
  qed
  then show "slots_ok env (fill_slot slot (slot_pos st slot) e j tpn st)"
    unfolding k_def [symmetric] st'_def [symmetric]
    using arr assms(6) by (auto simp: slots_ok_def arrays_ok_def defs nth_list_update)
  have "map (apsnd (\<lambda>_. [] :: u32 list)) ((gdsTp st)[j := (fst (gdsTp st ! j), (snd (gdsTp st ! j))[slot := 0])]) =
      map (apsnd (\<lambda>_. [])) (gdsTp st)"
    using arr(1) assms(6) by (intro nth_equalityI) (auto simp: nth_list_update arrays_ok_def apsnd_def map_prod_def split: prod.splits)
  then show "but_slots (fill_slot slot (slot_pos st slot) e j tpn st) = but_slots st"
    unfolding k_def [symmetric] st'_def [symmetric] using k(2) by (simp add: but_slots_def defs)
qed

lemma add_testpoint_ok:
  assumes "env_ok env" "slots_ok env st" "empty_slot (tpNum st) = Some slot" "sysoffs < 2"
  shows "\<exists>st'. add_testpoint env sysoffs slot tpn st = Some st' \<and> slots_ok env st' \<and> but_slots st' = but_slots st"
proof -
  define r where "r = daqRange env"
  obtain slow where env: "r = daq_range slow (maxModules env)" "1 \<le> maxModules env" "maxModules env \<le> 1000"
    using assms(1) by (auto simp: env_ok_def r_def)
  have "slot < 64" using empty_slot_Some(1) [OF assms(3)] assms(2) by (simp add: slots_ok_def arrays_ok_def)
  note idx = slot_index_ok [OF assms(2) this] and fill = fill_slot_ok [OF slots_ok_except [OF assms(2)] assms(3)]
  define e0 where "e0 = localTable st ! slot_pos st slot"
  consider "in_range tpn (filtTpMin r) (filtTpMax r)"
    | "\<not> in_range tpn (filtTpMin r) (filtTpMax r)" "in_range tpn (xTpMin r) (xTpMax r)"
    | "\<not> in_range tpn (filtTpMin r) (filtTpMax r)" "\<not> in_range tpn (xTpMin r) (xTpMax r)" by blast
  then show ?thesis
  proof cases
    case 1
    obtain e where e: "fm_testpoint r tpn e0 = Some e" "source_ok (maxModules env) e" "entry_for r tpn e" using fm_testpoint_ok [OF env 1] by blast
    have "ltype e = 0" using e(1) by (auto simp: fm_testpoint_def Let_def split: if_splits)
    then show ?thesis
      using fill [of "e\<lparr>decFactor := 1\<rparr>" "2 + sysoffs" tpn] e 1 idx assms(4)
      by (simp add: add_testpoint_def Let_def source_ok_def entry_for_def flip: r_def e0_def)
  next
    case 2
    define e where "e = e0\<lparr>ltype := 1, sigNum := from_min tpn (xTpMin r), decFactor := 1\<rparr>"
    have "source_ok (maxModules env) e" "entry_for r tpn e" "decFactor e = 1" "ltype e = 1"
      using from_min_bounds [OF 2(2)] range_bounds(3) [OF env] 2(2) by (simp_all add: e_def source_ok_def entry_for_def)
    then show ?thesis
      using fill [of e "2 + sysoffs" tpn] 2 idx assms(4)
      by (simp add: add_testpoint_def Let_def e_def [symmetric] flip: r_def e0_def)
  qed (use assms(2) in \<open>simp add: add_testpoint_def Let_def flip: r_def\<close>)
qed

lemma add_excitation_ok:
  assumes "env_ok env" "slots_ok env st" "empty_slot (tpNum st) = Some slot" "sysoffs < 2"
  shows "\<exists>st'. add_excitation env sysoffs slot ii tpn st = Some st' \<and> slots_ok env st' \<and> but_slots st' = but_slots st"
proof -
  define r where "r = daqRange env"
  obtain slow where env: "r = daq_range slow (maxModules env)" "1 \<le> maxModules env" "maxModules env \<le> 1000"
    using assms(1) by (auto simp: env_ok_def r_def)
  have slot: "slot < 64" "length (excTable st) = 512"
    using empty_slot_Some(1) [OF assms(3)] assms(2) by (simp_all add: slots_ok_def arrays_ok_def)
  note idx = slot_index_ok [OF assms(2) slot(1)]
  define e0 where "e0 = localTable st ! slot_pos st slot"
  have fill: "slots_ok env (fill_exc_slot slot (slot_pos st slot) e sysoffs ii tpn st)"
    "but_slots (fill_exc_slot slot (slot_pos st slot) e sysoffs ii tpn st) = but_slots st"
    if "source_ok (maxModules env) e" "2 \<le> ltype e" "entry_for r tpn e" for e
  proof -
    define e1 where "e1 = e\<lparr>sigNum := int ii, decFactor := 1\<rparr>"
    define x where "x = (excTable st ! slot)\<lparr>sigNum := sint tpn, sysNum := sysNum e1, fmNum := fmNum e1, loffset := int ii\<rparr>"
    define st1 where "st1 = st\<lparr>excTable := (excTable st)[slot := x]\<rparr>"
    have "slot_clean env st1 i = slot_clean env st i" if "i \<noteq> slot" for i
      using that by (simp add: slot_clean_def st1_def slot_pos_def)
    then have "slots_except slot env st1"
      using assms(2) by (auto simp: slots_ok_def slots_except_def arrays_ok_def st1_def)
    moreover have "empty_slot (tpNum st1) = Some slot" "slot_pos st1 slot = slot_pos st slot"
      using assms(3) by (simp_all add: st1_def slot_pos_def)
    moreover have "source_ok (maxModules env) e1" "decFactor e1 = 1" "entry_for (daqRange env) tpn e1"
      using that by (auto simp: e1_def source_ok_def entry_for_def r_def)
    moreover have "fmNum (excTable st1 ! slot) = fmNum e1" using slot by (simp add: st1_def x_def)
    ultimately have "slots_ok env (fill_slot slot (slot_pos st slot) e1 sysoffs tpn st1)"
      "but_slots (fill_slot slot (slot_pos st slot) e1 sysoffs tpn st1) = but_slots st1"
      using fill_slot_ok [of slot env st1 e1 sysoffs tpn] assms(4) by auto
    moreover have "fill_exc_slot slot (slot_pos st slot) e sysoffs ii tpn st = fill_slot slot (slot_pos st slot) e1 sysoffs tpn st1"
      by (simp add: fill_exc_slot_def Let_def e1_def st1_def x_def)
    moreover have "but_slots st1 = but_slots st" by (simp add: but_slots_def st1_def)
    ultimately show "slots_ok env (fill_exc_slot slot (slot_pos st slot) e sysoffs ii tpn st)"
      "but_slots (fill_exc_slot slot (slot_pos st slot) e sysoffs ii tpn st) = but_slots st" by simp_all
  qed
  consider "in_range tpn (filtExMin r) (filtExMax r)"
    | "\<not> in_range tpn (filtExMin r) (filtExMax r)" "in_range tpn (xExMin r) (xExMax r)"
    | "\<not> in_range tpn (filtExMin r) (filtExMax r)" "\<not> in_range tpn (xExMin r) (xExMax r)" by blast
  then show ?thesis
  proof cases
    case 1
    define e where "e = e0\<lparr>ltype := 2, sysNum := from_min tpn (filtExMin r) sdiv filtExSize r,
      fmNum := from_min tpn (filtExMin r) smod filtExSize r\<rparr>"
    have "source_ok (maxModules env) e" "entry_for r tpn e"
      using from_min_bounds [OF 1] range_bounds(2) [OF env] 1 by (simp_all add: e_def source_ok_def entry_for_def smod_nonneg)
    then show ?thesis
      using fill [of e] 1 idx range_bounds(2) [OF env] env(2)
      by (simp add: add_excitation_def Let_def e_def flip: r_def e0_def)
  next
    case 2
    define e where "e = e0\<lparr>ltype := 3, sysNum := 0, fmNum := from_min tpn (xExMin r)\<rparr>"
    have "source_ok (maxModules env) e" "entry_for r tpn e"
      using from_min_bounds [OF 2(2)] range_bounds(4) [OF env] 2(2) by (simp_all add: e_def source_ok_def entry_for_def)
    then show ?thesis
      using fill [of e] 2 idx by (simp add: add_excitation_def Let_def e_def flip: r_def e0_def)
  qed (use assms(2) in \<open>simp add: add_excitation_def Let_def flip: r_def\<close>)
qed

lemma select_new_ok:
  assumes "env_ok env" "slots_ok env st" "sysoffs < 2"
  shows "\<exists>st'. select_new env sysoffs ns st = Some st' \<and> slots_ok env st' \<and> but_slots st' = but_slots st"
  using assms(2)
proof (induction ns arbitrary: st)
  case (Cons n ns)
  obtain exc ii tpn where n: "n = (exc, ii, tpn)" by (cases n)
  show ?case
  proof (cases "tpn = 0 \<or> empty_slot (tpNum st) = None")
    case True
    then show ?thesis using Cons n by auto
  next
    case False
    then obtain slot where slot: "empty_slot (tpNum st) = Some slot" "tpn \<noteq> 0" by auto
    define add where "add = (if exc then add_excitation env sysoffs slot ii tpn st else add_testpoint env sysoffs slot tpn st)"
    obtain st1 where st1: "add = Some st1" "slots_ok env st1" "but_slots st1 = but_slots st"
      using add_testpoint_ok [OF assms(1) Cons.prems slot(1) assms(3), of tpn]
        add_excitation_ok [OF assms(1) Cons.prems slot(1) assms(3), of ii tpn] by (cases exc) (auto simp: add_def)
    then have "select_new env sysoffs (n # ns) st = select_new env sysoffs ns st1" using slot by (simp add: n add_def)
    then show ?thesis using Cons.IH [OF st1(2)] st1(3) by auto
  qed
qed auto

section \<open>The transmission\<close>

lemma num_tps_props:
  "num_tps ts \<le> length ts" "i < num_tps ts \<Longrightarrow> used ts i" "num_tps ts \<le> i \<Longrightarrow> i < length ts \<Longrightarrow> ts ! i = 0"
proof -
  define k where "k = length (takeWhile (\<lambda>t. t = 0) (rev ts))"
  have k: "k + num_tps ts = length ts"
    unfolding k_def num_tps_def by (metis length_append length_rev takeWhile_dropWhile_id)
  then show "num_tps ts \<le> length ts" by simp
  have "rev ts ! j = 0" if "j < k" for j
    using that nth_mem [of j "takeWhile (\<lambda>t. t = 0) (rev ts)"] by (auto simp: k_def takeWhile_nth dest: set_takeWhileD)
  then have zero: "ts ! j = 0" if "num_tps ts \<le> j" "j < length ts" for j
    using that k rev_nth [of "length ts - Suc j" ts] by (simp add: Suc_diff_Suc)
  then show "num_tps ts \<le> i \<Longrightarrow> i < length ts \<Longrightarrow> ts ! i = 0" by blast
  assume i: "i < num_tps ts"
  then have "k < length (rev ts)" using k by simp
  then have "rev ts ! k \<noteq> 0" using nth_length_takeWhile [of "\<lambda>t. t = 0" "rev ts"] by (simp add: k_def)
  moreover have "rev ts ! k = ts ! (length ts - Suc k)" using \<open>k < length (rev ts)\<close> by (simp add: rev_nth)
  moreover have "length ts - Suc k = num_tps ts - 1" using k by simp
  ultimately have "ts ! (num_tps ts - 1) \<noteq> 0" by simp
  then show "used ts i" using i k by (auto simp: used_def intro!: exI [of _ "num_tps ts - 1"])
qed

text \<open>After the check the slots that are transmitted lie one behind the other after the channels.\<close>

definition slots_placed :: "daq_env \<Rightarrow> nat \<Rightarrow> daq_st \<Rightarrow> bool" where
  "slots_placed env n st \<longleftrightarrow> (\<forall>i < n. loffset (localTable st ! slot_pos st i) = tpStart st + int i * (sysRate env * 4))"

lemma tp_offsets_ok:
  assumes "slots_ok env st" "m + length is \<le> 64" "is = [m..<m + length is]" "slots_placed env m st"
    and "offsetAccum (xferInfo st) = tpStart st + int m * (sysRate env * 4)"
  shows "\<exists>lt acc g st'. tp_offsets env is st = Some st' \<and>
    st' = st\<lparr>localTable := lt, xferInfo := (xferInfo st)\<lparr>offsetAccum := acc\<rparr>, gdsMonitor := g\<rparr> \<and>
    slots_ok env st' \<and> slots_placed env (m + length is) st' \<and>
    take (nat (numChans (dataInfo st))) lt = take (nat (numChans (dataInfo st))) (localTable st)"
  using assms
proof (induction "is" arbitrary: m st)
  case Nil
  then show ?case
    by (intro exI [of _ "localTable st"] exI [of _ "offsetAccum (xferInfo st)"] exI [of _ "gdsMonitor st"] exI [of _ st]) simp
next
  case (Cons i "is")
  have "[m..<m + length (i # is)] = m # [m + 1..<m + 1 + length is]" by (simp add: upt_conv_Cons del: upt_Suc)
  then have i: "i = m" "is = [m + 1..<m + 1 + length is]" "m < 64" using Cons.prems(2,3) by (simp_all del: upt_Suc)
  define k where "k = slot_pos st m"
  have k: "k < 512" "nat (numChans (dataInfo st)) \<le> k" "slot_index st m = Some k"
    using slot_pos_less [OF Cons.prems(1) i(3)] slot_index_ok [OF Cons.prems(1) i(3)] by (auto simp: k_def slot_pos_def)
  have len: "length (localTable st) = 512" "length (gdsMonitor st) = 32"
    using Cons.prems(1) by (simp_all add: slots_ok_def arrays_ok_def)
  define lt where "lt = (localTable st)[k := (localTable st ! k)\<lparr>loffset := offsetAccum (xferInfo st)\<rparr>]"
  define g where "g = (if m < 32 then (gdsMonitor st)[m := tpNum st ! m] else gdsMonitor st)"
  define st1 where "st1 = st\<lparr>localTable := lt, xferInfo := (xferInfo st)\<lparr>offsetAccum := offsetAccum (xferInfo st) + sysRate env * 4\<rparr>,
    gdsMonitor := g\<rparr>"
  have run: "tp_offsets env (i # is) st = tp_offsets env is st1"
    using k(3) by (simp add: i(1) Let_def st1_def lt_def g_def)
  have src: "source_ok (maxModules env) (lt ! j) = source_ok (maxModules env) (localTable st ! j)"
    "decFactor (lt ! j) = decFactor (localTable st ! j)" "ltype (lt ! j) = ltype (localTable st ! j)"
    "fmNum (lt ! j) = fmNum (localTable st ! j)" "entry_for r t (lt ! j) = entry_for r t (localTable st ! j)" for j r t
    using k(1) len(1) by (auto simp: lt_def nth_list_update source_ok_def entry_for_def)
  have "slot_clean env st1 j = slot_clean env st j" for j
    by (simp add: slot_clean_def Let_def slot_pos_def st1_def src)
  then have ok: "slots_ok env st1"
    using Cons.prems(1) len by (auto simp: slots_ok_def arrays_ok_def st1_def lt_def g_def)
  have placed: "slots_placed env (m + 1) st1"
    using Cons.prems(4,5) k(1) len(1)
    by (auto simp: slots_placed_def st1_def lt_def slot_pos_def nth_list_update less_Suc_eq k_def)
  obtain lt' acc g' st' where more: "tp_offsets env is st1 = Some st'"
    "st' = st1\<lparr>localTable := lt', xferInfo := (xferInfo st1)\<lparr>offsetAccum := acc\<rparr>, gdsMonitor := g'\<rparr>"
    "slots_ok env st'" "slots_placed env (m + 1 + length is) st'"
    "take (nat (numChans (dataInfo st1))) lt' = take (nat (numChans (dataInfo st1))) (localTable st1)"
    using Cons.IH [OF ok _ i(2) placed] Cons.prems(2,5) by (auto simp: st1_def algebra_simps)
  have "take (nat (numChans (dataInfo st))) lt = take (nat (numChans (dataInfo st))) (localTable st)"
    using k(2) by (simp add: lt_def)
  then have "take (nat (numChans (dataInfo st))) lt' = take (nat (numChans (dataInfo st))) (localTable st)"
    using more(5) by (simp add: st1_def)
  moreover have "st' = st\<lparr>localTable := lt', xferInfo := (xferInfo st)\<lparr>offsetAccum := acc\<rparr>, gdsMonitor := g'\<rparr>"
    using more(2) by (simp add: st1_def)
  ultimately show ?case
    using more(1,3,4) run by (intro exI [of _ lt'] exI [of _ acc] exI [of _ g'] exI [of _ st']) simp
qed

lemma testpoint_totals_ok:
  assumes "slots_ok env st"
  defines "n \<equiv> num_tps (tpNum st)"
  shows "\<exists>lt acc g st'. testpoint_totals env st = Some st' \<and>
    st' = st\<lparr>localTable := lt, totalChans := numChans (dataInfo st) + int n, validTp := int n,
      xferInfo := (xferInfo st)\<lparr>totalSize := crcLength (xferInfo st) + int n * sysRate env * 4, offsetAccum := acc\<rparr>,
      gdsMonitor := g\<rparr> \<and> slots_ok env st' \<and> slots_placed env n st' \<and>
    take (nat (numChans (dataInfo st))) lt = take (nat (numChans (dataInfo st))) (localTable st)"
proof -
  define x where "x = (xferInfo st)\<lparr>totalSize := crcLength (xferInfo st) + int n * sysRate env * 4, offsetAccum := tpStart st\<rparr>"
  define st0 where "st0 = st\<lparr>totalChans := numChans (dataInfo st) + int n, validTp := int n, xferInfo := x\<rparr>"
  have n: "n \<le> 64" using num_tps_props(1) [of "tpNum st"] assms(1) by (simp add: n_def slots_ok_def arrays_ok_def)
  have "slot_clean env st0 i = slot_clean env st i" for i by (simp add: slot_clean_def Let_def slot_pos_def st0_def)
  then have "slots_ok env st0" using assms(1) by (simp add: slots_ok_def arrays_ok_def st0_def)
  then obtain lt acc g s1 where off: "tp_offsets env [0..<n] st0 = Some s1"
    "s1 = st0\<lparr>localTable := lt, xferInfo := x\<lparr>offsetAccum := acc\<rparr>, gdsMonitor := g\<rparr>" "slots_ok env s1" "slots_placed env n s1"
    "take (nat (numChans (dataInfo st))) lt = take (nat (numChans (dataInfo st))) (localTable st)"
    using tp_offsets_ok [of env st0 0 "[0..<n]"] n by (auto simp: st0_def x_def slots_placed_def)
  define g' where "g' = take n g @ replicate (length g - n) 0"
  define st' where "st' = s1\<lparr>gdsMonitor := g'\<rparr>"
  have "length g = 32" using off(2,3) by (simp add: slots_ok_def arrays_ok_def)
  then have "length g' = 32" by (simp add: g'_def)
  moreover have "slot_clean env st' i = slot_clean env s1 i" for i by (simp add: slot_clean_def Let_def slot_pos_def st'_def)
  ultimately have "slots_ok env st'" "slots_placed env n st'"
    using off(3,4) by (auto simp: slots_ok_def arrays_ok_def slots_placed_def slot_pos_def st'_def)
  moreover have "testpoint_totals env st = Some st'"
    using off(1,2) by (simp add: testpoint_totals_def Let_def st0_def x_def n_def st'_def g'_def)
  moreover have "st' = st\<lparr>localTable := lt, totalChans := numChans (dataInfo st) + int n, validTp := int n,
      xferInfo := (xferInfo st)\<lparr>totalSize := crcLength (xferInfo st) + int n * sysRate env * 4, offsetAccum := acc\<rparr>, gdsMonitor := g'\<rparr>"
    using off(2) by (simp add: st'_def st0_def x_def)
  ultimately show ?thesis using off(5) by (intro exI [of _ lt] exI [of _ acc] exI [of _ g'] exI [of _ st']) simp
qed

section \<open>The check as a whole\<close>

text \<open>What the check does not touch: the position in the block and the second, the configuration and its channels.\<close>

definition kept :: "daq_st \<Rightarrow> (int \<times> int \<times> int \<times> int \<times> int \<times> int) \<times> DAQ_INFO_BLOCK \<times> int option \<times> int \<times> DAQ_INFO_LOCAL \<times>
    DAQ_LKUP_TABLE list \<times> (nat \<Rightarrow> u8) \<times> rmIpcStr \<times> u32 list list \<times> int \<times> u32 list \<times> int \<times> fp list list" where
  "kept st = ((wbase st, daqSlot st, daqBlockNum st, daqXmitBlockNum st, reconfig st, tpStart st), pInfo st, pEpicsFloat st,
     crcLength (xferInfo st), (dataInfo st)\<lparr>dtp := take (nat (numChans (dataInfo st))) (dtp (dataInfo st))\<rparr>,
     take (nat (numChans (dataInfo st))) (localTable st), swing st, dipc st,
     map fst (gdsTp st), tpCount st, tpShm st, validTpNet st, dHistory st)"

lemma kept_but_slots: "but_slots st' = but_slots st \<Longrightarrow> kept st' = kept st"
proof -
  have "kept (but_slots s) = kept s" for s by (simp add: kept_def but_slots_def)
  then show "but_slots st' = but_slots st \<Longrightarrow> kept st' = kept st" by metis
qed

lemma check_testpoints_ok:
  assumes "env_ok env" "slots_ok env st"
  shows "\<exists>st'. check_testpoints env st = Some st' \<and> slots_ok env st' \<and> kept st' = kept st \<and>
    validTp st' = int (num_tps (tpNum st')) \<and> totalChans st' = numChans (dataInfo st') + validTp st' \<and>
    slots_placed env (num_tps (tpNum st')) st' \<and>
    totalSize (xferInfo st') = crcLength (xferInfo st') + validTp st' * sysRate env * 4"
proof -
  define j :: nat where "j = (if sysRate env < 1024 then 1 else 0)"
  define ls where "ls = (take 64 (fst (gdsTp st ! (2 + j))), take 64 (fst (gdsTp st ! j)))"
  obtain tps exs s1 where s1: "deselect [0..<64] ls st = Some ((tps, exs), s1)" "slots_ok env s1" "but_slots s1 = but_slots st"
    using deselect_ok [OF assms(2), of "[0..<64]" ls] assms(1) by (auto simp: env_ok_def)
  define ns where "ns = map (\<lambda>i. (False, i, tps ! i)) [0..<64] @ map (\<lambda>i. (True, i, exs ! i)) [0..<64]"
  have "j < 2" by (simp add: j_def)
  obtain s2 where s2: "select_new env j ns s1 = Some s2" "slots_ok env s2" "but_slots s2 = but_slots s1"
    using select_new_ok [OF assms(1) s1(2), of j ns] \<open>j < 2\<close> by blast
  obtain lt acc g st' where st': "testpoint_totals env s2 = Some st'" "st' = s2\<lparr>localTable := lt,
      totalChans := numChans (dataInfo s2) + int (num_tps (tpNum s2)), validTp := int (num_tps (tpNum s2)),
      xferInfo := (xferInfo s2)\<lparr>totalSize := crcLength (xferInfo s2) + int (num_tps (tpNum s2)) * sysRate env * 4, offsetAccum := acc\<rparr>,
      gdsMonitor := g\<rparr>" "slots_ok env st'" "slots_placed env (num_tps (tpNum s2)) st'"
    "take (nat (numChans (dataInfo s2))) lt = take (nat (numChans (dataInfo s2))) (localTable s2)"
    using testpoint_totals_ok [OF s2(2)] by blast
  have "check_testpoints env st = Some st'"
    using s1(1) s2(1) st'(1) unfolding check_testpoints_def Let_def j_def [symmetric] ls_def [symmetric]
    by (simp add: ns_def)
  moreover have "kept s2 = kept st" using s1(3) s2(3) kept_but_slots by metis
  then have "kept st' = kept st" using st'(2,5) by (simp add: kept_def)
  moreover have "validTp st' = int (num_tps (tpNum st'))" "totalChans st' = numChans (dataInfo st') + validTp st'"
    "slots_placed env (num_tps (tpNum st')) st'" "totalSize (xferInfo st') = crcLength (xferInfo st') + validTp st' * sysRate env * 4"
    using st'(2,4) by simp_all
  ultimately show ?thesis using st'(3) by blast
qed

end
