(* ===== verification/DaqChoice.thy ===== *)
theory DaqChoice
  imports DaqSlots
begin

text \<open>
  What the check of the selections selects (\<open>src/include/drv/daqLib.c\<close>): nothing that the test point manager does not list, and
  everything that it lists and the front end knows, as long as there are slots.
\<close>

section \<open>The lists\<close>

lemma in_the_lists_from_props:
  assumes "in_the_lists_from n i tp off (tps, exs) = (found, tps', exs')" "i + n \<le> length tps" "i + n \<le> length exs"
  shows "length tps' = length tps \<and> length exs' = length exs \<and> set tps' \<subseteq> insert 0 (set tps) \<and> set exs' \<subseteq> insert 0 (set exs) \<and>
    (found \<longrightarrow> tp \<in> set tps \<union> set exs) \<and> (\<forall>t \<in> set tps. t \<in> set tps' \<or> found \<and> t = tp) \<and> (\<forall>t \<in> set exs. t \<in> set exs' \<or> found \<and> t = tp)"
  using assms
proof (induction n arbitrary: i)
  case (Suc n)
  have in_update: "t \<in> set (xs[i := 0])" if "t \<in> set xs" "t \<noteq> xs ! i" for t :: u32 and xs
    using that by (metis in_set_conv_nth length_list_update nth_list_update_neq)
  have "i < length tps" "i < length exs" using Suc.prems by simp_all
  then show ?case
    using Suc.prems Suc.IH [of "i + 1"] in_update set_update_subset_insert [of tps i 0] set_update_subset_insert [of exs i 0]
    by (auto split: if_splits)
qed auto

lemma in_the_lists_props:
  assumes "in_the_lists tp off (tps, exs) = (found, tps', exs')" "length tps = 64" "length exs = 64"
  shows "length tps' = 64" "length exs' = 64" "set tps' \<subseteq> insert 0 (set tps)" "set exs' \<subseteq> insert 0 (set exs)"
    "found \<Longrightarrow> tp \<in> set tps \<union> set exs" "t \<in> set tps \<Longrightarrow> t \<in> set tps' \<or> found \<and> t = tp"
    "t \<in> set exs \<Longrightarrow> t \<in> set exs' \<or> found \<and> t = tp"
  using in_the_lists_from_props [of 64 0 tp off tps exs found tps' exs'] assms by (auto simp: in_the_lists_def)

lemma deselect_keeps_listed:
  assumes "deselect is (tps, exs) st = Some ((tps', exs'), st')" "slots_ok env st" "1 \<le> maxModules env" "\<forall>i \<in> set is. i < 64" "distinct is"
    and "length tps = 64" "length exs = 64"
  shows "length tps' = 64 \<and> length exs' = 64 \<and> set tps' \<subseteq> insert 0 (set tps) \<and> set exs' \<subseteq> insert 0 (set exs) \<and>
    (\<forall>i. i \<notin> set is \<longrightarrow> tpNum st' ! i = tpNum st ! i) \<and>
    (\<forall>i \<in> set is. tpNum st' ! i = 0 \<or> tpNum st' ! i \<in> set tps \<union> set exs) \<and>
    (\<forall>t \<in> set tps. t = 0 \<or> t \<in> set tps' \<or> (\<exists>i \<in> set is. tpNum st' ! i = t)) \<and>
    (\<forall>t \<in> set exs. t = 0 \<or> t \<in> set exs' \<or> (\<exists>i \<in> set is. tpNum st' ! i = t))"
  using assms
proof (induction "is" arbitrary: tps exs st)
  case (Cons i "is")
  show ?case
  proof (cases "tpNum st ! i = 0")
    case True
    then have d: "deselect is (tps, exs) st = Some ((tps', exs'), st')" using Cons.prems(1) by simp
    have "tpNum st' ! i = 0" using Cons.IH [OF d Cons.prems(2,3)] Cons.prems(4-7) True by simp
    then show ?thesis using Cons.IH [OF d Cons.prems(2,3)] Cons.prems(4-7) True by auto
  next
    case False
    obtain found tps1 exs1 where f: "in_the_lists (tpNum st ! i) (loffset (excTable st ! i)) (tps, exs) = (found, tps1, exs1)"
      by (metis surj_pair)
    note p = in_the_lists_props [OF f Cons.prems(6,7)]
    obtain st1 where st1: "deselect is (tps1, exs1) st1 = Some ((tps', exs'), st')" "slots_ok env st1"
      "tpNum st1 = (if found then tpNum st else (tpNum st)[i := 0])"
    proof (cases found)
      case True
      then show ?thesis using that [of st] Cons.prems(1,2) False f by simp
    next
      case not_found: False
      obtain s1 where "free_slot i st = Some s1" "slots_ok env s1" "tpNum s1 = (tpNum st)[i := 0]"
        using free_slot_ok [OF Cons.prems(2,3), of i] Cons.prems(4) False by auto
      then show ?thesis using that [of s1] Cons.prems(1) False f not_found by simp
    qed
    have i: "i \<notin> set is" "\<forall>j \<in> set is. j < 64" "distinct is" "i < length (tpNum st)"
      using Cons.prems(2,4,5) by (auto simp: slots_ok_def arrays_ok_def)
    note ih = Cons.IH [OF st1(1,2) Cons.prems(3) i(2,3) p(1,2)]
    have here: "tpNum st' ! i = (if found then tpNum st ! i else 0)" using ih st1(3) i(1,4) by simp
    have listed: "x = 0 \<or> x \<in> set tps \<union> set exs" if "x = 0 \<or> x \<in> set tps1 \<union> set exs1" for x using that p(3,4) by blast
    have "tpNum st' ! j = tpNum st ! j" if "j \<notin> set (i # is)" for j using ih st1(3) that by simp
    moreover have "tpNum st' ! j = 0 \<or> tpNum st' ! j \<in> set tps \<union> set exs" if "j \<in> set (i # is)" for j
      using ih listed here p(5) that by (cases "j = i") (auto split: if_splits)
    moreover have "t = 0 \<or> t \<in> set tps' \<or> (\<exists>j \<in> set (i # is). tpNum st' ! j = t)" if "t \<in> set tps" for t
      using p(6) [OF that] ih here by (cases "t \<in> set tps1") auto
    moreover have "t = 0 \<or> t \<in> set exs' \<or> (\<exists>j \<in> set (i # is). tpNum st' ! j = t)" if "t \<in> set exs" for t
      using p(7) [OF that] ih here by (cases "t \<in> set exs1") auto
    moreover have "set tps' \<subseteq> insert 0 (set tps)" "set exs' \<subseteq> insert 0 (set exs)" using ih p(3,4) by blast+
    ultimately show ?thesis using ih by blast
  qed
qed auto

section \<open>New numbers\<close>

text \<open>A number that the front end can select, as an excitation or as a test point.\<close>

definition selectable :: "daq_env \<Rightarrow> bool \<Rightarrow> u32 \<Rightarrow> bool" where
  "selectable env exc t \<longleftrightarrow>
     (let r = daqRange env
      in if exc then in_range t (filtExMin r) (filtExMax r) \<or> in_range t (xExMin r) (xExMax r)
         else in_range t (filtTpMin r) (filtTpMax r) \<or> in_range t (xTpMin r) (xTpMax r))"

lemma add_testpoint_number:
  "add_testpoint env sysoffs slot tpn st = Some st' \<Longrightarrow>
    tpNum st' = (if selectable env False tpn then (tpNum st)[slot := tpn] else tpNum st)"
  by (auto simp: add_testpoint_def selectable_def Let_def fill_slot_def clear_status_def set_dataType_def
      split: if_splits option.splits)

lemma add_excitation_number:
  "add_excitation env sysoffs slot ii tpn st = Some st' \<Longrightarrow>
    tpNum st' = (if selectable env True tpn then (tpNum st)[slot := tpn] else tpNum st)"
  by (auto simp: add_excitation_def selectable_def Let_def fill_exc_slot_def fill_slot_def clear_status_def set_dataType_def
      split: if_splits option.splits)

lemma empty_slot_from_None: "empty_slot_from ts i = None \<longleftrightarrow> 0 \<notin> set ts"
  by (induction ts arbitrary: i) auto

lemma select_new_numbers:
  assumes "select_new env sysoffs ns st = Some st'"
  shows "length (tpNum st') = length (tpNum st) \<and>
    (\<forall>i < length (tpNum st). tpNum st ! i \<noteq> 0 \<longrightarrow> tpNum st' ! i = tpNum st ! i) \<and>
    (\<forall>i < length (tpNum st). tpNum st' ! i \<noteq> tpNum st ! i \<longrightarrow> (\<exists>exc ii. (exc, ii, tpNum st' ! i) \<in> set ns)) \<and>
    (\<forall>exc ii t. (exc, ii, t) \<in> set ns \<and> t \<noteq> 0 \<and> selectable env exc t \<longrightarrow> t \<in> set (tpNum st') \<or> 0 \<notin> set (tpNum st'))"
  using assms
proof (induction ns arbitrary: st)
  case (Cons n ns)
  obtain exc ii tpn where n: "n = (exc, ii, tpn)" by (cases n)
  consider "tpn = 0" | "empty_slot (tpNum st) = None" "tpn \<noteq> 0" | slot where "empty_slot (tpNum st) = Some slot" "tpn \<noteq> 0" by blast
  then show ?case
  proof cases
    case 1
    then show ?thesis using Cons n by fastforce
  next
    case 2
    then have "st' = st" using Cons.prems n by simp
    moreover have "0 \<notin> set (tpNum st)" using 2(1) by (simp add: empty_slot_def empty_slot_from_None)
    ultimately show ?thesis by simp
  next
    case (3 slot)
    define add where "add = (if exc then add_excitation env sysoffs slot ii tpn st else add_testpoint env sysoffs slot tpn st)"
    obtain st1 where st1: "add = Some st1" "select_new env sysoffs ns st1 = Some st'"
      using Cons.prems 3 n by (auto simp: add_def split: option.splits)
    have num: "tpNum st1 = (if selectable env exc tpn then (tpNum st)[slot := tpn] else tpNum st)"
      using st1(1) add_testpoint_number add_excitation_number by (cases exc) (auto simp: add_def)
    note free = empty_slot_Some [OF 3(1)] and ih = Cons.IH [OF st1(2)]
    have len: "length (tpNum st') = length (tpNum st)" using ih num by simp
    have "tpNum st' ! i = tpNum st ! i" if "i < length (tpNum st)" "tpNum st ! i \<noteq> 0" for i
    proof -
      have "tpNum st1 ! i = tpNum st ! i" using that free(2) num by (cases "i = slot") auto
      then show ?thesis using ih that num by auto
    qed
    moreover have "\<exists>e j. (e, j, tpNum st' ! i) \<in> set (n # ns)" if "i < length (tpNum st)" "tpNum st' ! i \<noteq> tpNum st ! i" for i
    proof (cases "tpNum st' ! i = tpNum st1 ! i")
      case True
      then have "tpNum st' ! i = tpn" using that num free(1) by (cases "i = slot") (auto split: if_splits)
      then show ?thesis by (auto simp: n)
    next
      case False
      have "i < length (tpNum st1)" using that(1) num by simp
      then show ?thesis using ih False by (metis list.set_intros(2))
    qed
    moreover have "t \<in> set (tpNum st') \<or> 0 \<notin> set (tpNum st')"
      if "(e, j, t) \<in> set (n # ns)" "t \<noteq> 0" "selectable env e t" for e j t
    proof (cases "(e, j, t) \<in> set ns")
      case False
      then have "tpNum st1 ! slot = t" "slot < length (tpNum st1)" using that n num free(1) by auto
      then have "tpNum st' ! slot = t" "slot < length (tpNum st')" using ih that(2) len num by auto
      then show ?thesis by auto
    qed (use ih that in blast)
    ultimately show ?thesis using len by blast
  qed
qed simp

section \<open>The check\<close>

definition tp_list :: "daq_env \<Rightarrow> bool \<Rightarrow> daq_st \<Rightarrow> u32 list" where
  "tp_list env exc st = take 64 (fst (gdsTp st ! ((if exc then 0 else 2) + (if sysRate env < 1024 then 1 else 0))))"

lemma tp_list_cong:
  assumes "map fst (gdsTp st) = map fst (gdsTp st')" "length (gdsTp st) = 4" "length (gdsTp st') = 4"
  shows "tp_list env exc st = tp_list env exc st'"
proof -
  define j :: nat where "j = (if exc then 0 else 2) + (if sysRate env < 1024 then 1 else 0)"
  have "j < 4" by (simp add: j_def)
  then have "fst (gdsTp st ! j) = fst (gdsTp st' ! j)" using assms by (metis nth_map)
  then show ?thesis by (simp add: tp_list_def j_def)
qed

definition selection_right :: "daq_env \<Rightarrow> (bool \<Rightarrow> u32 list) \<Rightarrow> u32 list \<Rightarrow> bool" where
  "selection_right env lst ts \<longleftrightarrow>
     (\<forall>t \<in> set ts. t = 0 \<or> (\<exists>exc. t \<in> set (lst exc))) \<and>
     (\<forall>exc. \<forall>t \<in> set (lst exc). t \<noteq> 0 \<and> selectable env exc t \<longrightarrow> t \<in> set ts \<or> 0 \<notin> set ts)"

lemma check_selects:
  assumes "env_ok env" "slots_ok env st" "check_testpoints env st = Some st'"
  shows "selection_right env (\<lambda>exc. tp_list env exc st) (tpNum st')"
proof -
  define j :: nat where "j = (if sysRate env < 1024 then 1 else 0)"
  define T X where "T = tp_list env False st" and "X = tp_list env True st"
  have j: "j < 2" by (simp add: j_def)
  have TX: "T = take 64 (fst (gdsTp st ! (2 + j)))" "X = take 64 (fst (gdsTp st ! j))"
    by (simp_all add: T_def X_def tp_list_def j_def)
  have len: "length T = 64" "length X = 64" "length (tpNum st) = 64"
    using assms(2) j by (auto simp: TX slots_ok_def arrays_ok_def)
  obtain tps exs s1 where s1: "deselect [0..<64] (T, X) st = Some ((tps, exs), s1)" "slots_ok env s1"
    using deselect_ok [OF assms(2), of "[0..<64]" "(T, X)"] assms(1) by (auto simp: env_ok_def)
  have m: "1 \<le> maxModules env" using assms(1) by (simp add: env_ok_def)
  have slots: "(\<exists>i \<in> set [0..<64]. P i) \<longleftrightarrow> (\<exists>i < 64. P i)" for P :: "nat \<Rightarrow> bool" by auto
  note d = deselect_keeps_listed [OF s1(1) assms(2) m _ _ len(1,2), unfolded slots]
  define ns where "ns = map (\<lambda>i. (False, i, tps ! i)) [0..<64] @ map (\<lambda>i. (True, i, exs ! i)) [0..<64]"
  obtain s2 where s2: "select_new env j ns s1 = Some s2" using select_new_ok [OF assms(1) s1(2) j] by blast
  have tot: "testpoint_totals env s2 = Some st'"
    using assms(3) s1(1) s2 unfolding check_testpoints_def Let_def j_def [symmetric] TX [symmetric] by (simp add: ns_def)
  obtain s3 where s3: "select_new env j ns s1 = Some s3" "slots_ok env s3" using select_new_ok [OF assms(1) s1(2) j] by blast
  then have "slots_ok env s2" using s2 by simp
  from testpoint_totals_ok [OF this] tot have same: "tpNum st' = tpNum s2" by auto
  have l1: "length (tpNum s1) = 64" using s1(2) by (simp add: slots_ok_def arrays_ok_def)
  have d: "length tps = 64" "length exs = 64" "set tps \<subseteq> insert 0 (set T)" "set exs \<subseteq> insert 0 (set X)"
    "\<And>i. i < 64 \<Longrightarrow> tpNum s1 ! i = 0 \<or> tpNum s1 ! i \<in> set T \<union> set X"
    "\<And>t. t \<in> set T \<Longrightarrow> t = 0 \<or> t \<in> set tps \<or> (\<exists>i < 64. tpNum s1 ! i = t)"
    "\<And>t. t \<in> set X \<Longrightarrow> t = 0 \<or> t \<in> set exs \<or> (\<exists>i < 64. tpNum s1 ! i = t)"
    using d by auto
  note sel = select_new_numbers [OF s2, unfolded l1]
  have ns: "(exc, i, t) \<in> set ns \<longleftrightarrow> i < 64 \<and> t = (if exc then exs else tps) ! i" for exc i t
    by (auto simp: ns_def)
  have sound: "t = 0 \<or> t \<in> set T \<union> set X" if t: "t \<in> set (tpNum s2)" for t
  proof -
    obtain i where i: "i < length (tpNum s2)" "tpNum s2 ! i = t" using t unfolding in_set_conv_nth by blast
    have l2: "length (tpNum s2) = 64" using sel by blast
    show ?thesis
    proof (cases "t = tpNum s1 ! i")
      case False
      then obtain exc ii where "(exc, ii, t) \<in> set ns" using sel i unfolding l2 by blast
      then have "t \<in> set tps \<union> set exs" using ns d(1,2) by (auto split: if_splits)
      then show ?thesis using d(3,4) by blast
    qed (use d(5) [of i] i l2 in simp)
  qed
  have keep: "t \<in> set (tpNum s2)" if "i < 64" "tpNum s1 ! i = t" "t \<noteq> 0" for i t
  proof -
    have "tpNum s2 ! i = t" "length (tpNum s2) = 64" using sel that by blast+
    then show ?thesis using that(1) nth_mem [of i "tpNum s2"] by simp
  qed
  have new: "t \<in> set (tpNum s2) \<or> 0 \<notin> set (tpNum s2)"
    if t: "t \<in> set (if exc then exs else tps)" "t \<noteq> 0" "selectable env exc t" for exc t
  proof -
    obtain i where "i < length (if exc then exs else tps)" "(if exc then exs else tps) ! i = t"
      using t(1) unfolding in_set_conv_nth by blast
    then have "i < 64" "(if exc then exs else tps) ! i = t" using d(1,2) by (simp_all split: if_splits)
    then have "(exc, i, t) \<in> set ns" using ns by simp
    then show ?thesis using sel t(2,3) by blast
  qed
  show ?thesis
    unfolding selection_right_def same
  proof (intro conjI allI ballI impI)
    fix t
    assume "t \<in> set (tpNum s2)"
    then show "t = 0 \<or> (\<exists>exc. t \<in> set (tp_list env exc st))" using sound by (auto simp: T_def X_def)
  next
    fix exc t
    assume t: "t \<in> set (tp_list env exc st)" "t \<noteq> 0 \<and> selectable env exc t"
    then have "t \<in> set (if exc then exs else tps) \<or> (\<exists>i < 64. tpNum s1 ! i = t)"
      using d(6,7) by (cases exc) (auto simp: T_def X_def)
    then show "t \<in> set (tpNum s2) \<or> 0 \<notin> set (tpNum s2)" using keep new t(2) by blast
  qed
qed

section \<open>Nothing selected\<close>

definition idle :: "daq_st \<Rightarrow> bool" where
  "idle st \<longleftrightarrow> (\<forall>t \<in> set (tpNum st). t = 0) \<and> (\<forall>l \<in> set (map fst (gdsTp st)). \<forall>t \<in> set (take 64 l). t = 0)"

lemma idle_cong: "tpNum st' = tpNum st \<Longrightarrow> map fst (gdsTp st') = map fst (gdsTp st) \<Longrightarrow> idle st' = idle st"
  by (simp only: idle_def)

lemma idle_unused: "idle st \<Longrightarrow> length (tpNum st) = 64 \<Longrightarrow> i < 64 \<Longrightarrow> \<not> used (tpNum st) i"
  by (auto simp: idle_def used_def)

lemma check_idle:
  assumes "env_ok env" "slots_ok env st" "check_testpoints env st = Some st'" "idle st"
  shows "idle st'"
proof -
  have len: "length (gdsTp st) = 4" using assms(2) by (simp add: slots_ok_def arrays_ok_def)
  obtain st'' where "check_testpoints env st = Some st''" "kept st'' = kept st" using check_testpoints_ok [OF assms(1,2)] by blast
  then have same: "map fst (gdsTp st') = map fst (gdsTp st)" using assms(3) by (simp add: kept_def)
  have zero: "t = 0" if "t \<in> set (tp_list env exc st)" for exc t
  proof -
    define j :: nat where "j = (if exc then 0 else 2) + (if sysRate env < 1024 then 1 else 0)"
    have "fst (gdsTp st ! j) \<in> set (map fst (gdsTp st))" using len by (auto simp: j_def)
    then show ?thesis using assms(4) that by (auto simp: idle_def tp_list_def j_def)
  qed
  have "t = 0" if "t \<in> set (tpNum st')" for t
    using check_selects [OF assms(1-3)] that zero by (auto simp: selection_right_def)
  then show ?thesis using assms(4) unfolding idle_def same by blast
qed

end
