(* ===== verification/DaqSafe.thy ===== *)
theory DaqSafe
  imports DaqChoice
begin

text \<open>
  The data acquisition of a front end from its start on (\<open>src/include/drv/daqLib.c\<close>): an invariant over all its calls, the changes
  that the front end, the test point manager and the configuration reader make in between included.
\<close>

section \<open>The invariant\<close>

text \<open>The tables are those of a sound configuration \<open>p\<close>, the slots that are transmitted lie behind its channels; \<open>slot\<close> is the
  one of the next call. A configuration that waits to be taken over has the same number of channels, or nothing is selected.\<close>

definition tables_ok :: "daq_env \<Rightarrow> DAQ_INFO_BLOCK \<Rightarrow> daq_st \<Rightarrow> bool" where
  "tables_ok env p st \<longleftrightarrow> info_fits env p \<and> info_copied env p (dataInfo st) \<and> laid_out env p (localTable st) \<and>
     crcLength (xferInfo st) = chan_start p (nat (numChans p)) \<and> tpStart st = chan_start p (nat (numChans p))"

definition slots_sent :: "daq_env \<Rightarrow> daq_st \<Rightarrow> bool" where
  "slots_sent env st \<longleftrightarrow> 0 \<le> validTp st \<and> validTp st \<le> 64 \<and>
     (\<exists>t \<le> 64. totalChans st = numChans (dataInfo st) + int t \<and> (\<forall>i < t. slot_clean env st i) \<and> slots_placed env t st)"

definition running :: "daq_env \<Rightarrow> int \<Rightarrow> daq_st \<Rightarrow> bool" where
  "running env slot st \<longleftrightarrow> slots_ok env st \<and> info_fits env (pInfo st) \<and>
     (numChans (pInfo st) = numChans (dataInfo st) \<or> idle st) \<and>
     slots_sent env st \<and> 0 \<le> wbase st \<and> wbase st \<le> 15 * buf_size \<and>
     (\<exists>p. tables_ok env p st \<and> floats_ready env p slot st)"

lemma chan_span_bound: "1 \<le> n \<Longrightarrow> n \<le> sr \<Longrightarrow> 4 \<le> sr \<Longrightarrow> chan_span ty n sr \<le> 8 * sr"
  by (auto simp: chan_span_def)

lemma env_rate:
  assumes "env_ok env"
  shows "4 \<le> sysRate env" "sysRate env \<le> 1024" "even (sysRate env)"
proof -
  obtain a where a: "a \<le> 10" "2 \<le> a" "sysRate env = 2 ^ a" using assms by (auto simp: env_ok_def)
  have "(2::int) ^ 2 \<le> 2 ^ a" "(2::int) ^ a \<le> 2 ^ 10" using a(1,2) by (intro power_increasing; simp)+
  then show "4 \<le> sysRate env" "sysRate env \<le> 1024" "even (sysRate env)" using a by simp_all
qed

lemma chan_samples:
  assumes "chan_ok env c"
  shows "1 \<le> uint (dataRate c) div 16" "uint (dataRate c) div 16 = 1 \<or> even (uint (dataRate c) div 16)"
proof -
  obtain k where k: "4 \<le> k" "k \<le> 14" "dataRate c = 2 ^ k" using assms by (auto simp: chan_ok_def)
  define j where "j = k - 4"
  have "uint (dataRate c) = 16 * 2 ^ j" using k uint_pow2 [of k] power_add [of "2 :: int" 4 j] by (simp add: j_def)
  then have q: "uint (dataRate c) div 16 = 2 ^ j" by simp
  have "(1::int) \<le> 2 ^ j" "(2::int) ^ j = 1 \<or> even ((2::int) ^ j)" by (simp, cases j, simp_all)
  then show "1 \<le> uint (dataRate c) div 16" "uint (dataRate c) div 16 = 1 \<or> even (uint (dataRate c) div 16)"
    unfolding q by blast+
qed

lemma chan_start_range:
  assumes "env_ok env" "info_fits env p" "i \<le> nat (numChans p)"
  shows "0 \<le> chan_start p i" "chan_start p i \<le> 0x40000"
proof -
  note b = chan_start_bounds [OF assms(2,3)] and e = info_fits_epics [OF assms(2)]
  have "1 \<le> maxModules env" "chan_start p (nat (numChans p)) \<le> 0x40000"
    using assms(1,2) by (simp_all add: env_ok_def info_fits_def)
  then show "0 \<le> chan_start p i" "chan_start p i \<le> 0x40000" using b e by linarith+
qed

lemma config_chan_safe:
  assumes "env_ok env" "tables_ok env p st" "j < nat (numChans p)"
  shows "chan_safe env st j"
proof -
  define n where "n = uint (dataRate (dtp p ! j)) div 16"
  have e: "source_ok (maxModules env) (localTable st ! j)" "0 < decFactor (localTable st ! j)"
    "decFactor (localTable st ! j) * n = sysRate env" "loffset (localTable st ! j) = chan_start p j"
    and p: "info_fits env p"
    using assms(2,3) by (auto simp: tables_ok_def laid_out_def entry_ok_def n_def)
  have c: "chan_ok env (dtp p ! j)" "nat (numChans p) \<le> 448" using p assms(3) by (auto simp: info_fits_def)
  note n = chan_samples [OF c(1), folded n_def]
  have "n \<le> sysRate env" using e(2,3) n(1) mult_right_mono [of 1 "decFactor (localTable st ! j)" n] by simp
  then have "chan_span (dataType (dtp (dataInfo st) ! j)) n (sysRate env) \<le> 8 * 1024"
    using chan_span_bound [OF n(1)] env_rate [OF assms(1)] by (meson mult_left_mono order_trans zero_le_numeral)
  moreover have "0 \<le> chan_start p j" "chan_start p j \<le> 0x40000" using chan_start_range [OF assms(1) p] assms(3) by simp_all
  ultimately show ?thesis
    using e n(2) c(2) assms(3) by (auto simp: chan_safe_def Let_def intro!: exI [of _ n])
qed

lemma slot_chan_safe:
  assumes "env_ok env" "tables_ok env p st" "t \<le> 64" "\<forall>i < t. slot_clean env st i" "slots_placed env t st" "i < t"
  shows "chan_safe env st (slot_pos st i)"
proof -
  have p: "info_fits env p" "numChans (dataInfo st) = numChans p" "tpStart st = chan_start p (nat (numChans p))"
    using assms(2) by (auto simp: tables_ok_def info_copied_def)
  define R where "R = sysRate env"
  note r = env_rate [OF assms(1), folded R_def]
  have "0 \<le> tpStart st" "tpStart st \<le> 0x40000"
    using chan_start_range [OF assms(1) p(1), of "nat (numChans p)"] p(3) by simp_all
  moreover have l: "loffset (localTable st ! slot_pos st i) = tpStart st + 4 * R * int i"
    using assms(5,6) by (simp add: slots_placed_def R_def)
  moreover have "R * int i + R \<le> 1024 * 64"
    using mult_mono [of R 1024 "int i + 1" 64] r assms(3,6) by (simp add: algebra_simps)
  moreover have "chan_span 4 R R = 4 * R" by (simp add: chan_span_def)
  moreover have "numChans p \<le> 448" using p(1) by (simp add: info_fits_def)
  then have "slot_pos st i < 512" using p(2) assms(3,6) by (simp add: slot_pos_def)
  moreover have "slot_clean env st i" using assms(4,6) by blast
  ultimately show ?thesis
    using r by (auto simp: chan_safe_def Let_def slot_clean_def simp flip: R_def intro!: exI [of _ R])
qed

lemma running_chans_safe:
  assumes "env_ok env" "running env slot st" "ii < nat (totalChans st)"
  shows "chan_safe env st ii"
proof -
  obtain p t where p: "tables_ok env p st" and t: "t \<le> 64" "totalChans st = numChans (dataInfo st) + int t"
    "\<forall>i < t. slot_clean env st i" "slots_placed env t st"
    using assms(2) by (auto simp: running_def slots_sent_def)
  have n: "numChans (dataInfo st) = numChans p" "0 \<le> numChans p"
    using p by (auto simp: tables_ok_def info_copied_def info_fits_def)
  show ?thesis
  proof (cases "ii < nat (numChans p)")
    case False
    then have "slot_pos st (ii - nat (numChans p)) = ii" "ii - nat (numChans p) < t"
      using n t(2) assms(3) by (auto simp: slot_pos_def)
    then show ?thesis using slot_chan_safe [OF assms(1) p t(1,3,4)] by metis
  qed (use config_chan_safe [OF assms(1) p] in blast)
qed

section \<open>One call\<close>

text \<open>The tables, and the other fields that only the end of a block changes.\<close>

definition table_fields :: "daq_st \<Rightarrow> (DAQ_LKUP_TABLE list \<times> DAQ_LKUP_TABLE list \<times> DAQ_INFO_LOCAL \<times> int \<times> u32 list) \<times>
    int \<times> int \<times> int \<times> DAQ_INFO_BLOCK" where
  "table_fields st = ((localTable st, excTable st, dataInfo st, crcLength (xferInfo st), tpNum st),
     tpStart st, validTp st, totalChans st, pInfo st)"

definition clock_fields :: "daq_st \<Rightarrow> (int \<times> int \<times> int \<times> int \<times> rmIpcStr) \<times> DAQ_INFO_BLOCK \<times> u32 list list" where
  "clock_fields st = ((wbase st, daqSlot st, daqBlockNum st, daqXmitBlockNum st, dipc st), pInfo st, map fst (gdsTp st))"

lemma running_same:
  assumes "running env slot st" "table_fields st' = table_fields st" "arrays_ok env st'" "0 \<le> wbase st'" "wbase st' \<le> 15 * buf_size"
    and "\<And>p. tables_ok env p st \<Longrightarrow> floats_ready env p slot st \<Longrightarrow> floats_ready env p slot' st'"
    and "numChans (pInfo st) = numChans (dataInfo st) \<or> map fst (gdsTp st') = map fst (gdsTp st) \<or> idle st'"
  shows "running env slot' st'"
proof -
  have eq: "localTable st' = localTable st" "excTable st' = excTable st" "dataInfo st' = dataInfo st" "crcLength (xferInfo st') = crcLength (xferInfo st)"
    "tpNum st' = tpNum st" "tpStart st' = tpStart st" "validTp st' = validTp st" "totalChans st' = totalChans st"
    "pInfo st' = pInfo st"
    using assms(2) by (simp_all add: table_fields_def)
  have c: "slot_clean env st' i = slot_clean env st i" "slot_pos st' i = slot_pos st i" for i
    by (simp_all add: slot_clean_def slot_pos_def eq)
  obtain p where p: "tables_ok env p st" "floats_ready env p slot st" using assms(1) by (auto simp: running_def)
  have "slots_ok env st'" using assms(1,3) by (simp add: running_def slots_ok_def c eq)
  moreover have "slots_sent env st'" using assms(1) by (simp add: running_def slots_sent_def slots_placed_def c eq)
  moreover have "tables_ok env p st'" using p(1) by (simp add: tables_ok_def eq)
  moreover have "numChans (pInfo st') = numChans (dataInfo st') \<or> idle st'"
    using assms(1,7) idle_cong [OF eq(5)] by (auto simp: running_def eq)
  ultimately show ?thesis using assms(1,4,5) assms(6) [OF p] by (simp add: running_def eq) blast
qed

lemma chan_region_block:
  assumes "chan_safe env st ii" "chan_region env st ii = (lo, hi)"
  shows "wbase st \<le> lo" "hi \<le> wbase st + buf_size"
proof -
  define e where "e = localTable st ! ii"
  obtain n where n: "0 < decFactor e" "0 \<le> loffset e" "decFactor e * n = sysRate env"
    "loffset e + chan_span (dataType (dtp (dataInfo st) ! ii)) n (sysRate env) \<le> buf_size"
    using assms(1) by (auto simp: chan_safe_def Let_def e_def)
  moreover have "sysRate env div decFactor e = n" using n(1) by (simp flip: n(3))
  ultimately show "wbase st \<le> lo" "hi \<le> wbase st + buf_size" using assms(2) by (auto simp: chan_region_def Let_def simp flip: e_def)
qed

lemma excitations_ok:
  assumes "env_ok env" "arrays_ok env st" "\<forall>ii < nat (totalChans st). chan_safe env st ii"
  shows "\<exists>st'. excitations env inp st = Some st' \<and> arrays_ok env st' \<and> table_fields st' = table_fields st \<and>
    clock_fields st' = clock_fields st \<and> reconfig st' = reconfig st \<and> swing st' = swing st \<and> pEpicsFloat st' = pEpicsFloat st"
proof -
  define s0 where "s0 = st\<lparr>excSlot := (excSlot st + 1) smod sysRate env, validEx := 0\<rparr>"
  define ns where "ns = [nat (numChans (dataInfo st))..<nat (totalChans st)]"
  have "arrays_ok env s0" "\<forall>ii \<in> set ns. chan_safe env s0 ii"
    using assms(2,3) by (auto simp: s0_def arrays_ok_def ns_def chan_safe_def)
  from read_excs_ok [OF this, of inp] obtain v d x where
    r: "read_excs inp ns s0 = Some (s0\<lparr>validEx := v, dsp := (dsp s0)\<lparr>fmdata := d\<rparr>, excSignal := x\<rparr>)"
    "length d = length (fmdata (dsp s0))" "length x = length (excSignal s0)" by blast
  define s1 where "s1 = s0\<lparr>validEx := v, dsp := (dsp s0)\<lparr>fmdata := d\<rparr>, excSignal := x\<rparr>"
  define s2 where "s2 = (if excSlot s1 = sysRate env - 1 then s1\<lparr>excBlockNum := (excBlockNum s1 + 1) smod 16\<rparr> else s1)"
  have "excitations env inp st = Some s2"
    using r(1) by (simp add: excitations_def Let_def s0_def s1_def s2_def ns_def)
  moreover have "arrays_ok env s2"
    using assms(2) r(2,3) by (auto simp: arrays_ok_def s2_def s1_def s0_def)
  moreover have "table_fields s2 = table_fields st" "clock_fields s2 = clock_fields st" "reconfig s2 = reconfig st"
    "swing s2 = swing st" "pEpicsFloat s2 = pEpicsFloat st"
    by (simp_all add: table_fields_def clock_fields_def s2_def s1_def s0_def)
  ultimately show ?thesis by blast
qed

lemma only_in_regions:
  assumes "\<forall>a. (\<forall>ii \<in> I. case R ii of (lo, hi) \<Rightarrow> int a < lo \<or> hi \<le> int a) \<longrightarrow> w' a = w a"
    and "\<And>ii x y. ii \<in> I \<Longrightarrow> R ii = (x, y) \<Longrightarrow> lo \<le> x \<and> y \<le> hi"
  shows "only_in lo hi w w'"
  unfolding only_in_def
proof (intro allI impI)
  fix a
  assume "int a < lo \<or> hi \<le> int a"
  then have out: "int a < x \<or> y \<le> int a" if "ii \<in> I" "R ii = (x, y)" for ii x y
    using assms(2) [OF that] by linarith
  have "case R ii of (x, y) \<Rightarrow> int a < x \<or> y \<le> int a" if "ii \<in> I" for ii
    using out [OF that, of "fst (R ii)" "snd (R ii)"] by (simp add: case_prod_beta)
  then show "w' a = w a" by (intro assms(1) [THEN spec, THEN mp] ballI)
qed

lemma samples_ok:
  assumes "env_ok env" "running env (daqSlot st) st" "500 \<le> length (tpData inp)" "0 \<le> daqSlot st" "daqSlot st < sysRate env"
  shows "\<exists>s1 s2 s3. write_chans inp [0..<nat (totalChans st)] st = Some s1 \<and> epics_values inp s1 = Some s2 \<and>
    excitations env inp s2 = Some s3 \<and> running env (daqSlot st + 1) s3 \<and> table_fields s3 = table_fields st \<and>
    clock_fields s3 = clock_fields st \<and> reconfig s3 = reconfig st \<and> only_in (wbase st) (wbase st + buf_size) (swing st) (swing s3) \<and>
    (\<exists>p. tables_ok env p st \<and> only_in (wbase st) (wbase st + 4 * numEpicsTotal p) (swing s1) (swing s3))"
proof -
  have arr: "arrays_ok env st" "0 \<le> wbase st" "wbase st \<le> 15 * buf_size" using assms(2) by (auto simp: running_def slots_ok_def)
  have safe: "\<forall>ii < nat (totalChans st). chan_safe env st ii" using running_chans_safe [OF assms(1,2)] by blast
  obtain h w where w: "write_chans inp [0..<nat (totalChans st)] st = Some (st\<lparr>dHistory := h, swing := w\<rparr>)" "hist_ok h"
    "\<forall>a. (\<forall>ii \<in> set [0..<nat (totalChans st)]. case chan_region env st ii of (lo, hi) \<Rightarrow> int a < lo \<or> hi \<le> int a) \<longrightarrow> w a = swing st a"
    using write_chans_ok [OF arr(1) _ assms(3-5) arr(2,3), of "[0..<nat (totalChans st)]"] safe by auto
  have in1: "only_in (wbase st) (wbase st + buf_size) (swing st) w"
    by (rule only_in_regions [OF w(3)]) (use chan_region_block safe in auto)
  define s1 where "s1 = st\<lparr>dHistory := h, swing := w\<rparr>"
  obtain p where p: "tables_ok env p st" "floats_ready env p (daqSlot st) st" using assms(2) by (auto simp: running_def)
  have pf: "info_fits env p" "info_copied env p (dataInfo s1)" "floats_ready env p (daqSlot s1) s1" "arrays_ok env s1"
    using p arr(1) w(2) by (auto simp: tables_ok_def s1_def floats_ready_def floats_at_def arrays_ok_def hist_ok_def)
  obtain f w' where e: "epics_values inp s1 = Some (s1\<lparr>pEpicsFloat := f, swing := w'\<rparr>)"
    "only_in (wbase st) (wbase st + 4 * numEpicsTotal p) w w'" "floats_ready env p (daqSlot st + 1) (s1\<lparr>pEpicsFloat := f\<rparr>)"
    using epics_values_ok [OF assms(1) pf(1,2,4) _ _ _ pf(3), of inp] assms(4) arr by (auto simp: s1_def)
  have in2: "only_in (wbase st) (wbase st + buf_size) w w'"
    using e(2) info_fits_epics(4) [OF pf(1)] by (elim only_in_mono) simp_all
  define s2 where "s2 = s1\<lparr>pEpicsFloat := f, swing := w'\<rparr>"
  have s2: "arrays_ok env s2" "\<forall>ii < nat (totalChans s2). chan_safe env s2 ii" "table_fields s2 = table_fields st"
    using pf(4) safe by (simp_all add: s2_def s1_def arrays_ok_def chan_safe_def table_fields_def)
  obtain s3 where s3: "excitations env inp s2 = Some s3" "arrays_ok env s3" "table_fields s3 = table_fields s2"
    "swing s3 = swing s2" "pEpicsFloat s3 = pEpicsFloat s2" "clock_fields s3 = clock_fields s2" "reconfig s3 = reconfig s2"
    using excitations_ok [OF assms(1) s2(1,2)] by blast
  have same: "table_fields s3 = table_fields st" "wbase s3 = wbase st" "pEpicsFloat s3 = f" "clock_fields s3 = clock_fields st"
    "reconfig s3 = reconfig st"
    using s2(3) s3(3,5-) by (simp_all add: clock_fields_def s2_def s1_def)
  have "floats_ready env q (daqSlot st + 1) s3" if "tables_ok env q st" for q
  proof -
    have "floats_at q s3 = floats_at p s3" using that p(1) by (simp add: tables_ok_def info_copied_def floats_at_def)
    then show ?thesis using e(3) same by (simp add: floats_ready_def floats_at_def s1_def)
  qed
  then have "running env (daqSlot st + 1) s3" using running_same [OF assms(2) same(1) s3(2)] arr(2,3) same(2,4) by (simp add: clock_fields_def)
  moreover have "only_in (wbase st) (wbase st + buf_size) (swing st) (swing s3)"
    using only_in_trans [OF in1 in2] s3(4) by (simp add: s2_def)
  moreover have "only_in (wbase st) (wbase st + 4 * numEpicsTotal p) (swing s1) (swing s3)"
    using e(2) s3(4) by (simp add: s2_def s1_def)
  ultimately show ?thesis
    using w(1) e(1) s3(1) same p(1) unfolding s1_def [symmetric] s2_def [symmetric]
    by (intro exI [of _ s1] exI [of _ s2] exI [of _ s3]) blast
qed

section \<open>A new configuration\<close>

text \<open>It leaves the slots behind the channels as they are.\<close>

lemma config_chans_frame:
  "config_chans src n ii tps len = Some (tps', len') \<Longrightarrow> ii + n \<le> j \<Longrightarrow> tps' ! j = tps ! j"
proof (induction n arbitrary: ii tps len)
  case (Suc n)
  then show ?case by (fastforce split: if_splits option.splits)
qed simp

definition unplaced :: "DAQ_LKUP_TABLE \<Rightarrow> DAQ_LKUP_TABLE" where
  "unplaced e = e\<lparr>loffset := 0\<rparr>"

lemma load_chans_frame:
  "load_chans env tps n ii lt acc = Some (0, lt', acc') \<Longrightarrow> ii + n \<le> j \<Longrightarrow> unplaced (lt' ! j) = unplaced (lt ! j)"
proof (induction n arbitrary: ii lt acc)
  case (Suc n)
  obtain e dcf acc1 where "load_chans env tps n (ii + 1)
      (lt[ii := (lt ! ii)\<lparr>decFactor := dcf\<rparr>, ii + 1 := (lt[ii := (lt ! ii)\<lparr>decFactor := dcf\<rparr>] ! (ii + 1))\<lparr>loffset := acc1\<rparr>, ii := e]) acc1 =
      Some (0, lt', acc')" "ii + 1 < length lt"
    using Suc.prems(1) by (auto simp: Let_def split: if_splits option.splits pstep.splits)
  from Suc.IH [OF this(1)] this(2) Suc.prems(2) show ?case by (cases "j = ii + 1") (simp_all add: unplaced_def)
qed simp

lemma daqConfig_frame:
  "daqConfig env st = Some (r, st') \<Longrightarrow> nat (numChans (pInfo st)) \<le> j \<Longrightarrow> dtp (dataInfo st') ! j = dtp (dataInfo st) ! j"
  by (auto simp: daqConfig_def Let_def epics_layout_frame dest: config_chans_frame split: if_splits option.splits)

lemma loadLocalTable_frame:
  assumes "loadLocalTable env st = Some (0, st')" "nat (numChans (dataInfo st)) \<le> j"
  shows "unplaced (localTable st' ! j) = unplaced (localTable st ! j)"
proof -
  define lt where "lt = (localTable st)[0 := (localTable st ! 0)\<lparr>loffset := 4 * numEpicsTotal (dataInfo st)\<rparr>]"
  obtain acc where "load_chans env (dtp (dataInfo st)) (nat (numChans (dataInfo st))) 0 lt (4 * numEpicsTotal (dataInfo st)) =
      Some (0, localTable st', acc)" "localTable st \<noteq> []"
    using assms(1) unfolding loadLocalTable_def Let_def lt_def [symmetric] by (auto split: if_splits option.splits)
  from load_chans_frame [OF this(1)] this(2) assms(2) show ?thesis
    by (cases "j = 0") (simp_all add: lt_def unplaced_def)
qed

lemma slot_clean_cong:
  assumes "unplaced (localTable st' ! slot_pos st i) = unplaced (localTable st ! slot_pos st i)"
    and "dtp (dataInfo st') ! slot_pos st i = dtp (dataInfo st) ! slot_pos st i"
    and "numChans (dataInfo st') = numChans (dataInfo st)" "excTable st' = excTable st" "tpNum st' = tpNum st"
  shows "slot_clean env st' i = slot_clean env st i"
proof -
  define k where "k = slot_pos st i"
  have k: "slot_pos st' i = k" by (simp add: slot_pos_def k_def assms(3))
  have "ltype (localTable st' ! k) = ltype (localTable st ! k) \<and> fmNum (localTable st' ! k) = fmNum (localTable st ! k) \<and>
      sigNum (localTable st' ! k) = sigNum (localTable st ! k) \<and> decFactor (localTable st' ! k) = decFactor (localTable st ! k)"
    using assms(1) unfolding k_def [symmetric] unplaced_def
    by (cases "localTable st' ! k"; cases "localTable st ! k") simp
  then show ?thesis using assms(2,4,5) unfolding slot_clean_def Let_def k k_def [symmetric] by (simp add: source_ok_def entry_for_def)
qed

lemma running_fields:
  assumes "running env slot st"
  shows "arrays_ok env st" "info_fits env (pInfo st)" "numChans (pInfo st) = numChans (dataInfo st) \<or> idle st"
    "0 \<le> numChans (dataInfo st)" "numChans (dataInfo st) \<le> 448" "0 \<le> validTp st" "validTp st \<le> 64" "0 \<le> wbase st"
    "wbase st \<le> 15 * buf_size" "i < 64 \<Longrightarrow> used (tpNum st) i \<Longrightarrow> slot_clean env st i"
  using assms by (auto simp: running_def slots_ok_def slots_sent_def)

lemma reconfigure_ok:
  assumes "env_ok env" "running env slot st"
  shows "\<exists>st'. reconfigure env st = Some st' \<and> running env 0 st' \<and> clock_fields st' = clock_fields st \<and> swing st' = swing st"
proof -
  note r = running_fields [OF assms(2)]
  define p where "p = pInfo st"
  define n where "n = nat (numChans p)"
  define s0 where "s0 = st\<lparr>reconfig := 0\<rparr>"
  obtain d off len where c: "daqConfig env s0 = Some (chan_start p n, s0\<lparr>dataInfo := d, pEpicsDblData := off, curDaqBlockSize := len\<rparr>)"
    "info_copied env p d"
    using daqConfig_copies [OF assms(1), of s0] r(1,2) by (auto simp: s0_def p_def n_def arrays_ok_def)
  define s1 where "s1 = s0\<lparr>dataInfo := d, pEpicsDblData := off, curDaqBlockSize := len,
    xferInfo := (xferInfo s0)\<lparr>crcLength := chan_start p n\<rparr>\<rparr>"
  obtain lt x where l: "loadLocalTable env s1 = Some (0, s1\<lparr>localTable := lt, xferInfo := x\<rparr>)" "laid_out env p lt"
    "crcLength x = chan_start p n" "offsetAccum x = chan_start p n"
    using loadLocalTable_lays_out [of env p s1] assms(1) r(1,2) c(2) by (auto simp: s1_def s0_def p_def n_def arrays_ok_def)
  have n: "numChans d = numChans p" "length (dtp d) = 512" "length lt = 512" "n \<le> 448" "0 \<le> numChans p" "numChans p \<le> 448"
    using c(2) l(2) r(2) by (auto simp: info_copied_def laid_out_def info_fits_def p_def n_def)
  have "dtp d ! j = dtp (dataInfo st) ! j" if "n \<le> j" for j
    using daqConfig_frame [OF c(1), of j] that by (simp add: s0_def p_def n_def)
  moreover have "unplaced (lt ! j) = unplaced (localTable st ! j)" if "n \<le> j" for j
    using loadLocalTable_frame [OF l(1), of j] that by (simp add: s1_def s0_def n(1) n_def)
  moreover define st' where "st' = s1\<lparr>localTable := lt, xferInfo := x,
    dHistory := replicate n (replicate MAX_HISTRY f0) @ drop n (dHistory s0), tpStart := chan_start p n, totalChans := numChans d\<rparr>"
  moreover have "n \<le> slot_pos st i" if "numChans p = numChans (dataInfo st)" for i using that by (simp add: slot_pos_def n_def)
  ultimately have same: "slot_clean env st' i = slot_clean env st i" if "numChans p = numChans (dataInfo st)" for i
    using that by (intro slot_clean_cong) (simp_all add: s1_def s0_def n(1))
  have st': "dataInfo st' = d" "localTable st' = lt" "tpNum st' = tpNum st" "xferInfo st' = x" "tpStart st' = chan_start p n"
    "totalChans st' = numChans d" "pInfo st' = p" "validTp st' = validTp st" "wbase st' = wbase st" "swing st' = swing st"
    by (simp_all add: st'_def s1_def s0_def p_def)
  have "chan_start p n \<noteq> 0"
    using chan_start_bounds(1) [of env p n] r(2) info_fits_epics [OF r(2)] assms(1) by (auto simp: p_def n_def env_ok_def)
  then have "reconfigure env st = Some st'"
    using c(1) l n(1) unfolding reconfigure_def s0_def [symmetric]
    by (simp add: Let_def s1_def [symmetric] s1_def st'_def n_def)
  moreover have arr: "arrays_ok env st'"
    using r(1) n(2-4) by (auto simp: arrays_ok_def st'_def s1_def s0_def dest: in_set_dropD)
  have "slot_clean env st' i" if "i < 64" "used (tpNum st) i" for i
    using r(3) that r(10) [OF that] same [of i] idle_unused [of st i] r(1) by (auto simp: arrays_ok_def p_def)
  with arr have "slots_ok env st'" using n(1,5,6) by (simp add: slots_ok_def st')
  moreover have "slots_sent env st'" using r(6,7) by (auto simp: slots_sent_def st' slots_placed_def intro!: exI [of _ 0])
  moreover have "tables_ok env p st'" using r(2) c(2) l(2,3) by (simp add: tables_ok_def st' p_def n_def)
  moreover have "floats_ready env p 0 st'" by (simp add: floats_ready_def)
  ultimately have "reconfigure env st = Some st'" "running env 0 st'"
    using r(2,8,9) n(1) by (auto simp: running_def st' p_def)
  then show ?thesis by (auto simp: clock_fields_def st'_def s1_def s0_def)
qed

section \<open>The end of a block\<close>

lemma tables_ok_kept:
  assumes "tables_ok env p st" "kept st' = kept st" "arrays_ok env st'"
  shows "tables_ok env p st'" "numChans (dataInfo st') = numChans (dataInfo st)"
proof -
  define n where "n = nat (numChans p)"
  define trunc where "trunc = (\<lambda>d :: DAQ_INFO_LOCAL. d\<lparr>dtp := take (nat (numChans d)) (dtp d)\<rparr>)"
  have k: "trunc (dataInfo st') = trunc (dataInfo st)" "crcLength (xferInfo st') = crcLength (xferInfo st)" "tpStart st' = tpStart st"
    "take (nat (numChans (dataInfo st'))) (localTable st') = take (nat (numChans (dataInfo st))) (localTable st)"
    using assms(2) by (simp_all add: kept_def trunc_def)
  have f: "numChans (trunc d) = numChans d" "numEpicsInts (trunc d) = numEpicsInts d" "numEpicsFloats (trunc d) = numEpicsFloats d"
    "numEpicsTotal (trunc d) = numEpicsTotal d" "numEpicsFiltXfers (trunc d) = numEpicsFiltXfers d"
    "numEpicsFiltsLast (trunc d) = numEpicsFiltsLast d" "cpyIntSize (trunc d) = cpyIntSize d"
    "dtp (trunc d) = take (nat (numChans d)) (dtp d)" for d
    by (simp_all add: trunc_def)
  have eq: "numChans (dataInfo st') = numChans (dataInfo st)" "numEpicsInts (dataInfo st') = numEpicsInts (dataInfo st)"
    "numEpicsFloats (dataInfo st') = numEpicsFloats (dataInfo st)" "numEpicsTotal (dataInfo st') = numEpicsTotal (dataInfo st)"
    "numEpicsFiltXfers (dataInfo st') = numEpicsFiltXfers (dataInfo st)" "numEpicsFiltsLast (dataInfo st') = numEpicsFiltsLast (dataInfo st)"
    "cpyIntSize (dataInfo st') = cpyIntSize (dataInfo st)"
    "take (nat (numChans (dataInfo st'))) (dtp (dataInfo st')) = take (nat (numChans (dataInfo st))) (dtp (dataInfo st))"
    using k(1) f by metis+
  then show n: "numChans (dataInfo st') = numChans (dataInfo st)" by simp
  have p: "numChans (dataInfo st) = numChans p" using assms(1) by (simp add: tables_ok_def info_copied_def)
  have "localTable st' ! j = localTable st ! j" "dtp (dataInfo st') ! j = dtp (dataInfo st) ! j" if "j < nat (numChans p)" for j
    using that k(4) eq(8) unfolding n p by (metis nth_take)+
  moreover have "length (dtp (dataInfo st')) = 512" "length (localTable st') = 512" using assms(3) by (simp_all add: arrays_ok_def)
  ultimately show "tables_ok env p st'"
    using assms(1) by (simp add: tables_ok_def info_copied_def laid_out_def eq k(2,3))
qed

lemma announced_ok:
  assumes "running env slot st" "0 \<le> daqXmitBlockNum st" "daqXmitBlockNum st < 16"
  shows "running env 0 (next_block (announce env inp st))"
proof (rule running_same [OF assms(1)])
  note r = running_fields [OF assms(1)]
  have v: "nat (validTp st) \<le> 64" using r(7) by simp
  show "arrays_ok env (next_block (announce env inp st))"
    using r(1) v by (simp add: arrays_ok_def next_block_def announce_def Let_def min_def)
  have "0 \<le> (daqXmitBlockNum st + 1) smod 16" "(daqXmitBlockNum st + 1) smod 16 < 16" using assms(2) by (simp_all add: smod_nonneg)
  then show "0 \<le> wbase (next_block (announce env inp st))" "wbase (next_block (announce env inp st)) \<le> 15 * buf_size"
    by (simp_all add: next_block_def announce_def Let_def)
qed (simp_all add: table_fields_def next_block_def announce_def Let_def floats_ready_def)

lemma check_running:
  assumes "env_ok env" "running env 0 st"
  shows "\<exists>st'. check_testpoints env st = Some st' \<and> running env 0 st' \<and> clock_fields st' = clock_fields st \<and> swing st' = swing st"
proof -
  note r = running_fields [OF assms(2)]
  obtain p where p: "tables_ok env p st" using assms(2) by (auto simp: running_def)
  obtain st' where st': "check_testpoints env st = Some st'" "slots_ok env st'" "kept st' = kept st"
    "validTp st' = int (num_tps (tpNum st'))" "totalChans st' = numChans (dataInfo st') + validTp st'"
    "slots_placed env (num_tps (tpNum st')) st'"
    using check_testpoints_ok [OF assms(1), of st] assms(2) by (auto simp: running_def)
  have arr: "arrays_ok env st'" using st'(2) by (simp add: slots_ok_def)
  define t where "t = num_tps (tpNum st')"
  have t: "t \<le> 64" using num_tps_props(1) [of "tpNum st'"] arr by (simp add: arrays_ok_def t_def)
  have "slot_clean env st' i" if "i < t" for i
    using that t st'(2) num_tps_props(2) by (auto simp: slots_ok_def t_def)
  then have "slots_sent env st'" using st'(4-6) t by (auto simp: slots_sent_def t_def)
  moreover note tables_ok_kept [OF p st'(3) arr]
  moreover have "clock_fields st' = clock_fields st" "swing st' = swing st" "pInfo st' = pInfo st" "wbase st' = wbase st"
    using st'(3) by (simp_all add: kept_def clock_fields_def)
  moreover have "idle st \<Longrightarrow> idle st'" using check_idle [OF assms(1) _ st'(1)] assms(2) by (simp add: running_def)
  ultimately show ?thesis
    using st'(1,2) r(2,3,8,9) by (auto simp: running_def floats_ready_def)
qed

lemma net_running:
  assumes "running env 0 st"
  shows "running env 0 (net_testpoints st)"
proof (rule running_same [OF assms])
  note r = running_fields [OF assms]
  have v: "nat (validTp st) \<le> 64" using r(7) by simp
  show "arrays_ok env (net_testpoints st)" using r(1) v by (simp add: arrays_ok_def net_testpoints_def Let_def min_def)
  show "0 \<le> wbase (net_testpoints st)" "wbase (net_testpoints st) \<le> 15 * buf_size"
    using r(8,9) by (simp_all add: net_testpoints_def Let_def)
qed (simp_all add: table_fields_def net_testpoints_def Let_def floats_ready_def)

lemma end_of_block_ok:
  assumes "env_ok env" "running env slot st" "0 \<le> daqXmitBlockNum st" "daqXmitBlockNum st < 16"
  shows "\<exists>st'. end_of_block env inp st = Some st' \<and> running env 0 st' \<and>
    clock_fields st' = clock_fields (next_block (announce env inp st)) \<and> swing st' = swing st"
proof -
  define t1 where "t1 = next_block (announce env inp st)"
  have t1: "running env 0 t1" "swing t1 = swing st"
    using announced_ok [OF assms(2-4)] by (simp_all add: t1_def next_block_def announce_def Let_def)
  obtain t2 where t2: "(if reconfig t1 = 1 \<and> daqBlockNum t1 = 0 then reconfigure env t1 else Some t1) = Some t2"
    "running env 0 t2" "clock_fields t2 = clock_fields t1" "swing t2 = swing t1"
    using reconfigure_ok [OF assms(1) t1(1)] t1(1) by (cases "reconfig t1 = 1 \<and> daqBlockNum t1 = 0") auto
  obtain t3 where t3: "(if daqBlockNum t2 = 15 then check_testpoints env t2 else Some t2) = Some t3"
    "running env 0 t3" "clock_fields t3 = clock_fields t2" "swing t3 = swing t2"
    using check_running [OF assms(1) t2(2)] t2(2) by (cases "daqBlockNum t2 = 15") auto
  define t4 where "t4 = (if daqBlockNum t3 = 0 then net_testpoints t3 else t3)"
  have t4: "running env 0 t4" "clock_fields t4 = clock_fields t3" "swing t4 = swing t3"
    using net_running [OF t3(2)] t3(2) by (simp_all add: t4_def clock_fields_def net_testpoints_def Let_def)
  have "end_of_block env inp st = Some t4"
    unfolding end_of_block_def Let_def t1_def [symmetric] t2(1) using t3(1) by (simp add: t4_def)
  then show ?thesis using t4 t3(3,4) t2(3,4) t1(2) by (simp flip: t1_def)
qed

section \<open>All calls\<close>

text \<open>Where the counters stand after \<open>k\<close> calls: \<open>b\<close> blocks are complete.\<close>

definition daq_clock :: "daq_env \<Rightarrow> nat \<Rightarrow> daq_st \<Rightarrow> bool" where
  "daq_clock env k st \<longleftrightarrow>
     (let R = nat (sysRate env); b = k div R
      in daqSlot st = (if k = 0 then -1 else int ((k - 1) mod R)) \<and> daqBlockNum st = int ((15 + b) mod 16) \<and>
         daqXmitBlockNum st = int (b mod 16) \<and> wbase st = buf_size * (if b = 0 then 15 else int (b mod 16)) \<and>
         (0 < b \<longrightarrow> icycle (dipc st) = of_nat ((b - 1) mod 16)))"

definition daq_inv :: "daq_env \<Rightarrow> nat \<times> daq_st \<Rightarrow> bool" where
  "daq_inv env s \<longleftrightarrow> running env (int (fst s mod nat (sysRate env))) (snd s) \<and> daq_clock env (fst s) (snd s)"

lemma counter_inc:
  assumes "0 < R"
  shows "(int (c mod R) + 1) smod int R = int (Suc c mod R)"
proof -
  have "(int (c mod R) + 1) smod int R = (int (c mod R) + 1) mod int R" using assms by (simp add: smod_nonneg)
  also have "\<dots> = int ((c mod R + 1) mod R)" by (simp add: zmod_int add.commute)
  finally show ?thesis by (simp add: mod_simps)
qed

lemma next_slot:
  assumes "0 < R" "s = (if k = 0 then -1 else int ((k - 1) mod R))"
  shows "(s + 1) smod int R = int (k mod R)"
  using assms counter_inc [of R "k - 1"] by (cases k) (simp_all add: smod_nonneg)

lemma blocks_done:
  assumes "0 < (R::nat)"
  shows "Suc k div R = (if k mod R = R - 1 then Suc (k div R) else k div R)"
proof -
  have "Suc k mod R = (if k mod R = R - 1 then 0 else Suc (k mod R))"
    using assms by (auto simp: mod_Suc)
  then show ?thesis using assms by (simp add: div_Suc mod_Suc)
qed

lemma next_block_clock:
  fixes env inp
  assumes "daqXmitBlockNum st = int (b mod 16)" "daqBlockNum st = int ((15 + b) mod 16)"
  defines "t \<equiv> next_block (announce env inp st)"
  shows "daqXmitBlockNum t = int (Suc b mod 16)" "daqBlockNum t = int ((15 + Suc b) mod 16)" "wbase t = buf_size * int (Suc b mod 16)"
    "icycle (dipc t) = of_nat (b mod 16)" "daqSlot t = daqSlot st"
proof -
  have inc: "(int (c mod 16) + 1) smod 16 = int (Suc c mod 16)" for c using counter_inc [of 16 c] by simp
  show "daqXmitBlockNum t = int (Suc b mod 16)" "wbase t = buf_size * int (Suc b mod 16)"
    using inc [of b] assms(1) by (simp_all add: t_def next_block_def announce_def Let_def)
  show "daqBlockNum t = int ((15 + Suc b) mod 16)"
    using inc [of "15 + b"] assms(2) by (simp add: t_def next_block_def announce_def Let_def)
  show "icycle (dipc t) = of_nat (b mod 16)" "daqSlot t = daqSlot st"
    using assms(1) by (simp_all add: t_def next_block_def announce_def Let_def)
qed

lemma daq_cycle_parts:
  assumes "env_ok env" "daq_inv env (k, st)" "500 \<le> length (tpData inp)"
  defines "s0 \<equiv> st\<lparr>daqSlot := int (k mod nat (sysRate env))\<rparr>"
  shows "\<exists>r st' s1 s2 s3. daqWrite 1 env inp st = Some (r, st') \<and> daq_inv env (Suc k, st') \<and>
    pInfo st' = pInfo st \<and> map fst (gdsTp st') = map fst (gdsTp st) \<and>
    only_in (wbase st) (wbase st + buf_size) (swing st) (swing st') \<and>
    running env (daqSlot s0) s0 \<and> write_chans inp [0..<nat (totalChans s0)] s0 = Some s1 \<and> epics_values inp s1 = Some s2 \<and>
    excitations env inp s2 = Some s3 \<and> running env (daqSlot s0 + 1) s3 \<and> clock_fields s3 = clock_fields s0 \<and>
    (\<exists>p. tables_ok env p s0 \<and> only_in (wbase st) (wbase st + 4 * numEpicsTotal p) (swing s1) (swing st'))"
proof -
  define R where "R = nat (sysRate env)"
  define b where "b = k div R"
  have R: "0 < R" "sysRate env = int R" "4 \<le> R" using env_rate [OF assms(1)] by (simp_all add: R_def)
  have clk: "daqSlot st = (if k = 0 then -1 else int ((k - 1) mod R))" "daqBlockNum st = int ((15 + b) mod 16)"
    "daqXmitBlockNum st = int (b mod 16)" "wbase st = buf_size * (if b = 0 then 15 else int (b mod 16))"
    "0 < b \<longrightarrow> icycle (dipc st) = of_nat ((b - 1) mod 16)"
    and run: "running env (int (k mod R)) st"
    using assms(2) by (simp_all add: daq_inv_def daq_clock_def Let_def R_def b_def)
  have s0_def: "s0 = st\<lparr>daqSlot := int (k mod R)\<rparr>" by (simp add: s0_def R_def)
  have "running env (int (k mod R)) s0"
    by (rule running_same [OF run])
      (use running_fields [OF run] in \<open>simp_all add: s0_def table_fields_def arrays_ok_def floats_ready_def floats_at_def\<close>)
  then have run0: "running env (daqSlot s0) s0" "0 \<le> daqSlot s0" "daqSlot s0 < sysRate env"
    using R by (simp_all add: s0_def)
  obtain s1 s2 s3 p where s: "write_chans inp [0..<nat (totalChans s0)] s0 = Some s1" "epics_values inp s1 = Some s2"
    "excitations env inp s2 = Some s3" "running env (daqSlot s0 + 1) s3" "clock_fields s3 = clock_fields s0"
    "only_in (wbase s0) (wbase s0 + buf_size) (swing s0) (swing s3)" "tables_ok env p s0"
    "only_in (wbase s0) (wbase s0 + 4 * numEpicsTotal p) (swing s1) (swing s3)"
    using samples_ok [OF assms(1) run0(1) assms(3) run0(2,3)] by blast
  have same: "daqSlot s0 = int (k mod R)" "wbase s0 = wbase st" "swing s0 = swing st" by (simp_all add: s0_def)
  have f3: "daqSlot s3 = int (k mod R)" "daqBlockNum s3 = daqBlockNum st" "daqXmitBlockNum s3 = daqXmitBlockNum st"
    "wbase s3 = wbase st" "dipc s3 = dipc st" "pInfo s3 = pInfo st" "map fst (gdsTp s3) = map fst (gdsTp st)"
    using s(5) by (simp_all add: clock_fields_def s0_def)
  obtain s4 where s4: "(if daqSlot s3 = sysRate env - 1 then end_of_block env inp s3 else Some s3) = Some s4"
    "daq_inv env (Suc k, s4)" "swing s4 = swing s3" "pInfo s4 = pInfo st" "map fst (gdsTp s4) = map fst (gdsTp st)"
  proof (cases "k mod R = R - 1")
    case True
    obtain s4 where e: "end_of_block env inp s3 = Some s4" "running env 0 s4"
      "clock_fields s4 = clock_fields (next_block (announce env inp s3))" "swing s4 = swing s3"
      using end_of_block_ok [OF assms(1) s(4)] f3(3) clk(3) by auto
    have "Suc k div R = Suc b" "Suc k mod R = 0" using blocks_done [OF R(1), of k] True R(1) by (simp_all add: b_def mod_Suc)
    then have "daq_inv env (Suc k, s4)"
      using e(2,3) f3 True next_block_clock [of s3 b env inp] clk
      by (simp add: daq_inv_def daq_clock_def Let_def clock_fields_def flip: R_def)
    moreover have "pInfo s4 = pInfo st" "map fst (gdsTp s4) = map fst (gdsTp st)"
      using e(3) f3(6,7) by (simp_all add: clock_fields_def next_block_def announce_def Let_def)
    ultimately show ?thesis using that e True f3(1) R by simp
  next
    case False
    then have "Suc k div R = b" "Suc k mod R = k mod R + 1" using blocks_done [OF R(1), of k] R(1) by (auto simp: b_def mod_Suc)
    then have "daq_inv env (Suc k, s3)"
      using s(4) same(1) f3 clk by (simp add: daq_inv_def daq_clock_def Let_def add.commute flip: R_def)
    moreover have "daqSlot s3 \<noteq> sysRate env - 1" using False f3(1) R by auto
    ultimately show ?thesis using that f3(6,7) by simp
  qed
  have "(daqSlot st + 1) smod sysRate env = int (k mod R)" using next_slot [OF R(1) clk(1)] R(2) by simp
  then have call: "daqWrite 1 env inp st = Some (totalSize (xferInfo s4) * 16 sdiv 1000, s4)"
    using s(1-3) s4(1) R(1,2) by (simp add: daqWrite_def daq_cycle_def Let_def flip: s0_def)
  have "only_in (wbase st) (wbase st + buf_size) (swing st) (swing s4)"
    "\<exists>p. tables_ok env p s0 \<and> only_in (wbase st) (wbase st + 4 * numEpicsTotal p) (swing s1) (swing s4)"
    using s(6-8) unfolding same(2,3) s4(3) by blast+
  then show ?thesis using call s4(2,4,5) run0(1) s(1-5) by blast
qed

lemma daq_cycle_ok:
  assumes "env_ok env" "daq_inv env (k, st)" "500 \<le> length (tpData inp)"
  shows "\<exists>r st'. daqWrite 1 env inp st = Some (r, st') \<and> daq_inv env (Suc k, st') \<and>
    only_in (wbase st) (wbase st + buf_size) (swing st) (swing st')"
  using daq_cycle_parts [OF assms] by blast

end
