(* ===== verification/DaqRun.thy ===== *)
theory DaqRun
  imports DaqSafe
begin

text \<open>
  The properties of the data acquisition over all runs: calls of \<open>daqWrite\<close> from the start on, between them whatever the front
  end, the test point manager and the reader of the configuration do to the memory they share with it.
\<close>

section \<open>Runs\<close>

text \<open>The number of calls, and the state. The front end runs its filter modules; the manager changes its lists; the reader puts a
  new configuration in place and raises the flag for it. A configuration with another number of channels is put in place only while
  nothing is selected, and nothing is selected before it is taken over.\<close>

inductive daq_step :: "daq_env \<Rightarrow> nat \<times> daq_st \<Rightarrow> nat \<times> daq_st \<Rightarrow> bool" for env where
  daq_call: "500 \<le> length (tpData inp) \<Longrightarrow> daqWrite 1 env inp st = Some (r, st') \<Longrightarrow> daq_step env (k, st) (Suc k, st')"
| front_end: "length (inputs d) = length (inputs (dsp st)) \<Longrightarrow> length (fmdata d) = length (fmdata (dsp st)) \<Longrightarrow>
    length x = length (excSignal st) \<Longrightarrow> daq_step env (k, st) (k, st\<lparr>dsp := d, excSignal := x\<rparr>)"
| manager: "length g = 4 \<Longrightarrow> \<forall>i < 4. length (fst (g ! i)) = 256 \<and> length (snd (g ! i)) = 256 \<Longrightarrow>
    numChans (pInfo st) = numChans (dataInfo st) \<or> idle (st\<lparr>gdsTp := g\<rparr>) \<Longrightarrow> daq_step env (k, st) (k, st\<lparr>gdsTp := g\<rparr>)"
| reader: "info_fits env p \<Longrightarrow> numChans p = numChans (dataInfo st) \<or> idle st \<Longrightarrow>
    daq_step env (k, st) (k, st\<lparr>pInfo := p, reconfig := 1\<rparr>)"

lemma connected_inv:
  assumes "env_ok env" "daq_connected env st" "arrays_ok env st" "info_fits env (pInfo st)"
  shows "daq_inv env (0, st)"
proof -
  have c: "info_copied env (pInfo st) (dataInfo st)" "laid_out env (pInfo st) (localTable st)" "totalChans st = numChans (pInfo st)"
    "validTp st = 0" "tpNum st = replicate 64 0" "wbase st = 15 * buf_size" "tpStart st = crcLength (xferInfo st)"
    "crcLength (xferInfo st) = chan_start (pInfo st) (nat (numChans (pInfo st)))"
    using assms(2) by (simp_all add: daq_connected_def)
  have n: "numChans (dataInfo st) = numChans (pInfo st)" "0 \<le> numChans (pInfo st)" "numChans (pInfo st) \<le> 448"
    using c(1) assms(4) by (simp_all add: info_copied_def info_fits_def)
  have "slots_ok env st" using assms(3) n by (auto simp: slots_ok_def used_def c(5))
  moreover have "slots_sent env st" using c(3,4) n by (auto simp: slots_sent_def slots_placed_def intro!: exI [of _ 0])
  moreover have "tables_ok env (pInfo st) st" using c(1,2,7,8) assms(4) by (simp add: tables_ok_def)
  moreover have "floats_ready env (pInfo st) 0 st" by (simp add: floats_ready_def)
  ultimately have "running env 0 st" using c(6) n assms(4) by (auto simp: running_def)
  moreover have "daq_clock env 0 st" using assms(2) by (simp add: daq_clock_def daq_connected_def)
  ultimately show ?thesis by (simp add: daq_inv_def)
qed

lemma outside_inv:
  assumes "daq_inv env (k, st)" "arrays_ok env st'" "table_fields st' = table_fields st"
    and eq: "wbase st' = wbase st" "daqSlot st' = daqSlot st" "daqBlockNum st' = daqBlockNum st"
      "daqXmitBlockNum st' = daqXmitBlockNum st" "dipc st' = dipc st" "pEpicsFloat st' = pEpicsFloat st"
    and lists: "numChans (pInfo st) = numChans (dataInfo st) \<or> map fst (gdsTp st') = map fst (gdsTp st) \<or> idle st'"
  shows "daq_inv env (k, st')"
proof -
  have run: "running env (int (k mod nat (sysRate env))) st" using assms(1) by (simp add: daq_inv_def)
  have "running env (int (k mod nat (sysRate env))) st'"
    by (rule running_same [OF run assms(3,2)])
      (use running_fields(8,9) [OF run] lists in \<open>simp_all add: floats_ready_def floats_at_def eq\<close>)
  then show ?thesis using assms(1) by (simp add: daq_inv_def daq_clock_def eq)
qed

lemma reader_inv:
  assumes "daq_inv env (k, st)" "info_fits env p" "numChans p = numChans (dataInfo st) \<or> idle st"
  shows "daq_inv env (k, st\<lparr>pInfo := p, reconfig := 1\<rparr>)"
proof -
  have "slot_clean env (st\<lparr>pInfo := p, reconfig := 1\<rparr>) i = slot_clean env st i"
    "slot_pos (st\<lparr>pInfo := p, reconfig := 1\<rparr>) i = slot_pos st i" for i
    by (simp_all add: slot_clean_def slot_pos_def)
  moreover have "idle (st\<lparr>pInfo := p, reconfig := 1\<rparr>) = idle st" by (simp add: idle_def)
  ultimately show ?thesis
    using assms by (simp add: daq_inv_def running_def slots_ok_def arrays_ok_def slots_sent_def slots_placed_def tables_ok_def
        floats_ready_def floats_at_def daq_clock_def)
qed

lemma daq_step_inv: "daq_step env s s' \<Longrightarrow> env_ok env \<Longrightarrow> daq_inv env s \<Longrightarrow> daq_inv env s'"
proof (induction rule: daq_step.induct)
  case (daq_call inp st r st' k)
  then show ?case using daq_cycle_ok [of env k st inp] by auto
next
  case (front_end d st x k)
  then have "arrays_ok env st" using running_fields(1) by (auto simp: daq_inv_def)
  then show ?case
    using front_end by (intro outside_inv [OF \<open>daq_inv env (k, st)\<close>]) (simp_all add: arrays_ok_def table_fields_def)
next
  case (manager g st k)
  then have "arrays_ok env (st\<lparr>gdsTp := g\<rparr>)" using running_fields(1) [of env _ st] by (auto simp: daq_inv_def arrays_ok_def)
  then show ?case
    by (rule outside_inv [OF manager(5)]) (use manager(3) in \<open>simp_all add: table_fields_def, blast\<close>)
next
  case (reader p st k)
  then show ?case using reader_inv by blast
qed

interpretation daq_run: inductive_invariant "daq_step env" "\<lambda>s. env_ok env \<and> daq_inv env s" for env
  by unfold_locales (auto intro: daq_step_inv)

text \<open>The start, and every state of a run from it.\<close>

lemma start_inv:
  assumes "env_ok env" "arrays_ok env st" "info_fits env (pInfo st)"
  shows "\<exists>r st0. daqWrite 0 env inp st = Some (r, st0) \<and> daq_inv env (0, st0)"
  using connect_arrays [OF assms, of inp] connected_inv [OF assms(1)] assms(3) by auto

lemma run_inv:
  assumes "env_ok env" "arrays_ok env st" "info_fits env (pInfo st)" "daqWrite 0 env inp st = Some (r, st0)"
    and "reach (daq_step env) (0, st0) (k, s)"
  shows "daq_inv env (k, s)"
  using start_inv [OF assms(1-3), of inp] assms(1,4) daq_run.inv_reach [OF assms(5)] by auto

lemma run_exists:
  assumes "env_ok env" "arrays_ok env st" "info_fits env (pInfo st)" "500 \<le> length (tpData inp)"
  shows "\<exists>r st0 s. daqWrite 0 env inp st = Some (r, st0) \<and> reach (daq_step env) (0, st0) (k, s)"
proof (induction k)
  case 0
  then show ?case using start_inv [OF assms(1-3), of inp] by (blast intro: reach_init)
next
  case (Suc k)
  then obtain r st0 s where s: "daqWrite 0 env inp st = Some (r, st0)" "reach (daq_step env) (0, st0) (k, s)" by blast
  obtain r' s' where "daqWrite 1 env inp s = Some (r', s')"
    using daq_cycle_ok [OF assms(1) run_inv [OF assms(1-3) s] assms(4)] by blast
  then show ?case using s assms(4) by (blast intro: reach_step daq_call)
qed

section \<open>An example\<close>

text \<open>A front end with one filter module and 64 samples a second, which sends the output of its filter module.\<close>

definition ex_daq_env :: daq_env where
  "ex_daq_env = \<lparr>sysRate = 4, dcuId = 10, daqRange = daq_range True 1, maxModules = 1, cdsInts = 0\<rparr>"

definition ex_daq_info :: DAQ_INFO_BLOCK where
  "ex_daq_info = \<lparr>numChans = 1, numEpicsInts = 2, numEpicsFloats = 0, numEpicsFilts = 11, numEpicsTotal = 13, configFileCRC = 7,
     dtp = replicate 512 \<lparr>channel_name = ''X1:OUT'', tpnum = 30003, dataType = 4, dataRate = 64, dataGain = f0\<rparr>\<rparr>"

definition ex_daq_entry :: DAQ_LKUP_TABLE where
  "ex_daq_entry = \<lparr>ltype = 0, sysNum = 0, fmNum = 0, sigNum = 0, decFactor = 0, loffset = 0\<rparr>"

definition ex_daq :: daq_st where
  "ex_daq = \<lparr>daqBlockNum = 0, daqXmitBlockNum = 0, excBlockNum = 0, excDataSize = 0,
     xferInfo = \<lparr>crcLength = 0, xferSize1 = 0, totalSize = 0, totalSizeNet = 0, offsetAccum = 0, fileCrc = 0\<rparr>,
     localTable = replicate 512 ex_daq_entry, excTable = replicate 512 ex_daq_entry, wbase = 0, daqSlot = 0, excSlot = 0,
     dataInfo = DAQ_INFO_BLOCK.extend ex_daq_info \<lparr>epicsdblDataOffset = 0, cpyepics2times = 0, cpyIntSize = (0, 0),
       numEpicsFiltXfers = 0, numEpicsFiltsLast = 0\<rparr>,
     tpStart = 0, validTp = 0, validTpNet = 0, validEx = 0, tpNum = replicate 64 0, tpNumNet = replicate 64 0, totalChans = 0,
     dHistory = replicate 512 (replicate MAX_HISTRY f0), pEpicsDblData = 0, pEpicsFloat = None, curDaqBlockSize = 0,
     swing = (\<lambda>_. 0), dipc = \<lparr>icycle = 0, idcuId = 0, icrc = 0, idataBlockSize = 0,
       ibp = replicate 16 \<lparr>btimeSec = 0, btimeNSec = 0, bcycle = 0, bcrc = 0\<rparr>\<rparr>,
     tpCount = 0, tpShm = replicate 256 0, gdsTp = replicate 4 (replicate 256 0, replicate 256 0), reconfig = 0, pInfo = ex_daq_info,
     dsp = ex_module\<lparr>fmdata := [ex_data\<lparr>testpoint := of_cint 3\<rparr>]\<rparr>, excSignal = replicate 50 f0, gdsMonitor = replicate 32 0\<rparr>"

definition ex_daq_in :: daq_in where
  "ex_daq_in = \<lparr>tpData = replicate 500 f0, epicsBytes = (\<lambda>_. 0), epicsDbl = (\<lambda>_. f0), excStatus = (\<lambda>_. 1), excData = (\<lambda>_. f0),
     cycle_gps_time = 0\<rparr>"

lemma ex_daq_env_ok: "env_ok ex_daq_env"
  by (auto simp: env_ok_def ex_daq_env_def intro!: exI [of _ 2])

lemma ex_daq_arrays_ok: "arrays_ok ex_daq_env ex_daq"
  by (simp add: arrays_ok_def ex_daq_env_def ex_daq_def ex_module_def ex_daq_info_def DAQ_INFO_BLOCK.defs)

lemma ex_daq_info_fits: "info_fits ex_daq_env (pInfo ex_daq)"
proof -
  have "\<forall>i < nat 1. chan_ok ex_daq_env (dtp ex_daq_info ! i)"
    by (auto simp: chan_ok_def ex_daq_info_def ex_daq_env_def tp_known_def daq_range_def Let_def in_range_def intro!: exI [of _ 6])
  then show ?thesis
    by (simp add: info_fits_def ex_daq_def ex_daq_info_def ex_daq_env_def chan_start_def chan_bytes_def daqSizeByType_def)
qed

lemma ex_daq_in_tp: "500 \<le> length (tpData ex_daq_in)"
  by (simp add: ex_daq_in_def)

lemmas ex_daq_run = ex_daq_env_ok ex_daq_arrays_ok ex_daq_info_fits

section \<open>Properties\<close>



text \<open>C39: the hand-over of the blocks: after \<open>k\<close> calls \<open>b = k div sysRate\<close> blocks are complete, the last of them, number
  \<open>(b - 1) mod 16\<close>, is the one announced to the network driver, and the data goes to block \<open>b mod 16\<close>, so never to the one
  that is announced. Only in the first block after the start is it block 15 that is written, which is never announced.\<close>

theorem block_handover:
  assumes "env_ok env" "arrays_ok env st" "info_fits env (pInfo st)" "daqWrite 0 env inp0 st = Some (r, st0)"
    and "reach (daq_step env) (0, st0) (k, s)"
  defines "b \<equiv> k div nat (sysRate env)"
  shows "daqXmitBlockNum s = int (b mod 16) \<and> wbase s = buf_size * (if b = 0 then 15 else int (b mod 16)) \<and>
    (0 < b \<longrightarrow> icycle (dipc s) = of_nat ((b - 1) mod 16) \<and> (b - 1) mod 16 \<noteq> b mod 16)"
proof -
  have "daq_clock env k s" using run_inv [OF assms(1-5)] by (simp add: daq_inv_def)
  then have "daqXmitBlockNum s = int (b mod 16)" "wbase s = buf_size * (if b = 0 then 15 else int (b mod 16))"
    "0 < b \<longrightarrow> icycle (dipc s) = of_nat ((b - 1) mod 16)"
    by (simp_all add: daq_clock_def Let_def b_def)
  moreover have "0 < b \<longrightarrow> (b - 1) mod 16 \<noteq> b mod 16" by (cases b) (simp_all add: mod_Suc)
  ultimately show ?thesis by blast
qed

theorem block_handover_witness:
  "\<exists>r st0 s. daqWrite 0 ex_daq_env ex_daq_in ex_daq = Some (r, st0) \<and> reach (daq_step ex_daq_env) (0, st0) (8, s) \<and>
     daqXmitBlockNum s = 2 \<and> wbase s = 2 * buf_size \<and> icycle (dipc s) = 1"
proof -
  obtain r st0 s where s: "daqWrite 0 ex_daq_env ex_daq_in ex_daq = Some (r, st0)" "reach (daq_step ex_daq_env) (0, st0) (8, s)"
    using run_exists [OF ex_daq_run ex_daq_in_tp] by blast
  have "sysRate ex_daq_env = 4" by (simp add: ex_daq_env_def)
  then have "daqXmitBlockNum s = 2 \<and> wbase s = 2 * buf_size \<and> icycle (dipc s) = 1"
    using block_handover [OF ex_daq_run s] by simp
  then show ?thesis using s by blast
qed

end
