(* ===== verification/DaqDeliver.thy ===== *)
theory DaqDeliver
  imports DaqRun
begin

text \<open>
  The samples that arrive in the shared memory of the network driver (\<open>src/include/drv/daqLib.c\<close>): every channel and every selected test point has its
  own region in a block, and after a call its sample of the cycle is there, taken from the signal that its number stands for.
\<close>

section \<open>Signals\<close>

text \<open>The signal of number \<open>t\<close>: the three test points of a filter module, its excitation, the other test points, the other
  excitations.\<close>

definition sig_value :: "DAQ_RANGE \<Rightarrow> daq_in \<Rightarrow> daq_st \<Rightarrow> u32 \<Rightarrow> fp" where
  "sig_value r inp st t =
     (let u = uint t; d = fmdata (dsp st)
      in if filtTpMin r \<le> u \<and> u < filtTpMax r then
           (let j = u - filtTpMin r; m = d ! nat (j div 3)
            in if j mod 3 = 0 then filterInput m else if j mod 3 = 1 then inputTestpoint m else testpoint m)
         else if filtExMin r \<le> u \<and> u < filtExMax r then exciteInput (d ! nat (u - filtExMin r))
         else if xTpMin r \<le> u \<and> u < xTpMax r then tpData inp ! nat (u - xTpMin r)
         else excSignal st ! nat (u - xExMin r))"

lemma ranges_apart:
  assumes "r = daq_range slow m" "1 \<le> m" "m \<le> 1000"
  shows "filtTpMax r = xTpMin r" "filtExMax r = xExMin r" "xExMax r \<le> filtTpMin r"
  using assms by (simp_all add: daq_range_def Let_def)

lemma entry_reads:
  assumes "env_ok env" "arrays_ok env st" "500 \<le> length (tpData inp)" "entry_for (daqRange env) t e"
  shows "read_source inp st e = Some (sig_value (daqRange env) inp st t)"
proof -
  define r where "r = daqRange env"
  define m where "m = maxModules env"
  obtain slow where env: "r = daq_range slow m" "1 \<le> m" "m \<le> 1000" using assms(1) by (auto simp: env_ok_def r_def m_def)
  note b = range_bounds [OF env] and ap = ranges_apart [OF env]
  have len: "length (fmdata (dsp st)) = nat m" "length (excSignal st) = 50" using assms(2) by (simp_all add: arrays_ok_def m_def)
  consider (fm) "in_range t (filtTpMin r) (filtTpMax r)" "ltype e = 0" "fmNum e = from_min t (filtTpMin r) div 3"
      "sigNum e = from_min t (filtTpMin r) mod 3"
    | (fx) "in_range t (filtExMin r) (filtExMax r)" "ltype e = 2" "fmNum e = from_min t (filtExMin r)"
    | (x) "in_range t (xTpMin r) (xTpMax r)" "ltype e = 1" "sigNum e = from_min t (xTpMin r)"
    | (xx) "in_range t (xExMin r) (xExMax r)" "ltype e = 3" "fmNum e = from_min t (xExMin r)"
    using assms(4) by (auto simp: entry_for_def r_def)
  then have "read_source inp st e = Some (sig_value r inp st t)"
  proof cases
    case fm
    define j where "j = uint t - filtTpMin r"
    note u = in_range_uint [OF fm(1)]
    have j: "0 \<le> j" "j < 3 * m" "from_min t (filtTpMin r) = j" using u b(1) by (simp_all add: j_def)
    have q: "0 \<le> j div 3" "j div 3 < m" using j(1,2) by linarith+
    have "0 \<le> j mod 3" "j mod 3 < 3" by simp_all
    then consider "j mod 3 = 0" | "j mod 3 = 1" | "j mod 3 = 2" by linarith
    then show ?thesis
      using fm j q u b(1) len(1) by cases (simp_all add: read_source_def sig_value_def Let_def flip: j_def)
  next
    case fx
    then show ?thesis
      using in_range_uint [OF fx(1)] b(2) ap b(4) len(1) by (simp add: read_source_def sig_value_def Let_def)
  next
    case x
    have "nat (uint t - xTpMin r) < 500" using in_range_uint(1,2) [OF x(1)] b(3) by linarith
    with x show ?thesis
      using in_range_uint [OF x(1)] b ap assms(3) by (simp add: read_source_def sig_value_def Let_def)
  next
    case xx
    then show ?thesis
      using in_range_uint [OF xx(1)] b ap len(2) by (simp add: read_source_def sig_value_def Let_def)
  qed
  then show ?thesis by (simp add: r_def)
qed

section \<open>Regions\<close>

text \<open>A channel whose samples stay in its bytes: not a decimated channel of type \<open>int\<close>, not one of type \<open>short\<close> with one
  sample in a block, and of a type with a size.\<close>

definition tidy :: "daq_env \<Rightarrow> DAQ_INFO_CHAN \<Rightarrow> bool" where
  "tidy env c \<longleftrightarrow> chan_span (dataType c) (uint (dataRate c) div 16) (sysRate env) \<le> chan_bytes c"

lemma tidy_types:
  assumes "env_ok env" "chan_ok env c" "dataType c \<in> {4, 5, 7} \<or> dataType c = 1 \<and> dataRate c \<noteq> 16 \<or> dataType c = 2 \<and> uint (dataRate c) = 16 * sysRate env"
  shows "tidy env c"
proof -
  define q where "q = uint (dataRate c) div 16"
  have q: "1 \<le> q" "q = 1 \<or> even q" using chan_samples [OF assms(2)] by (simp_all add: q_def)
  have "q \<noteq> 1" if "dataRate c \<noteq> 16"
  proof
    obtain k where k: "4 \<le> k" "k \<le> 14" "dataRate c = 2 ^ k" using assms(2) by (auto simp: chan_ok_def)
    assume "q = 1"
    then have "(2::int) ^ (k - 4) = 1"
      using k uint_pow2 [of k] power_add [of "2 :: int" 4 "k - 4"] by (simp add: q_def)
    then have "odd ((2::int) ^ (k - 4))" by simp
    then have "k = 4" using k(1) by simp
    then show False using that k(3) by simp
  qed
  moreover have "uint (dataRate c) = 16 * sysRate env \<Longrightarrow> q = sysRate env" by (simp add: q_def)
  ultimately show ?thesis
    using assms(3) q by (auto simp: tidy_def chan_span_def chan_bytes_def daqSizeByType_def simp flip: q_def)
qed

text \<open>The kinds of channels that have this property: floating point and \<open>unsigned int\<close>, \<open>short\<close> with more than one sample in a
  block, and \<open>int\<close> that is not decimated.\<close>

definition keeps_place :: "daq_env \<Rightarrow> DAQ_INFO_CHAN \<Rightarrow> bool" where
  "keeps_place env c \<longleftrightarrow> dataType c = 4 \<or> dataType c = 5 \<or> dataType c = 7 \<or> dataType c = 1 \<and> dataRate c \<noteq> 16 \<or>
     dataType c = 2 \<and> uint (dataRate c) = 16 * sysRate env"

definition region_size :: "daq_env \<Rightarrow> daq_st \<Rightarrow> nat \<Rightarrow> int" where
  "region_size env st ii = (if ii < nat (numChans (dataInfo st)) then chan_bytes (dtp (dataInfo st) ! ii) else 4 * sysRate env)"

definition all_tidy :: "daq_env \<Rightarrow> daq_st \<Rightarrow> bool" where
  "all_tidy env st \<longleftrightarrow> (\<forall>j < nat (numChans (dataInfo st)). tidy env (dtp (dataInfo st) ! j))"

text \<open>The regions lie one behind the other.\<close>

lemma regions_apart:
  assumes "env_ok env" "running env slot st" "ii < jj" "jj < nat (totalChans st)"
  shows "loffset (localTable st ! ii) + region_size env st ii \<le> loffset (localTable st ! jj)"
proof -
  obtain p t where p: "tables_ok env p st" and t: "t \<le> 64" "totalChans st = numChans (dataInfo st) + int t" "slots_placed env t st"
    using assms(2) by (auto simp: running_def slots_sent_def)
  define n where "n = nat (numChans p)"
  have pf: "info_fits env p" "numChans (dataInfo st) = numChans p" "0 \<le> numChans p" "tpStart st = chan_start p n"
    "\<And>j. j < n \<Longrightarrow> loffset (localTable st ! j) = chan_start p j" "\<And>j. j < n \<Longrightarrow> chan_bytes (dtp (dataInfo st) ! j) = chan_bytes (dtp p ! j)"
    using p same_chan_facts(2) by (auto simp: tables_ok_def info_copied_def info_fits_def laid_out_def n_def)
  have nn: "0 \<le> chan_bytes (dtp p ! j)" if "j < n" for j
    using pf(1) that chan_bytes_nonneg by (auto simp: info_fits_def chan_ok_def n_def)
  have up: "chan_start p i + chan_bytes (dtp p ! i) \<le> chan_start p j" if "i < j" "j \<le> n" for i j
  proof -
    have "chan_start p i + chan_bytes (dtp p ! i) = chan_start p (Suc i)" by (simp add: chan_start_def)
    also have "\<dots> \<le> chan_start p j"
      using that nn unfolding chan_start_def by (intro add_left_mono sum_mono2) auto
    finally show ?thesis .
  qed
  have place: "loffset (localTable st ! j) = chan_start p n + int (j - n) * (sysRate env * 4)" if "n \<le> j" "j < nat (totalChans st)" for j
    using that t(2,3) pf(2-4) by (auto simp: slots_placed_def slot_pos_def n_def dest!: spec [of _ "j - n"])
  have size: "region_size env st ii = (if ii < n then chan_bytes (dtp p ! ii) else 4 * sysRate env)"
    using pf(2,6) by (simp add: region_size_def n_def)
  note r = env_rate(1) [OF assms(1)]
  consider "jj < n" | "ii < n" "n \<le> jj" | "n \<le> ii" using assms(3) by linarith
  then show ?thesis
  proof cases
    case 1
    then show ?thesis using up [OF assms(3)] assms(3) by (simp add: size pf(5))
  next
    case 2
    have "0 \<le> int (jj - n) * (sysRate env * 4)" using r by (intro mult_nonneg_nonneg) simp_all
    moreover have "region_size env st ii = chan_bytes (dtp p ! ii)" using size 2(1) by simp
    ultimately show ?thesis using up [OF 2(1)] place [OF 2(2) assms(4)] pf(5) [OF 2(1)] by linarith
  next
    case 3
    have "(int (ii - n) + 1) * (sysRate env * 4) \<le> int (jj - n) * (sysRate env * 4)"
      using 3 assms(3) r by (intro mult_right_mono) simp_all
    then show ?thesis using 3 place [of ii] place [of jj] assms(3,4) by (simp add: size algebra_simps)
  qed
qed

lemma region_in_size:
  assumes "env_ok env" "running env slot st" "all_tidy env st" "ii < nat (totalChans st)" "chan_region env st ii = (lo, hi)"
  shows "lo = wbase st + loffset (localTable st ! ii)" "hi \<le> lo + region_size env st ii"
proof -
  obtain p t where p: "tables_ok env p st" and t: "t \<le> 64" "totalChans st = numChans (dataInfo st) + int t" "\<forall>i < t. slot_clean env st i"
    using assms(2) by (auto simp: running_def slots_sent_def)
  define n where "n = nat (numChans p)"
  have n: "nat (numChans (dataInfo st)) = n" "0 \<le> numChans (dataInfo st)"
    using p by (auto simp: tables_ok_def info_copied_def info_fits_def n_def)
  show "lo = wbase st + loffset (localTable st ! ii)" using assms(5) by (simp add: chan_region_def Let_def)
  show "hi \<le> lo + region_size env st ii"
  proof (cases "ii < n")
    case True
    have "entry_ok env (dtp p ! ii) (localTable st ! ii)" "same_chan (dtp (dataInfo st) ! ii) (dtp p ! ii)"
      using p True by (auto simp: tables_ok_def laid_out_def info_copied_def n_def)
    then have d: "0 < decFactor (localTable st ! ii)"
      "decFactor (localTable st ! ii) * (uint (dataRate (dtp (dataInfo st) ! ii)) div 16) = sysRate env"
      by (auto simp: entry_ok_def same_chan_def)
    then have "sysRate env div decFactor (localTable st ! ii) = uint (dataRate (dtp (dataInfo st) ! ii)) div 16" by (simp flip: d(2))
    moreover have "tidy env (dtp (dataInfo st) ! ii)" using assms(3) True n(1) by (simp add: all_tidy_def)
    ultimately show ?thesis
      using assms(5) True n(1) by (auto simp: chan_region_def Let_def region_size_def tidy_def)
  next
    case False
    then have "slot_clean env st (ii - n)" "slot_pos st (ii - n) = ii" using t assms(4) n by (auto simp: slot_pos_def)
    then show ?thesis
      using assms(5) False n(1) by (auto simp: chan_region_def Let_def region_size_def slot_clean_def chan_span_def)
  qed
qed

section \<open>Samples\<close>

text \<open>What a channel makes of a value: the decimation filter, if it has one.\<close>

definition filtered :: "u32 \<Rightarrow> int \<Rightarrow> fp \<Rightarrow> fp list \<Rightarrow> (fp \<times> fp list) option" where
  "filtered ty dcf x h = (if ty \<noteq> 7 then decimate dcf x h else Some (x, h))"

lemma write_chan_frame:
  "write_chan inp ii st = Some st' \<Longrightarrow> j \<noteq> ii \<Longrightarrow> dHistory st' ! j = dHistory st ! j"
  by (auto simp: write_chan_def Let_def set_history_def write_bytes_def split: if_splits option.splits prod.splits)

lemma write_chan_bytes:
  assumes "write_chan inp ii st = Some st'" "read_source inp st (localTable st ! ii) = Some x"
  defines "e \<equiv> localTable st ! ii" and "ty \<equiv> dataType (dtp (dataInfo st) ! ii)"
  assumes "filtered ty (decFactor e) x (dHistory st ! ii) = Some (y, h)" "daqSlot st smod decFactor e = 0"
    and "sample_bytes ty (daqSlot st) (decFactor e) y (uint_hist h) = (a, bs)" "i < length bs"
  shows "swing st' (nat (wbase st + loffset e + a) + i) = bs ! i"
  using assms(1,2,5-) unfolding write_chan_def Let_def e_def [symmetric] ty_def [symmetric] filtered_def
  by (auto simp: set_history_def write_bytes_def split: if_splits)

lemma write_chans_bytes:
  assumes "write_chans inp is st = Some st'" "arrays_ok env st" "\<forall>jj \<in> set is. chan_safe env st jj" "500 \<le> length (tpData inp)"
    and "0 \<le> daqSlot st" "daqSlot st < sysRate env" "0 \<le> wbase st" "wbase st \<le> 15 * buf_size" "distinct is" "ii \<in> set is"
    and "read_source inp st e = Some x" "filtered ty (decFactor e) x (dHistory st ! ii) = Some (y, h)"
    and "daqSlot st smod decFactor e = 0" "sample_bytes ty (daqSlot st) (decFactor e) y (uint_hist h) = (a, bs)" "i < length bs"
    and "e = localTable st ! ii" "ty = dataType (dtp (dataInfo st) ! ii)" "A = nat (wbase st + loffset e + a) + i"
    and "\<forall>jj \<in> set is. jj \<noteq> ii \<longrightarrow> (case chan_region env st jj of (lo, hi) \<Rightarrow> int A < lo \<or> hi \<le> int A)"
  shows "swing st' A = bs ! i"
  using assms
proof (induction "is" arbitrary: st)
  case (Cons j "is")
  obtain h1 w1 where one: "write_chan inp j st = Some (st\<lparr>dHistory := h1, swing := w1\<rparr>)" "hist_ok h1"
    using write_chan_ok [OF Cons.prems(2) _ Cons.prems(4-8), of j] Cons.prems(3) by auto
  define st1 where "st1 = st\<lparr>dHistory := h1, swing := w1\<rparr>"
  have rest: "write_chans inp is st1 = Some st'" using Cons.prems(1) one(1) by (simp add: st1_def)
  have arr: "arrays_ok env st1" "\<forall>jj \<in> set is. chan_safe env st1 jj"
    using Cons.prems(2,3) one(2) by (auto simp: arrays_ok_def hist_ok_def st1_def chan_safe_def)
  have reg: "chan_region env st1 jj = chan_region env st jj" for jj by (simp add: chan_region_def st1_def)
  have slot: "0 \<le> daqSlot st1" "daqSlot st1 < sysRate env" "0 \<le> wbase st1" "wbase st1 \<le> 15 * buf_size"
    using Cons.prems(5-8) by (simp_all add: st1_def)
  show ?case
  proof (cases "j = ii")
    case True
    have "w1 A = bs ! i"
      using write_chan_bytes [OF one(1), of x y h a bs i] Cons.prems(11-18) True by simp
    moreover obtain h2 w2 where w2: "write_chans inp is st1 = Some (st1\<lparr>dHistory := h2, swing := w2\<rparr>)"
      "\<forall>b. (\<forall>jj \<in> set is. case chan_region env st1 jj of (lo, hi) \<Rightarrow> int b < lo \<or> hi \<le> int b) \<longrightarrow> w2 b = swing st1 b"
      using write_chans_ok [OF arr Cons.prems(4) slot] by blast
    have "\<forall>jj \<in> set is. case chan_region env st1 jj of (lo, hi) \<Rightarrow> int A < lo \<or> hi \<le> int A"
    proof
      fix jj
      assume "jj \<in> set is"
      then show "case chan_region env st1 jj of (lo, hi) \<Rightarrow> int A < lo \<or> hi \<le> int A"
        using Cons.prems(9,19) True unfolding reg by (metis distinct.simps(2) list.set_intros(2))
    qed
    then have "w2 A = swing st1 A" using w2(2) [THEN spec, THEN mp] by blast
    moreover have "swing st' = w2" using rest w2(1) by auto
    ultimately show ?thesis by (simp add: st1_def)
  next
    case False
    have "dHistory st1 ! ii = dHistory st ! ii" using write_chan_frame [OF one(1)] False by (simp add: st1_def)
    moreover have "read_source inp st1 e = read_source inp st e" by (simp add: read_source_def st1_def Let_def)
    ultimately show ?thesis
      using Cons.prems False reg by (intro Cons.IH [OF rest arr Cons.prems(4) slot]) (auto simp: st1_def)
  qed
qed simp

text \<open>The number of channel \<open>ii\<close>, or of the test point in the slot it is.\<close>

definition chan_num :: "daq_st \<Rightarrow> nat \<Rightarrow> u32" where
  "chan_num st ii = (let n = nat (numChans (dataInfo st)) in if ii < n then tpnum (dtp (dataInfo st) ! ii) else tpNum st ! (ii - n))"

lemma chan_entry:
  assumes "running env slot st" "ii < nat (totalChans st)" "ii < nat (numChans (dataInfo st)) \<or> chan_num st ii \<noteq> 0"
  shows "entry_for (daqRange env) (chan_num st ii) (localTable st ! ii)"
proof -
  obtain p t where p: "tables_ok env p st" and t: "t \<le> 64" "totalChans st = numChans (dataInfo st) + int t" "\<forall>i < t. slot_clean env st i"
    using assms(1) by (auto simp: running_def slots_sent_def)
  define n where "n = nat (numChans (dataInfo st))"
  have n: "n = nat (numChans p)" "0 \<le> numChans (dataInfo st)" using p by (auto simp: tables_ok_def info_copied_def info_fits_def n_def)
  show ?thesis
  proof (cases "ii < n")
    case True
    then have "entry_ok env (dtp p ! ii) (localTable st ! ii)" "same_chan (dtp (dataInfo st) ! ii) (dtp p ! ii)"
      using p n(1) by (auto simp: tables_ok_def laid_out_def info_copied_def)
    then show ?thesis using True by (simp add: chan_num_def n_def entry_ok_def same_chan_def)
  next
    case False
    then have "slot_clean env st (ii - n)" "slot_pos st (ii - n) = ii" using t assms(2) n by (auto simp: slot_pos_def n_def)
    then show ?thesis using False assms(3) by (auto simp: chan_num_def slot_clean_def Let_def simp flip: n_def)
  qed
qed

lemma after_epics:
  assumes "env_ok env" "running env slot st" "tables_ok env p st" "ii < nat (totalChans st)"
  shows "4 * numEpicsTotal p \<le> loffset (localTable st ! ii)"
proof -
  obtain t where t: "totalChans st = numChans (dataInfo st) + int t" "slots_placed env t st"
    using assms(2) by (auto simp: running_def slots_sent_def)
  define n where "n = nat (numChans p)"
  have p: "info_fits env p" "numChans (dataInfo st) = numChans p" "0 \<le> numChans p" "tpStart st = chan_start p n"
    "\<And>j. j < n \<Longrightarrow> loffset (localTable st ! j) = chan_start p j"
    using assms(3) by (auto simp: tables_ok_def info_copied_def info_fits_def laid_out_def n_def)
  show ?thesis
  proof (cases "ii < n")
    case True
    then show ?thesis using p(5) chan_start_bounds(1) [OF p(1), of ii] by (simp add: n_def)
  next
    case False
    then have "slot_pos st (ii - n) = ii" "ii - n < t" using t(1) p(2,3) assms(4) by (auto simp: slot_pos_def n_def)
    then have "loffset (localTable st ! ii) = chan_start p n + int (ii - n) * (sysRate env * 4)"
      using t(2) p(4) unfolding slots_placed_def by metis
    moreover have "0 \<le> int (ii - n) * (sysRate env * 4)" using env_rate(1) [OF assms(1)] by (intro mult_nonneg_nonneg) simp_all
    moreover have "4 * numEpicsTotal p \<le> chan_start p n" using chan_start_bounds(1) [OF p(1), of n] by (simp add: n_def)
    ultimately show ?thesis by linarith
  qed
qed

lemma sample_lands:
  assumes "env_ok env" "daq_inv env (k, s)" "500 \<le> length (tpData inp)" "all_tidy env s" "ii < nat (totalChans s)"
    and "ii < nat (numChans (dataInfo s)) \<or> chan_num s ii \<noteq> 0"
    and "e = localTable s ! ii" "ty = dataType (dtp (dataInfo s) ! ii)" "slot = int (k mod nat (sysRate env))"
    and "filtered ty (decFactor e) (sig_value (daqRange env) inp s (chan_num s ii)) (dHistory s ! ii) = Some (y, h)"
    and "slot mod decFactor e = 0" "sample_bytes ty slot (decFactor e) y (uint_hist h) = (a, bs)"
  shows "\<exists>r s'. daqWrite 1 env inp s = Some (r, s') \<and> (\<forall>i < length bs. swing s' (nat (wbase s + loffset e + a) + i) = bs ! i)"
proof -
  define s0 where "s0 = s\<lparr>daqSlot := slot\<rparr>"
  obtain r s' s1 p where call: "daqWrite 1 env inp s = Some (r, s')" "running env (daqSlot s0) s0"
    "write_chans inp [0..<nat (totalChans s0)] s0 = Some s1" "tables_ok env p s0"
    "only_in (wbase s) (wbase s + 4 * numEpicsTotal p) (swing s1) (swing s')"
    using daq_cycle_parts [OF assms(1-3)] unfolding assms(9) [symmetric] s0_def [symmetric] by blast
  have eq: "localTable s0 = localTable s" "dataInfo s0 = dataInfo s" "wbase s0 = wbase s" "totalChans s0 = totalChans s"
    "dHistory s0 = dHistory s" "daqSlot s0 = slot" "chan_num s0 ii = chan_num s ii" "all_tidy env s0 = all_tidy env s"
    "sig_value (daqRange env) inp s0 = sig_value (daqRange env) inp s"
    by (simp_all add: s0_def chan_num_def all_tidy_def sig_value_def fun_eq_iff Let_def)
  have "k mod nat (sysRate env) < nat (sysRate env)" using env_rate(1) [OF assms(1)] by (intro mod_less_divisor) simp
  then have R: "0 < nat (sysRate env)" "0 \<le> slot" "slot < sysRate env" using assms(9) by linarith+
  note rf = running_fields [OF call(2)]
  have safe: "chan_safe env s0 jj" if "jj < nat (totalChans s)" for jj using running_chans_safe [OF assms(1) call(2)] that eq(4) by simp
  obtain n where n: "0 < decFactor e" "decFactor e * n = sysRate env" "n = 1 \<or> even n" "0 \<le> loffset e"
    using safe [OF assms(5)] by (auto simp: chan_safe_def Let_def eq assms(7))
  have a: "0 \<le> a" "a + int (length bs) \<le> chan_span ty n (sysRate env)"
    using sample_bytes_span [OF R(2,3) n(1-3) assms(12)] by simp_all
  have "sysRate env div decFactor e = n" using n(1) by (simp flip: n(2))
  then have "chan_region env s0 ii = (wbase s + loffset e, wbase s + loffset e + chan_span ty n (sysRate env))"
    by (simp add: chan_region_def Let_def eq assms(7,8))
  from region_in_size(2) [OF assms(1) call(2) _ _ this] have size: "chan_span ty n (sysRate env) \<le> region_size env s0 ii"
    using assms(4,5) by (simp add: eq)
  have out: "case chan_region env s0 jj of (lo, hi) \<Rightarrow> int (nat (wbase s + loffset e + a) + i) < lo \<or> hi \<le> int (nat (wbase s + loffset e + a) + i)"
    if "jj < nat (totalChans s)" "jj \<noteq> ii" "i < length bs" for jj i
  proof -
    obtain lo hi where reg: "chan_region env s0 jj = (lo, hi)" by (cases "chan_region env s0 jj")
    note b = region_in_size [OF assms(1) call(2) _ _ reg]
    have lo: "lo = wbase s + loffset (localTable s ! jj)" "hi \<le> lo + region_size env s0 jj" using b assms(4) that(1) by (simp_all add: eq)
    have A: "int (nat (wbase s + loffset e + a) + i) = wbase s + loffset e + a + int i" using rf(8) n(4) a(1) by (simp add: eq)
    show ?thesis
    proof (cases "jj < ii")
      case True
      then show ?thesis
        using regions_apart [OF assms(1) call(2) True] assms(5,7) lo a(1) A reg by (simp add: eq)
    next
      case False
      then have "ii < jj" using that(2) by simp
      then show ?thesis
        using regions_apart [OF assms(1) call(2), of ii jj] that(1,3) assms(7) lo a(2) size A reg by (simp add: eq)
    qed
  qed
  have src: "read_source inp s0 e = Some (sig_value (daqRange env) inp s (chan_num s ii))"
    using entry_reads [OF assms(1) rf(1) assms(3), of "chan_num s ii" e] chan_entry [OF call(2), of ii] assms(5-7) by (simp add: eq)
  have "slot smod decFactor e = 0" using assms(11) R(2) n(1) by (simp add: smod_nonneg)
  then have "swing s1 (nat (wbase s + loffset e + a) + i) = bs ! i" if "i < length bs" for i
    using write_chans_bytes [OF call(3) rf(1) _ assms(3) _ _ rf(8,9), of ii e, OF _ _ _ _ _ src, of ty y h a bs i]
      safe R out [OF _ _ that] that assms by (simp add: eq)
  moreover have "swing s' (nat (wbase s + loffset e + a) + i) = swing s1 (nat (wbase s + loffset e + a) + i)" for i
  proof -
    have "4 * numEpicsTotal p \<le> loffset e" using after_epics [OF assms(1) call(2,4), of ii] assms(5,7) by (simp add: eq)
    then have "wbase s + 4 * numEpicsTotal p \<le> int (nat (wbase s + loffset e + a) + i)" using rf(8) n(4) a(1) by (simp add: eq)
    then show ?thesis using call(5) by (simp add: only_in_def)
  qed
  ultimately show ?thesis using call(1) by auto
qed

section \<open>Numbers in memory\<close>

text \<open>The number that \<open>n\<close> bytes at an address are, least significant byte first.\<close>

definition number_at :: "(nat \<Rightarrow> u8) \<Rightarrow> int \<Rightarrow> nat \<Rightarrow> int" where
  "number_at mem a n = (\<Sum>i < n. uint (mem (nat a + i)) * 256 ^ i)"

lemma byte_of_word: "uint (ucast (drop_bit (8 * i) w) :: u8) = uint w div 256 ^ i mod 256"
proof -
  have "uint (ucast (drop_bit (8 * i) w) :: u8) = take_bit 8 (drop_bit (8 * i) (uint w))"
    by (rule bit_eqI) (auto simp: bit_simps dest: bit_imp_le_length)
  then show ?thesis by (simp add: take_bit_eq_mod drop_bit_eq_div power_mult)
qed

lemma number_of_bytes: "(\<Sum>i < n. w div 256 ^ i mod 256 * 256 ^ i) = w mod (256 ^ n :: int)"
proof (induction n)
  case (Suc n)
  have "w mod (256 ^ n * 256) = 256 ^ n * (w div 256 ^ n mod 256) + w mod 256 ^ n" by (rule zmod_zmult2_eq) simp
  then show ?case using Suc by (simp add: mult.commute)
qed simp

lemma number_at_word:
  assumes "\<And>i. i < n \<Longrightarrow> mem (nat a + i) = word_bytes n w ! i"
  shows "number_at mem a n = uint w mod 256 ^ n"
proof -
  have "number_at mem a n = (\<Sum>i < n. uint w div 256 ^ i mod 256 * 256 ^ i)"
    unfolding number_at_def using assms by (intro sum.cong) (simp_all add: word_bytes_def byte_of_word)
  then show ?thesis by (simp only: number_of_bytes)
qed

lemma numbers_at:
  fixes w2 :: "16 word" and w4 :: u32 and w8 :: u64
  shows "(\<And>i. i < 2 \<Longrightarrow> mem (nat a + i) = word_bytes 2 w2 ! i) \<Longrightarrow> number_at mem a 2 = uint w2"
    "(\<And>i. i < 4 \<Longrightarrow> mem (nat a + i) = word_bytes 4 w4 ! i) \<Longrightarrow> number_at mem a 4 = uint w4"
    "(\<And>i. i < 8 \<Longrightarrow> mem (nat a + i) = word_bytes 8 w8 ! i) \<Longrightarrow> number_at mem a 8 = uint w8"
  using number_at_word [of 2 mem a w2] number_at_word [of 4 mem a w4] number_at_word [of 8 mem a w8]
    uint_lt2p [of w2] uint_lt2p [of w4] uint_lt2p [of w8]
  by simp_all

section \<open>Filter histories\<close>

lemma write_chan_history:
  assumes "write_chan inp ii st = Some st'" "read_source inp st (localTable st ! ii) = Some x"
    and "dataType (dtp (dataInfo st) ! ii) \<noteq> 7" "decimate (decFactor (localTable st ! ii)) x (dHistory st ! ii) = Some (y, h)"
  shows "dHistory st' ! ii = h"
  using assms by (auto simp: write_chan_def Let_def set_history_def write_bytes_def split: if_splits prod.splits)

lemma write_chan_shape:
  "write_chan inp j st = Some st1 \<Longrightarrow> st1 = st\<lparr>dHistory := dHistory st1, swing := swing st1\<rparr>"
  by (auto simp: write_chan_def Let_def set_history_def write_bytes_def split: if_splits option.splits prod.splits)

lemma write_chan_same:
  assumes "write_chan inp j st = Some st1"
  shows "localTable st1 = localTable st" "dataInfo st1 = dataInfo st" "read_source inp st1 e = read_source inp st e" "reconfig st1 = reconfig st"
proof -
  obtain h w where "st1 = st\<lparr>dHistory := h, swing := w\<rparr>" using write_chan_shape [OF assms] by blast
  then show "localTable st1 = localTable st" "dataInfo st1 = dataInfo st" "read_source inp st1 e = read_source inp st e" "reconfig st1 = reconfig st"
    by (simp_all add: read_source_def Let_def)
qed

lemma write_chans_history:
  assumes "write_chans inp is st = Some st'" "distinct is" "ii \<in> set is" "read_source inp st (localTable st ! ii) = Some x"
    and "dataType (dtp (dataInfo st) ! ii) \<noteq> 7" "decimate (decFactor (localTable st ! ii)) x (dHistory st ! ii) = Some (y, h)"
  shows "dHistory st' ! ii = h"
  using assms
proof (induction "is" arbitrary: st)
  case (Cons j "is")
  obtain st1 where st1: "write_chan inp j st = Some st1" "write_chans inp is st1 = Some st'"
    using Cons.prems(1) by (auto split: option.splits)
  note same = write_chan_same [OF st1(1)]
  show ?case
  proof (cases "j = ii")
    case True
    have "dHistory st' ! ii = dHistory st1 ! ii" if "ii \<notin> set is" "write_chans inp is st1 = Some st'" for st1
      using that by (induction "is" arbitrary: st1) (auto dest!: write_chan_frame split: option.splits)
    then show ?thesis using write_chan_history [of inp ii st st1 x y h] st1 Cons.prems(2,4-6) True by simp
  next
    case False
    then show ?thesis
      using Cons.IH [OF st1(2)] Cons.prems(2-6) same write_chan_frame [OF st1(1)] by simp
  qed
qed simp

text \<open>After the channels nothing touches a filter history in a call, unless it takes over a new configuration.\<close>

definition histories :: "daq_st \<Rightarrow> fp list list \<times> int" where
  "histories st = (dHistory st, reconfig st)"

lemma write_chans_reconfig: "write_chans inp is st = Some st' \<Longrightarrow> reconfig st' = reconfig st"
  by (induction "is" arbitrary: st) (auto dest!: write_chan_same(4) split: option.splits)

lemma put_floats_histories: "put_floats xs st = Some st' \<Longrightarrow> histories st' = histories st"
  by (induction xs arbitrary: st) (fastforce simp: write_bytes_def histories_def split: if_splits option.splits)+

lemma put_modules_histories: "put_modules is st = Some st' \<Longrightarrow> histories st' = histories st"
  by (induction "is" arbitrary: st) (auto dest!: put_floats_histories split: if_splits option.splits)

lemma epics_values_histories: "epics_values inp st = Some st' \<Longrightarrow> histories st' = histories st"
  by (auto simp: epics_values_def epics_ints_def epics_doubles_def epics_modules_def Let_def write_bytes_def
      dest!: put_floats_histories put_modules_histories split: if_splits option.splits prod.splits) (auto simp: histories_def)

lemma read_excs_histories: "read_excs inp is st = Some st' \<Longrightarrow> histories st' = histories st"
proof (induction "is" arbitrary: st)
  case (Cons ii "is")
  have "histories s1 = histories st" if "read_exc inp ii st = Some s1" for s1
    using that by (auto simp: read_exc_def Let_def set_excite_def set_excSignal_def histories_def split: if_splits)
  then show ?case using Cons by (auto split: option.splits)
qed simp

lemma excitations_histories: "excitations env inp st = Some st' \<Longrightarrow> histories st' = histories st"
  by (auto simp: excitations_def Let_def dest!: read_excs_histories split: option.splits if_splits) (auto simp: histories_def)

lemma end_of_block_histories:
  assumes "env_ok env" "end_of_block env inp s = Some s'" "running env slot s" "daqXmitBlockNum s = int (b mod 16)" "reconfig s \<noteq> 1"
  shows "dHistory s' = dHistory s"
proof -
  define t where "t = next_block (announce env inp s)"
  have run: "running env 0 t" using announced_ok [OF assms(3)] assms(4) by (simp add: t_def)
  have t: "dHistory t = dHistory s" "reconfig t \<noteq> 1" using assms(5) by (simp_all add: t_def next_block_def announce_def Let_def)
  obtain u where "check_testpoints env t = Some u" "kept u = kept t"
    using check_testpoints_ok [OF assms(1), of t] run by (auto simp: running_def)
  then show ?thesis
    using assms(2) t by (auto simp: end_of_block_def Let_def t_def [symmetric] net_testpoints_def kept_def split: if_splits)
qed

lemma filter_remembers:
  assumes "env_ok env" "daq_inv env (k, s)" "500 \<le> length (tpData inp)" "ii < nat (totalChans s)"
    and "ii < nat (numChans (dataInfo s)) \<or> chan_num s ii \<noteq> 0" "e = localTable s ! ii" "dataType (dtp (dataInfo s) ! ii) \<noteq> 7"
    and "decimate (decFactor e) (sig_value (daqRange env) inp s (chan_num s ii)) (dHistory s ! ii) = Some (y, h)"
    and "k mod nat (sysRate env) \<noteq> nat (sysRate env) - 1 \<or> reconfig s \<noteq> 1" "daqWrite 1 env inp s = Some (r, s')"
  shows "dHistory s' ! ii = h"
proof -
  define R where "R = nat (sysRate env)"
  have R: "0 < R" "sysRate env = int R" using env_rate [OF assms(1)] by (simp_all add: R_def)
  define s0 where "s0 = s\<lparr>daqSlot := int (k mod R)\<rparr>"
  obtain s1 s2 s3 where c: "running env (daqSlot s0) s0" "write_chans inp [0..<nat (totalChans s0)] s0 = Some s1" "epics_values inp s1 = Some s2"
    "excitations env inp s2 = Some s3" "running env (daqSlot s0 + 1) s3" "clock_fields s3 = clock_fields s0"
    using daq_cycle_parts [OF assms(1-3)] unfolding R_def [symmetric] s0_def [symmetric] by blast
  have eq: "localTable s0 = localTable s" "dataInfo s0 = dataInfo s" "totalChans s0 = totalChans s" "dHistory s0 = dHistory s"
    "chan_num s0 ii = chan_num s ii" "sig_value (daqRange env) inp s0 = sig_value (daqRange env) inp s" "reconfig s0 = reconfig s"
    by (simp_all add: s0_def chan_num_def sig_value_def fun_eq_iff Let_def)
  have src: "read_source inp s0 e = Some (sig_value (daqRange env) inp s (chan_num s ii))"
    using entry_reads [OF assms(1) running_fields(1) [OF c(1)] assms(3), of "chan_num s ii" e] chan_entry [OF c(1), of ii] assms(4-6)
    by (simp add: eq)
  then have "dHistory s1 ! ii = h"
    using write_chans_history [OF c(2), of ii] assms(4,6-8) by (simp add: eq)
  moreover have "histories s3 = histories s1" using epics_values_histories [OF c(3)] excitations_histories [OF c(4)] by simp
  then have h3: "dHistory s3 = dHistory s1" "reconfig s3 = reconfig s" using write_chans_reconfig [OF c(2)] eq(7) by (simp_all add: histories_def)
  moreover have "dHistory s' = dHistory s3"
  proof -
    have clk: "daqSlot s = (if k = 0 then -1 else int ((k - 1) mod R))" "daqXmitBlockNum s = int ((k div R) mod 16)"
      using assms(2) by (simp_all add: daq_inv_def daq_clock_def Let_def R_def)
    have slot: "(daqSlot s + 1) smod sysRate env = int (k mod R)" using next_slot [OF R(1)] R(2) clk(1) by simp
    have d: "daqSlot s3 = int (k mod R)" "daqXmitBlockNum s3 = int ((k div R) mod 16)" using c(6) clk(2) by (simp_all add: clock_fields_def s0_def)
    have "(if k mod R = R - 1 then end_of_block env inp s3 = Some s' else s' = s3)"
      using assms(10) c(3,4) c(2) [unfolded eq(3)] R slot d(1)
      by (auto simp: daqWrite_def daq_cycle_def Let_def simp flip: s0_def split: option.splits if_splits)
    then show ?thesis
      using end_of_block_histories [OF assms(1) _ c(5) d(2), of inp s'] assms(9) h3(2) by (auto simp flip: R_def split: if_splits)
  qed
  ultimately show ?thesis by simp
qed

section \<open>Delivery\<close>

lemma chan_placed:
  assumes "running env slot st" "ii < nat (numChans (dataInfo st))"
  shows "loffset (localTable st ! ii) = 4 * numEpicsTotal (dataInfo st) + (\<Sum>j < ii. chan_bytes (dtp (dataInfo st) ! j))"
    "decFactor (localTable st ! ii) = sysRate env div (uint (dataRate (dtp (dataInfo st) ! ii)) div 16)"
    "nat (numChans (dataInfo st)) \<le> nat (totalChans st)"
proof -
  obtain p t where p: "tables_ok env p st" and t: "totalChans st = numChans (dataInfo st) + int t"
    using assms(1) by (auto simp: running_def slots_sent_def)
  have d: "numChans (dataInfo st) = numChans p" "numEpicsTotal (dataInfo st) = numEpicsTotal p"
    "\<And>j. j < nat (numChans p) \<Longrightarrow> same_chan (dtp (dataInfo st) ! j) (dtp p ! j)"
    "loffset (localTable st ! ii) = chan_start p ii" "entry_ok env (dtp p ! ii) (localTable st ! ii)"
    using p assms(2) by (auto simp: tables_ok_def info_copied_def laid_out_def)
  show "nat (numChans (dataInfo st)) \<le> nat (totalChans st)" using t by simp
  have "(\<Sum>j < ii. chan_bytes (dtp (dataInfo st) ! j)) = (\<Sum>j < ii. chan_bytes (dtp p ! j))"
    using d(1,3) assms(2) same_chan_facts(2) by (intro sum.cong) auto
  then show "loffset (localTable st ! ii) = 4 * numEpicsTotal (dataInfo st) + (\<Sum>j < ii. chan_bytes (dtp (dataInfo st) ! j))"
    by (simp add: d(2,4) chan_start_def)
  have same: "same_chan (dtp (dataInfo st) ! ii) (dtp p ! ii)" using d(1,3) assms(2) by simp
  have "chan_ok env (dtp p ! ii)" using p assms(2) d(1) by (simp add: tables_ok_def info_fits_def)
  then have q: "decFactor (localTable st ! ii) * (uint (dataRate (dtp (dataInfo st) ! ii)) div 16) = sysRate env"
    "0 < decFactor (localTable st ! ii)" "chan_ok env (dtp (dataInfo st) ! ii)"
    using d(5) same same_chan_facts(1) [OF same] by (simp_all add: entry_ok_def same_chan_def)
  have "uint (dataRate (dtp (dataInfo st) ! ii)) div 16 \<noteq> 0" using chan_samples(1) [OF q(3)] by simp
  then show "decFactor (localTable st ! ii) = sysRate env div (uint (dataRate (dtp (dataInfo st) ! ii)) div 16)"
    by (simp flip: q(1))
qed

lemma keeps_place_tidy:
  assumes "env_ok env" "running env slot st" "\<forall>j < nat (numChans (dataInfo st)). keeps_place env (dtp (dataInfo st) ! j)"
  shows "all_tidy env st" "ii < nat (numChans (dataInfo st)) \<Longrightarrow> chan_ok env (dtp (dataInfo st) ! ii)"
proof -
  obtain p where p: "tables_ok env p st" using assms(2) by (auto simp: running_def)
  have ok: "chan_ok env (dtp (dataInfo st) ! j)" if "j < nat (numChans (dataInfo st))" for j
    using p that same_chan_facts(1) by (auto simp: tables_ok_def info_copied_def info_fits_def)
  show "all_tidy env st"
    using assms(3) ok tidy_types [OF assms(1)] by (auto simp: all_tidy_def keeps_place_def)
  show "ii < nat (numChans (dataInfo st)) \<Longrightarrow> chan_ok env (dtp (dataInfo st) ! ii)" by (rule ok)
qed

text \<open>A sample of each kind, as a number at its place in the region.\<close>

lemma sample_numbers:
  assumes "sample_bytes ty slot dcf y v = (a, bs)" "\<forall>i < length bs. mem (nat (base + a) + i) = bs ! i" "0 \<le> slot" "0 < dcf"
    and "ty = 2 \<longrightarrow> dcf = 1"
  defines "k \<equiv> slot div dcf"
  shows "(ty = 4 \<longrightarrow> number_at mem (base + 4 * k) 4 = uint (float_bits (to_float y))) \<and>
    (ty = 5 \<longrightarrow> number_at mem (base + 8 * k) 8 = uint (double_bits y)) \<and>
    (ty = 2 \<longrightarrow> number_at mem (base + 4 * k) 4 = float_to_int y mod 2 ^ 32) \<and>
    (ty = 1 \<longrightarrow> number_at mem (base + 2 * (if even k then k + 1 else k - 1)) 2 = float_to_int y mod 2 ^ 16) \<and>
    (ty = 7 \<longrightarrow> number_at mem (base + 4 * k) 4 =
      (if dcf = 1 then double_to_long y mod 2 ^ 32 else uint (word_of_int (double_to_long y) AND v)))"
proof -
  have k: "slot sdiv dcf = k" using assms(3,4) by (simp add: k_def sdiv_nonneg)
  have swap: "k XOR 1 = (if even k then k + 1 else k - 1)" by (simp add: xor_one_eq)
  have u: "uint (word_of_int i :: u32) = i mod 2 ^ 32" "uint (word_of_int i :: 16 word) = i mod 2 ^ 16" for i
    by (simp_all add: uint_word_of_int)
  show ?thesis
  proof (intro conjI impI)
    assume "ty = 4"
    then have "a = 4 * k" "bs = word_bytes 4 (float_bits (to_float y))"
      using assms(1) k by (auto simp: sample_bytes_def Let_def float_bytes_def)
    then show "number_at mem (base + 4 * k) 4 = uint (float_bits (to_float y))"
      using assms(2) by (intro numbers_at(2)) simp
  next
    assume "ty = 5"
    then have "a = 8 * k" "bs = word_bytes 8 (double_bits y)"
      using assms(1) k by (auto simp: sample_bytes_def Let_def double_bytes_def)
    then show "number_at mem (base + 8 * k) 8 = uint (double_bits y)"
      using assms(2) by (intro numbers_at(3)) simp
  next
    assume "ty = 2"
    then have "a = 4 * k" "bs = word_bytes 4 (word_of_int (float_to_int y) :: u32)"
      using assms(1,5) by (auto simp: sample_bytes_def Let_def int_bytes_def k_def)
    then show "number_at mem (base + 4 * k) 4 = float_to_int y mod 2 ^ 32"
      using assms(2) unfolding u(1) [symmetric] by (intro numbers_at(2)) simp
  next
    assume "ty = 1"
    then have "a = 2 * (if even k then k + 1 else k - 1)" "bs = word_bytes 2 (word_of_int (float_to_int y) :: 16 word)"
      using assms(1) k unfolding swap [symmetric] by (auto simp: sample_bytes_def Let_def)
    then show "number_at mem (base + 2 * (if even k then k + 1 else k - 1)) 2 = float_to_int y mod 2 ^ 16"
      using assms(2) unfolding u(2) [symmetric] by (intro numbers_at(1)) simp
  next
    define w where "w = (if dcf = 1 then double_to_uint y else double_to_uint y AND v)"
    assume "ty = 7"
    then have "a = 4 * k" "bs = word_bytes 4 w"
      using assms(1) k by (auto simp: sample_bytes_def Let_def w_def)
    then have "number_at mem (base + 4 * k) 4 = uint w" using assms(2) by (intro numbers_at(2)) simp
    then show "number_at mem (base + 4 * k) 4 =
        (if dcf = 1 then double_to_long y mod 2 ^ 32 else uint (word_of_int (double_to_long y) AND v))"
      unfolding w_def double_to_uint_def u(1) [symmetric] by simp
  qed
qed

text \<open>C6: the channels of the configuration are recorded. In every call the decimation filter of a channel advances by the value of
  the signal that the channel names, and in the cycles that its rate asks for the filtered value is written as a number of its
  type to the place of the sample: behind the EPICS values and the channels before it, one sample after the other, those of
  type \<open>short\<close> exchanged in pairs. Nothing that the call writes afterwards touches it. A sample of an \<open>unsigned int\<close> channel is not filtered, and
  of a slower one ANDed with what the channel gathered since its last sample. No channel of the configuration
  may be of a kind that leaves its own bytes: a decimated \<open>int\<close>, a \<open>short\<close> with one sample in a block, another type.\<close>

theorem channel_delivered:
  assumes "env_ok env" "arrays_ok env st" "info_fits env (pInfo st)" "daqWrite 0 env inp0 st = Some (r0, st0)"
    and "reach (daq_step env) (0, st0) (k, s)" "500 \<le> length (tpData inp)"
    and "\<forall>j < nat (numChans (dataInfo s)). keeps_place env (dtp (dataInfo s) ! j)" "ii < nat (numChans (dataInfo s))"
    and "c = dtp (dataInfo s) ! ii" "dcf = sysRate env div (uint (dataRate c) div 16)" "slot = int (k mod nat (sysRate env))"
    and "n = slot div dcf" "x = sig_value (daqRange env) inp s (tpnum c)"
    and "base = wbase s + 4 * numEpicsTotal (dataInfo s) + (\<Sum>j < ii. chan_bytes (dtp (dataInfo s) ! j))"
  shows "\<exists>r s' y. daqWrite 1 env inp s = Some (r, s') \<and>
    (if dataType c = 7 \<or> dCoeff dcf = None then y = x
     else \<exists>h. iir_filter_biquad x (literals (the (dCoeff dcf))) 3 (dHistory s ! ii) = Some (y, h) \<and>
       (slot \<noteq> sysRate env - 1 \<or> reconfig s \<noteq> 1 \<longrightarrow> dHistory s' ! ii = h)) \<and>
    (slot mod dcf = 0 \<longrightarrow>
      (dataType c = 4 \<longrightarrow> number_at (swing s') (base + 4 * n) 4 = uint (float_bits (to_float y))) \<and>
      (dataType c = 5 \<longrightarrow> number_at (swing s') (base + 8 * n) 8 = uint (double_bits y)) \<and>
      (dataType c = 2 \<longrightarrow> number_at (swing s') (base + 4 * n) 4 = float_to_int y mod 2 ^ 32) \<and>
      (dataType c = 1 \<longrightarrow> number_at (swing s') (base + 2 * (if even n then n + 1 else n - 1)) 2 = float_to_int y mod 2 ^ 16) \<and>
      (dataType c = 7 \<longrightarrow> number_at (swing s') (base + 4 * n) 4 =
        (if dcf = 1 then double_to_long y mod 2 ^ 32 else uint (word_of_int (double_to_long y) AND uint_hist (dHistory s ! ii)))))"
proof -
  have inv: "daq_inv env (k, s)" using run_inv [OF assms(1-5)] .
  then have run: "running env slot s" using assms(11) by (simp add: daq_inv_def)
  note pl = chan_placed [OF run assms(8)] and ok = keeps_place_tidy [OF assms(1) run assms(7)]
  define e where "e = localTable s ! ii"
  have num: "chan_num s ii = tpnum c" "ii < nat (totalChans s)" using assms(8,9) pl(3) by (simp_all add: chan_num_def)
  have e: "decFactor e = dcf" "base = wbase s + loffset e" using pl(1,2) assms(9,10,14) by (simp_all add: e_def)
  have safe: "ii < 512" "0 < dcf" using running_chans_safe [OF assms(1) run num(2)] e(1) by (auto simp: chan_safe_def Let_def e_def)
  have "keeps_place env c" using assms(7-9) by simp
  then have d: "dataType c = 2 \<longrightarrow> dcf = 1" using env_rate(1) [OF assms(1)] assms(10) by (auto simp: keeps_place_def)
  have slot: "0 \<le> slot" using assms(11) by simp
  have ii: "length (dHistory s ! ii) = MAX_HISTRY" using running_fields(1) [OF run] safe(1) by (simp add: arrays_ok_def)
  obtain y h where y: "filtered (dataType c) dcf x (dHistory s ! ii) = Some (y, h)" "dataType c = 7 \<longrightarrow> h = dHistory s ! ii"
    using decimate_ok [OF ii, of dcf x] by (cases "dataType c = 7") (auto simp: filtered_def)
  obtain r s' where call: "daqWrite 1 env inp s = Some (r, s')" using daq_cycle_ok [OF assms(1) inv assms(6)] by blast
  have filt: "if dataType c = 7 \<or> dCoeff dcf = None then y = x
     else \<exists>h. iir_filter_biquad x (literals (the (dCoeff dcf))) 3 (dHistory s ! ii) = Some (y, h) \<and>
       (slot \<noteq> sysRate env - 1 \<or> reconfig s \<noteq> 1 \<longrightarrow> dHistory s' ! ii = h)"
  proof (cases "dataType c = 7 \<or> dCoeff dcf = None")
    case True
    then show ?thesis using y by (auto simp: filtered_def decimate_def split: if_splits)
  next
    case False
    then have "iir_filter_biquad x (literals (the (dCoeff dcf))) 3 (dHistory s ! ii) = Some (y, h)" "decimate dcf x (dHistory s ! ii) = Some (y, h)"
      using y(1) by (auto simp: filtered_def decimate_def)
    moreover have "k mod nat (sysRate env) \<noteq> nat (sysRate env) - 1 \<or> reconfig s \<noteq> 1" if "slot \<noteq> sysRate env - 1 \<or> reconfig s \<noteq> 1"
      using that assms(11) env_rate(1) [OF assms(1)] by auto
    ultimately show ?thesis
      using False filter_remembers [OF assms(1) inv assms(6) num(2) _ e_def _ _ _ call, of y h] assms(8,9,13) num(1) e(1) by auto
  qed
  obtain a bs where bs: "sample_bytes (dataType c) slot dcf y (uint_hist h) = (a, bs)" by fastforce
  have "\<forall>i < length bs. swing s' (nat (base + a) + i) = bs ! i" if due: "slot mod dcf = 0"
  proof -
    have "\<exists>r s'. daqWrite 1 env inp s = Some (r, s') \<and> (\<forall>i < length bs. swing s' (nat (wbase s + loffset e + a) + i) = bs ! i)"
      by (rule sample_lands [OF assms(1) inv assms(6) ok(1) num(2) _ e_def refl assms(11), of y h])
        (use assms(8,9,13) num(1) e(1) y(1) due bs in simp_all)
    then show ?thesis using call e(2) by simp
  qed
  note numbers = sample_numbers [OF bs this slot safe(2) d, folded assms(12)]
  have hist: "dataType c = 7 \<Longrightarrow> uint_hist h = uint_hist (dHistory s ! ii)" using y(2) by simp
  show ?thesis
    by (rule exI [of _ r], rule exI [of _ s'], rule exI [of _ y], intro conjI impI filt call)
      (use numbers hist in simp_all)
qed

lemma filtered_full_rate: "filtered ty 1 x h = Some (x, h)"
  by (simp add: filtered_def decimate_def dCoeff_def)

lemma float_sample: "0 \<le> slot \<Longrightarrow> sample_bytes 4 slot 1 x v = (4 * slot, float_bytes (to_float x))"
  by (simp add: sample_bytes_def Let_def sdiv_nonneg)

text \<open>The first sample of the example: the output of the filter module, the number 3, behind the 13 EPICS values.\<close>

lemma ex_daq_started:
  assumes "daqWrite 0 ex_daq_env ex_daq_in ex_daq = Some (r, st0)"
  shows "numChans (dataInfo st0) = 1" "numEpicsTotal (dataInfo st0) = 13" "wbase st0 = 15 * buf_size"
    "dataType (dtp (dataInfo st0) ! 0) = 4" "dataRate (dtp (dataInfo st0) ! 0) = 64" "tpnum (dtp (dataInfo st0) ! 0) = 30003"
    "sig_value (daq_range True 1) ex_daq_in st0 30003 = of_cint 3"
proof -
  have c: "daq_connected ex_daq_env st0" "pInfo st0 = ex_daq_info" "dsp st0 = dsp ex_daq"
    using connect_arrays [OF ex_daq_run, of ex_daq_in] assms by (auto simp: ex_daq_def)
  then have i: "info_copied ex_daq_env ex_daq_info (dataInfo st0)" by (simp add: daq_connected_def)
  then have "same_chan (dtp (dataInfo st0) ! 0) (dtp ex_daq_info ! 0)" by (simp add: info_copied_def ex_daq_info_def)
  then show "dataType (dtp (dataInfo st0) ! 0) = 4" "dataRate (dtp (dataInfo st0) ! 0) = 64" "tpnum (dtp (dataInfo st0) ! 0) = 30003"
    by (simp_all add: same_chan_def ex_daq_info_def)
  show "wbase st0 = 15 * buf_size" using c by (simp add: daq_connected_def)
  show "numChans (dataInfo st0) = 1" "numEpicsTotal (dataInfo st0) = 13" using i by (simp_all add: info_copied_def ex_daq_info_def)
  show "sig_value (daq_range True 1) ex_daq_in st0 30003 = of_cint 3"
    using c(3) by (simp add: sig_value_def daq_range_def Let_def ex_daq_def)
qed

theorem channel_delivered_witness:
  "\<exists>r st0 r' s'. daqWrite 0 ex_daq_env ex_daq_in ex_daq = Some (r, st0) \<and> daqWrite 1 ex_daq_env ex_daq_in st0 = Some (r', s') \<and>
     number_at (swing s') (15 * buf_size + 52) 4 = 0x40400000"
proof -
  obtain r st0 where st0: "daqWrite 0 ex_daq_env ex_daq_in ex_daq = Some (r, st0)" using start_inv [OF ex_daq_run] by blast
  have env: "sysRate ex_daq_env = 4" "daqRange ex_daq_env = daq_range True 1" by (simp_all add: ex_daq_env_def)
  have three: "uint (float_bits (to_float (of_cint 3))) = 0x40400000" by code_simp
  note e = ex_daq_started [OF st0]
  have place: "\<forall>j < nat (numChans (dataInfo st0)). keeps_place ex_daq_env (dtp (dataInfo st0) ! j)" "0 < nat (numChans (dataInfo st0))"
    using e(1,4) by (simp_all add: keeps_place_def)
  from channel_delivered [OF ex_daq_run st0 reach_init ex_daq_in_tp place refl refl refl refl refl refl] show ?thesis
    using st0 three by (auto simp: e env dCoeff_def)
qed

end
