(* ===== verification/DaqPick.thy ===== *)
theory DaqPick
  imports DaqDeliver
begin

text \<open>
  The selected test points over all runs (\<open>src/include/drv/daqLib.c\<close>): the lists of the test point manager are followed at the end of
  every second, and what is selected is transmitted.
\<close>

section \<open>At the end of a second\<close>

lemma second_done:
  assumes "0 < (R::nat)" "Suc k mod (16 * R) = 0"
  shows "k mod R = R - 1" "Suc (k div R) mod 16 = 0"
proof -
  obtain q where "Suc k = 16 * R * q" using assms(2) unfolding mod_eq_0_iff_dvd by (elim dvdE)
  then have q: "Suc k = (16 * q) * R" by simp
  have "Suc k mod R = 0" "Suc k div R = 16 * q" using assms(1) unfolding q by simp_all
  moreover from this(1) show "k mod R = R - 1" unfolding mod_Suc by (simp split: if_splits)
  ultimately show "Suc (k div R) mod 16 = 0" using blocks_done [OF assms(1), of k] by simp
qed

text \<open>What only the end of a block changes.\<close>

definition labels :: "daq_st \<Rightarrow> (int \<times> int \<times> u32 list \<times> u32 list) \<times> DAQ_XFER_INFO \<times> int \<times> DAQ_INFO_LOCAL \<times> int \<times> u32 list" where
  "labels st = ((validTp st, validTpNet st, tpNum st, tpNumNet st), xferInfo st, totalChans st, dataInfo st, tpCount st, tpShm st)"

lemma write_chans_labels: "write_chans inp is st = Some st' \<Longrightarrow> labels st' = labels st"
proof (induction "is" arbitrary: st)
  case (Cons ii "is")
  have "labels s1 = labels st" if "write_chan inp ii st = Some s1" for s1
    using that
    by (auto simp: write_chan_def Let_def set_history_def write_bytes_def labels_def split: if_splits option.splits prod.splits)
  then show ?case using Cons by (auto split: option.splits)
qed simp

lemma put_floats_labels: "put_floats xs st = Some st' \<Longrightarrow> labels st' = labels st"
  by (induction xs arbitrary: st) (fastforce simp: write_bytes_def labels_def split: if_splits option.splits)+

lemma put_modules_labels: "put_modules is st = Some st' \<Longrightarrow> labels st' = labels st"
  by (induction "is" arbitrary: st) (auto dest!: put_floats_labels split: if_splits option.splits)

lemma epics_values_labels: "epics_values inp st = Some st' \<Longrightarrow> labels st' = labels st"
  by (auto simp: epics_values_def epics_ints_def epics_doubles_def epics_modules_def Let_def write_bytes_def
      dest!: put_floats_labels put_modules_labels split: if_splits option.splits prod.splits) (auto simp: labels_def)

lemma read_excs_labels:
  "read_excs inp is st = Some st' \<Longrightarrow> labels st' = labels st \<and> (validEx st \<in> {0, 0x100} \<longrightarrow> validEx st' \<in> {0, 0x100})"
proof (induction "is" arbitrary: st)
  case (Cons ii "is")
  have "labels s1 = labels st \<and> (validEx st \<in> {0, 0x100} \<longrightarrow> validEx s1 \<in> {0, 0x100})" if "read_exc inp ii st = Some s1" for s1
    using that by (auto simp: read_exc_def Let_def set_excite_def set_excSignal_def labels_def split: if_splits)
  then show ?case using Cons by (auto split: option.splits)
qed simp

lemma excitations_labels:
  assumes "excitations env inp st = Some st'"
  shows "labels st' = labels st" "validEx st' \<in> {0, 0x100}"
proof -
  define s0 where "s0 = st\<lparr>excSlot := (excSlot st + 1) smod sysRate env, validEx := 0\<rparr>"
  obtain s1 where s1: "read_excs inp [nat (numChans (dataInfo s0))..<nat (totalChans s0)] s0 = Some s1"
    "st' = (if excSlot s1 = sysRate env - 1 then s1\<lparr>excBlockNum := (excBlockNum s1 + 1) smod 16\<rparr> else s1)"
    using assms by (auto simp: excitations_def Let_def s0_def split: option.splits)
  have "labels s1 = labels st" "validEx s1 \<in> {0, 0x100}" using read_excs_labels [OF s1(1)] by (auto simp: s0_def labels_def)
  then show "labels st' = labels st" "validEx st' \<in> {0, 0x100}" using s1(2) by (auto simp: labels_def)
qed

lemma call_split:
  assumes "env_ok env" "daq_inv env (k, s)" "500 \<le> length (tpData inp)"
  defines "R \<equiv> nat (sysRate env)"
  shows "\<exists>r s' s3. daqWrite 1 env inp s = Some (r, s') \<and> daq_inv env (Suc k, s') \<and> running env (int (k mod R) + 1) s3 \<and>
    clock_fields s3 = clock_fields (s\<lparr>daqSlot := int (k mod R)\<rparr>) \<and> labels s3 = labels s \<and> validEx s3 \<in> {0, 0x100} \<and>
    (if k mod R = R - 1 then end_of_block env inp s3 = Some s' else s' = s3)"
proof -
  have R: "0 < R" "sysRate env = int R" using env_rate [OF assms(1)] by (simp_all add: R_def)
  define s0 where "s0 = s\<lparr>daqSlot := int (k mod R)\<rparr>"
  obtain r s' s1 s2 s3 where c: "daqWrite 1 env inp s = Some (r, s')" "daq_inv env (Suc k, s')"
    "write_chans inp [0..<nat (totalChans s0)] s0 = Some s1" "epics_values inp s1 = Some s2" "excitations env inp s2 = Some s3"
    "running env (daqSlot s0 + 1) s3" "clock_fields s3 = clock_fields s0"
    using daq_cycle_parts [OF assms(1-3)] unfolding R_def [symmetric] s0_def [symmetric] by blast
  have "daqSlot s = (if k = 0 then -1 else int ((k - 1) mod R))"
    using assms(2) by (simp add: daq_inv_def daq_clock_def Let_def R_def)
  then have slot: "(daqSlot s + 1) smod sysRate env = int (k mod R)" using next_slot [OF R(1)] R(2) by simp
  have chans: "totalChans s0 = totalChans s" by (simp add: s0_def)
  have d: "daqSlot s3 = int (k mod R)" using c(7) by (simp add: clock_fields_def s0_def)
  have "(if k mod R = R - 1 then end_of_block env inp s3 = Some s' else s' = s3)"
    using c(1,4,5) c(3) [unfolded chans] R slot d
    by (auto simp: daqWrite_def daq_cycle_def Let_def simp flip: s0_def split: option.splits if_splits)
  moreover have "labels s3 = labels s"
    using write_chans_labels [OF c(3)] epics_values_labels [OF c(4)] excitations_labels(1) [OF c(5)] by (simp add: s0_def labels_def)
  moreover note excitations_labels(2) [OF c(5)]
  moreover have "running env (int (k mod R) + 1) s3" using c(6) by (simp add: s0_def)
  ultimately show ?thesis using c(1,2,7) unfolding s0_def by blast
qed

lemma second_end:
  assumes "env_ok env" "daq_inv env (k, s)" "500 \<le> length (tpData inp)" "Suc k mod (16 * nat (sysRate env)) = 0"
  shows "\<exists>t r s'. running env 0 t \<and> map fst (gdsTp t) = map fst (gdsTp s) \<and> check_testpoints env t = Some s' \<and>
    daqWrite 1 env inp s = Some (r, s') \<and> daq_inv env (Suc k, s') \<and> validTpNet s' = validTpNet s"
proof -
  define R where "R = nat (sysRate env)"
  define b where "b = k div R"
  have R: "0 < R" using env_rate [OF assms(1)] by (simp add: R_def)
  have k: "k mod R = R - 1" "Suc b mod 16 = 0" using second_done [OF R] assms(4) by (simp_all add: R_def b_def)
  obtain r s' s3 where c: "daqWrite 1 env inp s = Some (r, s')" "daq_inv env (Suc k, s')" "running env (int (k mod R) + 1) s3"
    "clock_fields s3 = clock_fields (s\<lparr>daqSlot := int (k mod R)\<rparr>)" "labels s3 = labels s" "end_of_block env inp s3 = Some s'"
    using call_split [OF assms(1-3)] k(1) unfolding R_def [symmetric] by auto
  have s3: "daqBlockNum s3 = int ((15 + b) mod 16)" "daqXmitBlockNum s3 = int (b mod 16)"
    using c(4) assms(2) by (simp_all add: clock_fields_def daq_inv_def daq_clock_def Let_def R_def b_def)
  define t where "t = next_block (announce env inp s3)"
  have "daqBlockNum t = 15"
  proof -
    have "(15 + Suc b) mod 16 = 15" using k(2) by presburger
    then show ?thesis using next_block_clock(2) [OF s3(2,1), of env inp] by (simp add: t_def)
  qed
  moreover have run: "running env 0 t" using announced_ok [OF c(3)] s3(2) by (simp add: t_def)
  obtain u where u: "check_testpoints env t = Some u" "clock_fields u = clock_fields t"
    using check_running [OF assms(1) run] by blast
  ultimately have chk: "check_testpoints env t = Some s'" using c(6) by (auto simp: end_of_block_def Let_def clock_fields_def t_def)
  have "kept s' = kept t" using check_testpoints_ok [OF assms(1), of t] run chk by (auto simp: running_def)
  then have "validTpNet s' = validTpNet t" by (simp add: kept_def)
  moreover have "map fst (gdsTp t) = map fst (gdsTp s)" "validTpNet t = validTpNet s"
    using c(4,5) by (simp_all add: t_def next_block_def announce_def Let_def clock_fields_def labels_def)
  ultimately show ?thesis using run chk c(1,2) by auto
qed

text \<open>Calls only, from any state of a run.\<close>

lemma run_calls:
  fixes inp :: daq_in
  assumes "env_ok env" "daq_inv env (k, s)" "reach (daq_step env) s0 (k, s)" "500 \<le> length (tpData inp)"
  shows "\<exists>s'. reach (daq_step env) s0 (k + n, s') \<and> daq_inv env (k + n, s') \<and> pInfo s' = pInfo s \<and>
    map fst (gdsTp s') = map fst (gdsTp s)"
proof (induction n)
  case 0
  then show ?case using assms(2,3) by (intro exI [of _ s]) simp
next
  case (Suc n)
  then obtain s' where s': "reach (daq_step env) s0 (k + n, s')" "daq_inv env (k + n, s')" "pInfo s' = pInfo s"
    "map fst (gdsTp s') = map fst (gdsTp s)" by blast
  obtain r s'' where "daqWrite 1 env inp s' = Some (r, s'')" "daq_inv env (Suc (k + n), s'')" "pInfo s'' = pInfo s'"
    "map fst (gdsTp s'') = map fst (gdsTp s')"
    using daq_cycle_parts [OF assms(1) s'(2) assms(4)] by blast
  then show ?case
    using s' assms(4) by (intro exI [of _ s'']) (auto intro: reach_step daq_call)
qed

text \<open>An example: a front end without channels, and the test point manager lists number 30003.\<close>

definition ex_tp_daq :: daq_st where
  "ex_tp_daq = ex_daq\<lparr>pInfo := ex_daq_info\<lparr>numChans := 0\<rparr>\<rparr>"

definition ex_tp_lists :: "(u32 list \<times> u32 list) list" where
  "ex_tp_lists = (replicate 3 (replicate 256 0, replicate 256 0)) @ [(30003 # replicate 255 0, replicate 256 0)]"

definition ex_tp_wanted :: "bool \<Rightarrow> u32 list" where
  "ex_tp_wanted exc = (if exc then replicate 64 0 else 30003 # replicate 63 0)"

lemma ex_tp_arrays_ok: "arrays_ok ex_daq_env ex_tp_daq"
  using ex_daq_arrays_ok by (simp add: arrays_ok_def ex_tp_daq_def)

lemma ex_tp_info_fits: "info_fits ex_daq_env (pInfo ex_tp_daq)"
  by (simp add: info_fits_def ex_tp_daq_def ex_daq_info_def ex_daq_env_def chan_start_def)

lemmas ex_tp_run = ex_daq_env_ok ex_tp_arrays_ok ex_tp_info_fits

lemma ex_tp_second:
  "\<exists>r st0 s. daqWrite 0 ex_daq_env ex_daq_in ex_tp_daq = Some (r, st0) \<and> reach (daq_step ex_daq_env) (0, st0) (63, s) \<and>
     daq_inv ex_daq_env (63, s) \<and> numChans (pInfo s) = 0 \<and> map fst (gdsTp s) = map fst ex_tp_lists"
proof -
  obtain r st0 where st0: "daqWrite 0 ex_daq_env ex_daq_in ex_tp_daq = Some (r, st0)" "pInfo st0 = pInfo ex_tp_daq" "daq_connected ex_daq_env st0"
    using connect_arrays [OF ex_tp_run, of ex_daq_in] by blast
  define s where "s = st0\<lparr>gdsTp := ex_tp_lists\<rparr>"
  have "\<forall>i < 4. length (fst (ex_tp_lists ! i)) = 256 \<and> length (snd (ex_tp_lists ! i)) = 256"
    by (auto simp: ex_tp_lists_def nth_append less_Suc_eq numeral_eq_Suc)
  then have "daq_step ex_daq_env (0, st0) (0, s)" unfolding s_def
    using st0(3) by (intro manager) (simp_all add: ex_tp_lists_def daq_connected_def info_copied_def)
  then have reach: "reach (daq_step ex_daq_env) (0, st0) (0, s)" by (rule reach_step [OF reach_init])
  have inv: "daq_inv ex_daq_env (0, s)" using run_inv [OF ex_tp_run st0(1) reach] .
  show ?thesis
    using run_calls [OF ex_daq_env_ok inv reach ex_daq_in_tp, of 63] st0 by (auto simp: s_def ex_tp_daq_def)
qed

lemma ex_tp_lists_read:
  assumes "map fst (gdsTp s) = map fst ex_tp_lists"
  shows "(\<lambda>exc. tp_list ex_daq_env exc s) = ex_tp_wanted"
proof -
  have "fst (gdsTp s ! j) = fst (ex_tp_lists ! j)" if "j < 4" for j
  proof -
    have "length (gdsTp s) = 4" using arg_cong [OF assms, of length] by (simp add: ex_tp_lists_def)
    then show ?thesis using that assms by (metis length_map nth_map)
  qed
  from this [of 1] this [of 3] show ?thesis
    by (auto simp: tp_list_def ex_daq_env_def ex_tp_lists_def nth_append ex_tp_wanted_def fun_eq_iff)
qed

lemma ex_tp_selected:
  assumes "selection_right ex_daq_env ex_tp_wanted ts" "ts \<noteq> []"
  shows "30003 \<in> set ts"
proof -
  have "selectable ex_daq_env False 30003"
    by (simp add: selectable_def ex_daq_env_def daq_range_def Let_def in_range_def)
  then have "30003 \<in> set ts \<or> 0 \<notin> set ts" using assms(1) by (auto simp: selection_right_def ex_tp_wanted_def dest!: spec [of _ False])
  moreover have "t = 30003" if "t \<in> set ts" "0 \<notin> set ts" for t
    using assms(1) that by (auto simp: selection_right_def ex_tp_wanted_def split: if_splits)
  ultimately show ?thesis using assms(2) by (metis list.set_intros(1) neq_Nil_conv)
qed

text \<open>The lists are followed at the end of a second.\<close>

lemma selection_followed:
  assumes "env_ok env" "arrays_ok env st" "info_fits env (pInfo st)" "daqWrite 0 env inp0 st = Some (r0, st0)"
    and "reach (daq_step env) (0, st0) (k, s)" "500 \<le> length (tpData inp)" "Suc k mod (16 * nat (sysRate env)) = 0"
  shows "\<exists>r s'. daqWrite 1 env inp s = Some (r, s') \<and> selection_right env (\<lambda>exc. tp_list env exc s) (tpNum s') \<and>
    totalChans s' = numChans (dataInfo s') + int (num_tps (tpNum s'))"
proof -
  obtain t r s' where t: "running env 0 t" "map fst (gdsTp t) = map fst (gdsTp s)" "check_testpoints env t = Some s'" "daqWrite 1 env inp s = Some (r, s')"
    using second_end [OF assms(1) run_inv [OF assms(1-5)] assms(6,7)] by blast
  have ok: "slots_ok env t" using t(1) by (simp add: running_def)
  have lists: "tp_list env exc t = tp_list env exc s" for exc
    using t(2) ok running_fields(1) run_inv [OF assms(1-5)]
    by (intro tp_list_cong) (auto simp: slots_ok_def arrays_ok_def daq_inv_def)
  have "selection_right env (\<lambda>exc. tp_list env exc s) (tpNum s')" unfolding lists [symmetric] using check_selects [OF assms(1) ok t(3)] by simp
  moreover have "totalChans s' = numChans (dataInfo s') + int (num_tps (tpNum s'))"
    using check_testpoints_ok [OF assms(1) ok] t(3) by auto
  ultimately show ?thesis using t(4) by blast
qed

section \<open>Selected test points\<close>

text \<open>What is selected is transmitted.\<close>

lemma testpoint_delivered:
  assumes "env_ok env" "arrays_ok env st" "info_fits env (pInfo st)" "daqWrite 0 env inp0 st = Some (r0, st0)"
    and "reach (daq_step env) (0, st0) (k, s)" "500 \<le> length (tpData inp)"
    and "\<forall>j < nat (numChans (dataInfo s)). keeps_place env (dtp (dataInfo s) ! j)"
    and "numChans (dataInfo s) + int i < totalChans s" "tpNum s ! i \<noteq> 0"
  shows "\<exists>r s'. daqWrite 1 env inp s = Some (r, s') \<and>
    number_at (swing s') (wbase s + tpStart s + 4 * sysRate env * int i + 4 * int (k mod nat (sysRate env))) 4 =
      uint (float_bits (to_float (sig_value (daqRange env) inp s (tpNum s ! i))))"
proof -
  have inv: "daq_inv env (k, s)" using run_inv [OF assms(1-5)] .
  define slot where "slot = int (k mod nat (sysRate env))"
  have run: "running env slot s" using inv by (simp add: daq_inv_def slot_def)
  obtain t where t: "totalChans s = numChans (dataInfo s) + int t" "\<forall>i < t. slot_clean env s i" "slots_placed env t s"
    using run by (auto simp: running_def slots_sent_def)
  have n: "0 \<le> numChans (dataInfo s)" using running_fields(4) [OF run] .
  define ii where "ii = slot_pos s i"
  define x where "x = sig_value (daqRange env) inp s (tpNum s ! i)"
  define e where "e = localTable s ! ii"
  define h where "h = dHistory s ! ii"
  have "i < t" using assms(8) t(1) by simp
  then have e: "decFactor e = 1" "dataType (dtp (dataInfo s) ! ii) = 4" "loffset e = tpStart s + int i * (sysRate env * 4)"
    using t(2,3) by (auto simp: slot_clean_def slots_placed_def Let_def e_def ii_def)
  have num: "chan_num s ii = tpNum s ! i" "ii < nat (totalChans s)"
    using n assms(8) by (simp_all add: chan_num_def ii_def slot_pos_def Let_def)
  obtain a bs where bs: "sample_bytes 4 slot 1 x (uint_hist h) = (a, bs)" by fastforce
  have "\<exists>r s'. daqWrite 1 env inp s = Some (r, s') \<and> (\<forall>b < length bs. swing s' (nat (wbase s + loffset e + a) + b) = bs ! b)"
    by (rule sample_lands [OF assms(1) inv assms(6) keeps_place_tidy(1) [OF assms(1) run assms(7)] num(2) _ e_def e(2) [symmetric] slot_def])
      (use assms(9) num(1) e(1) bs in \<open>simp_all add: filtered_full_rate x_def h_def\<close>)
  then obtain r s' where s': "daqWrite 1 env inp s = Some (r, s')" "\<forall>b < length bs. swing s' (nat (wbase s + loffset e + a) + b) = bs ! b"
    by blast
  have "number_at (swing s') (wbase s + loffset e + 4 * slot) 4 = uint (float_bits (to_float x))"
    using sample_numbers [OF bs s'(2)] by (simp add: slot_def)
  moreover have place: "wbase s + loffset e = wbase s + tpStart s + 4 * sysRate env * int i" using e(3) by simp
  ultimately show ?thesis using s'(1) unfolding place x_def slot_def by blast
qed

text \<open>C40: the test points of a front end. (1) The front end follows the test point manager: the call that ends a second takes over its
  lists, so that afterwards every number in the slots is in one of the lists, every number of a test point or an excitation of this
  front end that the lists hold is in a slot, unless all 64 slots are taken, and all slots up to the last one in use
  are transmitted. (2) A test point that is selected is recorded: every call writes the value of the signal that its number stands
  for, as a \<open>float\<close>, to the place of the cycle in the region of its slot, which lies behind the channels and the slots
  before it. For (2) no channel of the configuration may be of a kind that leaves its own bytes.\<close>

theorem testpoints_served:
  assumes "env_ok env" "arrays_ok env st" "info_fits env (pInfo st)" "daqWrite 0 env inp0 st = Some (r0, st0)"
    and "reach (daq_step env) (0, st0) (k, s)" "500 \<le> length (tpData inp)"
  shows "(Suc k mod (16 * nat (sysRate env)) = 0 \<longrightarrow>
      (\<exists>r s'. daqWrite 1 env inp s = Some (r, s') \<and>
        (\<forall>t \<in> set (tpNum s'). t = 0 \<or> (\<exists>exc. t \<in> set (tp_list env exc s))) \<and>
        (\<forall>exc. \<forall>t \<in> set (tp_list env exc s). t \<noteq> 0 \<and> selectable env exc t \<longrightarrow> t \<in> set (tpNum s') \<or> 0 \<notin> set (tpNum s')) \<and>
        (\<forall>i < 64. tpNum s' ! i \<noteq> 0 \<longrightarrow> numChans (dataInfo s') + int i < totalChans s'))) \<and>
    (\<forall>i. (\<forall>j < nat (numChans (dataInfo s)). keeps_place env (dtp (dataInfo s) ! j)) \<and>
      numChans (dataInfo s) + int i < totalChans s \<and> tpNum s ! i \<noteq> 0 \<longrightarrow>
      (\<exists>r s'. daqWrite 1 env inp s = Some (r, s') \<and>
        number_at (swing s') (wbase s + tpStart s + 4 * sysRate env * int i + 4 * int (k mod nat (sysRate env))) 4 =
          uint (float_bits (to_float (sig_value (daqRange env) inp s (tpNum s ! i))))))"
proof (intro conjI impI allI)
  assume "Suc k mod (16 * nat (sysRate env)) = 0"
  from selection_followed [OF assms this] obtain r s' where s': "daqWrite 1 env inp s = Some (r, s')"
    "selection_right env (\<lambda>exc. tp_list env exc s) (tpNum s')" "totalChans s' = numChans (dataInfo s') + int (num_tps (tpNum s'))"
    by blast
  have "length (tpNum s') = 64"
    using daq_cycle_ok [OF assms(1) run_inv [OF assms(1-5)] assms(6)] running_fields(1) s'(1) by (auto simp: daq_inv_def arrays_ok_def)
  then have "numChans (dataInfo s') + int i < totalChans s'" if "i < 64" "tpNum s' ! i \<noteq> 0" for i
    using s'(3) num_tps_props(3) [of "tpNum s'" i] that by (cases "i < num_tps (tpNum s')") auto
  then show "\<exists>r s'. daqWrite 1 env inp s = Some (r, s') \<and>
        (\<forall>t \<in> set (tpNum s'). t = 0 \<or> (\<exists>exc. t \<in> set (tp_list env exc s))) \<and>
        (\<forall>exc. \<forall>t \<in> set (tp_list env exc s). t \<noteq> 0 \<and> selectable env exc t \<longrightarrow> t \<in> set (tpNum s') \<or> 0 \<notin> set (tpNum s')) \<and>
        (\<forall>i < 64. tpNum s' ! i \<noteq> 0 \<longrightarrow> numChans (dataInfo s') + int i < totalChans s')"
    using s'(1,2) unfolding selection_right_def by blast
qed (use testpoint_delivered [OF assms] in blast)

text \<open>The example: number 30003 is listed in the first second, selected at its end, and in the next cycle its value, the number 3, is
  in the block.\<close>

lemma ex_tp_sent:
  "\<exists>r st0 s r' s' i. daqWrite 0 ex_daq_env ex_daq_in ex_tp_daq = Some (r, st0) \<and> reach (daq_step ex_daq_env) (0, st0) (63, s) \<and>
     daqWrite 1 ex_daq_env ex_daq_in s = Some (r', s') \<and> i < 64 \<and> tpNum s' ! i = 30003 \<and> numChans (pInfo s') = 0 \<and>
     length (tpNum s') = 64"
proof -
  obtain r st0 s where s: "daqWrite 0 ex_daq_env ex_daq_in ex_tp_daq = Some (r, st0)" "reach (daq_step ex_daq_env) (0, st0) (63, s)"
    "daq_inv ex_daq_env (63, s)" "map fst (gdsTp s) = map fst ex_tp_lists" "numChans (pInfo s) = 0"
    using ex_tp_second by blast
  have "Suc 63 mod (16 * nat (sysRate ex_daq_env)) = 0" by (simp add: ex_daq_env_def)
  from selection_followed [OF ex_tp_run s(1,2) ex_daq_in_tp this, unfolded ex_tp_lists_read [OF s(4)]]
  obtain r' s' where s': "daqWrite 1 ex_daq_env ex_daq_in s = Some (r', s')" "selection_right ex_daq_env ex_tp_wanted (tpNum s')"
    by blast
  have "daq_inv ex_daq_env (Suc 63, s')" using daq_cycle_ok [OF ex_daq_env_ok s(3) ex_daq_in_tp] s'(1) by auto
  then have len: "length (tpNum s') = 64" using running_fields(1) by (auto simp: daq_inv_def arrays_ok_def)
  then have "30003 \<in> set (tpNum s')" by (intro ex_tp_selected [OF s'(2)]) auto
  then obtain i where "i < 64" "tpNum s' ! i = 30003" using len by (auto simp: in_set_conv_nth)
  moreover have "pInfo s' = pInfo s" using daq_cycle_parts [OF ex_daq_env_ok s(3) ex_daq_in_tp] s'(1) by auto
  then have "numChans (pInfo s') = 0" using s(5) by simp
  ultimately show ?thesis using s(1,2) s'(1) len by blast
qed

theorem testpoints_served_witness:
  "\<exists>r st0 s r1 s1 i r2 s2. daqWrite 0 ex_daq_env ex_daq_in ex_tp_daq = Some (r, st0) \<and> reach (daq_step ex_daq_env) (0, st0) (63, s) \<and>
     daqWrite 1 ex_daq_env ex_daq_in s = Some (r1, s1) \<and> tpNum s1 ! i = 30003 \<and>
     daqWrite 1 ex_daq_env ex_daq_in (s1\<lparr>dsp := dsp ex_daq\<rparr>) = Some (r2, s2) \<and>
     number_at (swing s2) (wbase s1 + tpStart s1 + 16 * int i) 4 = 0x40400000"
proof -
  obtain r st0 s r1 s1 i where s: "daqWrite 0 ex_daq_env ex_daq_in ex_tp_daq = Some (r, st0)" "reach (daq_step ex_daq_env) (0, st0) (63, s)"
    "daqWrite 1 ex_daq_env ex_daq_in s = Some (r1, s1)" "i < 64" "tpNum s1 ! i = 30003" "numChans (pInfo s1) = 0" "length (tpNum s1) = 64"
    using ex_tp_sent by blast
  define s2 where "s2 = s1\<lparr>dsp := dsp ex_daq\<rparr>"
  have "Suc 63 mod (16 * nat (sysRate ex_daq_env)) = 0" by (simp add: ex_daq_env_def)
  then have sent: "numChans (dataInfo s1) + int i < totalChans s1"
    using testpoints_served [OF ex_tp_run s(1,2) ex_daq_in_tp] s(3-5) by auto
  have r64: "reach (daq_step ex_daq_env) (0, st0) (64, s1)" using reach_step [OF s(2) daq_call [OF ex_daq_in_tp s(3)]] by simp
  have "daq_inv ex_daq_env (64, s1)" by (rule run_inv [OF ex_tp_run s(1) r64])
  then have "running ex_daq_env (int (64 mod nat (sysRate ex_daq_env))) s1" by (simp add: daq_inv_def)
  then have run: "running ex_daq_env 0 s1" by (simp add: ex_daq_env_def)
  have "30003 \<in> set (tpNum s1)" using s(4,5,7) nth_mem [of i "tpNum s1"] by simp
  moreover have "(30003 :: u32) \<noteq> 0" by simp
  ultimately have "\<not> idle s1" unfolding idle_def by blast
  then have none: "numChans (dataInfo s1) = 0" using running_fields(3) [OF run] s(6) by simp
  have "daq_step ex_daq_env (64, s1) (64, s1\<lparr>dsp := dsp ex_daq, excSignal := excSignal s1\<rparr>)"
    using running_fields(1) [OF run] ex_daq_arrays_ok by (intro front_end) (simp_all add: arrays_ok_def)
  then have "reach (daq_step ex_daq_env) (0, st0) (64, s2)" using reach_step [OF r64] by (simp add: s2_def)
  from testpoints_served [OF ex_tp_run s(1) this ex_daq_in_tp, THEN conjunct2, rule_format, of i]
  obtain r3 s3 where s3: "daqWrite 1 ex_daq_env ex_daq_in s2 = Some (r3, s3)"
    "number_at (swing s3) (wbase s1 + tpStart s1 + 16 * int i) 4 = uint (float_bits (to_float (sig_value (daq_range True 1) ex_daq_in s2 30003)))"
    using sent none s(5) by (auto simp: s2_def ex_daq_env_def)
  have "sig_value (daq_range True 1) ex_daq_in s2 30003 = of_cint 3" by (simp add: sig_value_def daq_range_def Let_def ex_daq_def s2_def)
  moreover have "uint (float_bits (to_float (of_cint 3))) = 0x40400000" by code_simp
  ultimately have "number_at (swing s3) (wbase s1 + tpStart s1 + 16 * int i) 4 = 0x40400000" using s3(2) by simp
  then show ?thesis using s(1-3,5) s3(1) unfolding s2_def by blast
qed

end
