(* ===== verification/TimeConv.thy ===== *)
theory TimeConv
  imports Prelude "HOL-Library.Monad_Syntax"
begin

text \<open>
  Conversion between atomic time and UTC (\<open>src/gds/tconv.c\<close>), in the build of \<open>src/gds/Makefile\<close>: the
  leap seconds come from the table that is compiled in. The target has 64-bit \<open>long\<close>, so \<open>taisec_t\<close>
  is a 64-bit word; \<open>int\<close> and \<open>long\<close> values are integers, with the conversion of a \<open>long\<close> to an \<open>int\<close>
  written out and an overflow of an \<open>int\<close> operation as \<open>None\<close>. The year loop has no obvious measure and is a partial
  function: \<open>None\<close> is also the result of a call that does not return. A null pointer argument is \<open>None\<close>, and so is
  a null pointer that is returned.
\<close>

section \<open>Data\<close>

record utc_t =
  tm_sec :: int
  tm_min :: int
  tm_hour :: int
  tm_mday :: int
  tm_mon :: int
  tm_year :: int
  tm_wday :: int
  tm_yday :: int
  tm_isdst :: int

record leap_t =
  transition :: u64
  change :: int

record tai_t =
  tai_sec :: u64
  tai_nsec :: int

definition SECS_PER_HOUR :: int where "SECS_PER_HOUR = 60 * 60"
definition SECS_PER_DAY :: int where "SECS_PER_DAY = SECS_PER_HOUR * 24"
definition OFFS_YEAR :: int where "OFFS_YEAR = 1972"
definition OFFS_LEAP :: int where "OFFS_LEAP = 10"
definition OFFS_TAI :: int where "OFFS_TAI = ((72 - 58) * 365 + 3) * SECS_PER_DAY + OFFS_LEAP"
definition OFFS_WDAY :: int where "OFFS_WDAY = 6"
definition TAIatGPSzero :: u64 where "TAIatGPSzero = 694656019"
definition ONESEC :: int where "ONESEC = 1000000000"

definition ISLEAP :: "int \<Rightarrow> bool" where
  "ISLEAP year \<longleftrightarrow> year smod 4 = 0 \<and> (year smod 100 \<noteq> 0 \<or> year smod 400 = 0)"

definition LEAPS_THRU_END_OF :: "int \<Rightarrow> int" where
  "LEAPS_THRU_END_OF y = y sdiv 4 - y sdiv 100 + y sdiv 400"

definition mon_yday :: "bool \<Rightarrow> int list" where
  "mon_yday leap =
     (if leap then [0, 31, 60, 91, 121, 152, 182, 213, 244, 274, 305, 335, 366]
      else [0, 31, 59, 90, 120, 151, 181, 212, 243, 273, 304, 334, 365])"

definition leap_entry :: "int \<times> int \<times> int \<Rightarrow> leap_t" where
  "leap_entry = (\<lambda>(days, secs, c). \<lparr>transition = of_int (OFFS_TAI + days * SECS_PER_DAY + secs), change = c\<rparr>)"

definition num_leaps :: nat where "num_leaps = 27"

definition leaps :: "leap_t list" where
  "leaps =
     map leap_entry
      [(182, 0, 1),
       (365 + 1, 1, 2),
       (2 * 365 + 1, 2, 3),
       (3 * 365 + 1, 3, 4),
       (4 * 365 + 1, 4, 5),
       (5 * 365 + 2, 5, 6),
       (6 * 365 + 2, 6, 7),
       (7 * 365 + 2, 7, 8),
       (8 * 365 + 2, 8, 9),
       (9 * 365 + 3 + 181, 9, 10),
       (10 * 365 + 3 + 181, 10, 11),
       (11 * 365 + 3 + 181, 11, 12),
       (13 * 365 + 4 + 181, 12, 13),
       (16 * 365 + 4, 13, 14),
       (18 * 365 + 5, 14, 15),
       (19 * 365 + 5, 15, 16),
       (20 * 365 + 5 + 182, 16, 17),
       (21 * 365 + 6 + 181, 17, 18),
       (22 * 365 + 6 + 181, 18, 19),
       (24 * 365 + 6, 19, 20),
       (25 * 365 + 7 + 181, 20, 21),
       (27 * 365 + 7, 21, 22),
       (34 * 365 + 9, 22, 23),
       (37 * 365 + 10, 23, 24),
       (40 * 365 + 10 + 182, 24, 25),
       (43 * 365 + 11 + 181, 25, 26),
       (45 * 365 + 12, 26, 27)] @
     replicate 73 \<lparr>transition = 0, change = 0\<rparr>"

section \<open>Integers of the target\<close>

text \<open>The value of a \<open>long\<close> stored in an \<open>int\<close>, and \<open>int\<close> operations, whose overflow is undefined.\<close>

definition long_to_int :: "int \<Rightarrow> int" where
  "long_to_int x = signed_take_bit 31 x"

definition int_ok :: "int \<Rightarrow> int option" where
  "int_ok x = (if - (2 ^ 31) \<le> x \<and> x < 2 ^ 31 then Some x else None)"

section \<open>TAItoUTC\<close>

text \<open>The search for the last transition that is not after \<open>t\<close>; \<open>None\<close> is the index \<open>-1\<close>.\<close>

fun last_leap :: "u64 \<Rightarrow> nat \<Rightarrow> nat option" where
  "last_leap t 0 = None"
| "last_leap t (Suc i) = (if t < transition (leaps ! i) then last_leap t i else Some i)"

fun more_leaps :: "nat \<Rightarrow> int \<Rightarrow> int" where
  "more_leaps 0 n = n"
| "more_leaps (Suc i) n =
     (if transition (leaps ! Suc i) = transition (leaps ! i) + 1 \<and>
         change (leaps ! Suc i) = change (leaps ! i) + 1
      then more_leaps i (n + 1) else n)"

text \<open>For the first entry the code would read before the table if its change were not positive.\<close>

definition at_added_leap :: "u64 \<Rightarrow> nat \<Rightarrow> bool option" where
  "at_added_leap t i =
     (if t \<noteq> transition (leaps ! i) then Some False
      else if i = 0 then (if change (leaps ! i) > 0 then Some True else None)
      else Some (change (leaps ! i) > change (leaps ! (i - 1))))"

definition leap_lookup :: "u64 \<Rightarrow> (int \<times> int) option" where
  "leap_lookup t =
     (case last_leap t num_leaps of
        None \<Rightarrow> Some (0, 0)
      | Some i \<Rightarrow> do {
          added \<leftarrow> at_added_leap t i;
          Some (change (leaps ! i), if added then more_leaps i 1 else 0)
        })"

function rem_up :: "int \<Rightarrow> int \<Rightarrow> int \<times> int" where
  "rem_up r days = (if r < 0 then rem_up (r + SECS_PER_DAY) (days - 1) else (r, days))"
  by auto
termination
  by (relation "measure (\<lambda>(r, _). nat (- r))") (auto simp: SECS_PER_DAY_def SECS_PER_HOUR_def)

function rem_down :: "int \<Rightarrow> int \<Rightarrow> int \<times> int" where
  "rem_down r days = (if r \<ge> SECS_PER_DAY then rem_down (r - SECS_PER_DAY) (days + 1) else (r, days))"
  by auto
termination
  by (relation "measure (\<lambda>(r, _). nat r)") (auto simp: SECS_PER_DAY_def SECS_PER_HOUR_def)

declare rem_up.simps [simp del] rem_down.simps [simp del]

partial_function (option) year_loop :: "int \<Rightarrow> int \<Rightarrow> (int \<times> int) option" where
  "year_loop days y =
     (if days < 0 \<or> days \<ge> (if ISLEAP y then 366 else 365)
      then let yg = y + days sdiv 365 - (if days smod 365 < 0 then 1 else 0)
           in year_loop (days - ((yg - y) * 365 + LEAPS_THRU_END_OF (yg - 1) - LEAPS_THRU_END_OF (y - 1))) yg
      else Some (days, y))"

text \<open>The month loop starts at December; below January the code would read before the table.\<close>

fun month_loop :: "int list \<Rightarrow> int \<Rightarrow> nat \<Rightarrow> nat option" where
  "month_loop ip days 0 = (if days < ip ! 0 then None else Some 0)"
| "month_loop ip days (Suc m) = (if days < ip ! Suc m then month_loop ip days m else Some (Suc m))"

definition fill_utc :: "int \<Rightarrow> int \<Rightarrow> utc_t \<Rightarrow> utc_t option" where
  "fill_utc tt extra u =
     (let (r, d) = rem_up (tt smod SECS_PER_DAY) (tt sdiv SECS_PER_DAY);
          (r, d) = rem_down r d;
          hour = long_to_int (r sdiv SECS_PER_HOUR);
          r = r smod SECS_PER_HOUR;
          wday = long_to_int ((OFFS_WDAY + d) smod 7);
          wday = (if wday < 0 then wday + 7 else wday)
      in do {
        (yday, y) \<leftarrow> year_loop d OFFS_YEAR;
        let ip = mon_yday (ISLEAP y);
        m \<leftarrow> month_loop ip yday 11;
        Some (u\<lparr>tm_hour := hour, tm_min := long_to_int (r sdiv 60), tm_sec := long_to_int (r smod 60) + extra,
                tm_wday := wday, tm_year := long_to_int (y - 1900), tm_yday := long_to_int yday,
                tm_mon := int m, tm_mday := long_to_int (yday - ip ! m + 1)\<rparr>)
      })"

definition TAItoUTC :: "u64 \<Rightarrow> utc_t option \<Rightarrow> utc_t option option" where
  "TAItoUTC t0 utc_ptr =
     (let t = t0 + TAIatGPSzero in
      case utc_ptr of
        None \<Rightarrow> Some None
      | Some u \<Rightarrow>
          if t < of_int OFFS_TAI then Some None
          else do {
            (leap_correction, leap_extra_secs) \<leftarrow> leap_lookup t;
            u' \<leftarrow> fill_utc (sint (t - of_int OFFS_TAI - of_int leap_correction)) leap_extra_secs u;
            Some (Some u')
          })"

section \<open>UTCtoTAI\<close>

function leap_loop :: "u64 \<Rightarrow> int \<Rightarrow> int \<Rightarrow> nat \<Rightarrow> int" where
  "leap_loop tai extra corr i =
     (if i < num_leaps \<and>
         ((extra > 0 \<and> tai + of_int corr - of_int extra > transition (leaps ! i)) \<or>
          (extra = 0 \<and> tai + of_int corr \<ge> transition (leaps ! i)))
      then leap_loop tai extra (change (leaps ! i)) (i + 1)
      else corr)"
  by auto
termination
  by (relation "measure (\<lambda>(_, _, _, i). num_leaps - i)") auto

declare leap_loop.simps [simp del]

definition UTCtoTAI :: "utc_t option \<Rightarrow> u64 option" where
  "UTCtoTAI utc_ptr =
     (case utc_ptr of
        None \<Rightarrow> Some 0
      | Some u \<Rightarrow>
          let r = tm_mon u smod 12;
              q = tm_mon u sdiv 12;
              (mon_remainder, mon_years) = (if r < 0 then (r + 12, q - 1) else (r, q))
          in do {
            y0 \<leftarrow> int_ok (tm_year u + mon_years);
            year \<leftarrow> int_ok (y0 + 1900);
            d0 \<leftarrow> int_ok (mon_yday (ISLEAP year) ! nat mon_remainder + tm_mday u);
            ydays \<leftarrow> int_ok (d0 - 1);
            dy \<leftarrow> int_ok (year - OFFS_YEAR);
            d1 \<leftarrow> int_ok (365 * dy);
            d2 \<leftarrow> int_ok (ydays + d1);
            d3 \<leftarrow> int_ok (d2 + LEAPS_THRU_END_OF (year - 1));
            days \<leftarrow> int_ok (d3 - LEAPS_THRU_END_OF (OFFS_YEAR - 1));
            if days < 0 then Some 0
            else do {
              h \<leftarrow> int_ok (tm_hour u * SECS_PER_HOUR);
              m \<leftarrow> int_ok (tm_min u * 60);
              let tai = of_int days * of_int SECS_PER_DAY + of_int OFFS_TAI + of_int h + of_int m + of_int (tm_sec u);
              let leap_extra_secs = (if tm_sec u > 59 then tm_sec u - 59 else 0);
              Some (tai + of_int (leap_loop tai leap_extra_secs 0 0) - TAIatGPSzero)
            }
          })"

section \<open>Nanoseconds\<close>

text \<open>\<open>tainsec_t\<close> is a signed 64-bit integer; the division truncates, so a negative time has a negative rest.\<close>

definition TAInsec :: "tai_t option \<Rightarrow> u64" where
  "TAInsec p = (case p of None \<Rightarrow> 0 | Some t \<Rightarrow> of_int ONESEC * tai_sec t + of_int (tai_nsec t))"

definition TAI_split :: "u64 \<Rightarrow> tai_t" where
  "TAI_split t = \<lparr>tai_sec = of_int (sint t sdiv ONESEC), tai_nsec = sint t smod ONESEC\<rparr>"

definition TAIsec :: "u64 \<Rightarrow> u64" where
  "TAIsec t =
     (let t0 = TAI_split t in if tai_nsec t0 < 500000000 then tai_sec t0 else tai_sec t0 + 1)"

definition TAIntoUTC :: "u64 \<Rightarrow> utc_t option \<Rightarrow> utc_t option option" where
  "TAIntoUTC t utc_ptr = (let tai = TAIsec t in if tai = 0 then Some None else TAItoUTC tai utc_ptr)"

definition UTCtoTAIn :: "utc_t option \<Rightarrow> u64 option" where
  "UTCtoTAIn utc_ptr = do {
     tai \<leftarrow> UTCtoTAI utc_ptr;
     Some (if tai = 0 then 0 else TAInsec (Some \<lparr>tai_sec = tai, tai_nsec = 0\<rparr>))
   }"

text \<open>The front end's time: the second and the cycle that the IOP writes into shared memory, at 64 kHz.\<close>

definition TAInow :: "int \<Rightarrow> int \<Rightarrow> u64" where
  "TAInow ioMemDataGPS ioMemDataCycle =
     of_int ioMemDataGPS * 1000000000 + of_int ioMemDataCycle * of_int (1000000000 sdiv (64 * 1024))"

function next_leap_index :: "u64 \<Rightarrow> nat \<Rightarrow> nat" where
  "next_leap_index t i =
     (if i < num_leaps \<and> transition (leaps ! i) - TAIatGPSzero \<le> t then next_leap_index t (i + 1) else i)"
  by auto
termination
  by (relation "measure (\<lambda>(_, i). num_leaps - i)") auto

declare next_leap_index.simps [simp del]

text \<open>The second component is what is left in the caller's structure.\<close>

definition getNextLeap :: "u64 \<Rightarrow> leap_t option \<Rightarrow> bool \<times> leap_t option" where
  "getNextLeap t nextleap =
     (case nextleap of
        None \<Rightarrow> (False, None)
      | Some _ \<Rightarrow>
          let i = next_leap_index t 0 in
          if i < num_leaps
          then (True, Some \<lparr>transition = transition (leaps ! i) - TAIatGPSzero, change = change (leaps ! i) + OFFS_LEAP\<rparr>)
          else (False, Some \<lparr>transition = 0, change = 0\<rparr>))"

section \<open>Network form\<close>

text \<open>
  The host is little-endian. \<open>tai_t\<close> holds two \<open>long\<close>s, so its copy takes 16 bytes, of which each \<open>htonl\<close> has
  cut the value to 32 bits; a buffer that is too short is overrun (\<open>None\<close>).
\<close>

definition le64 :: "u64 \<Rightarrow> u8 list" where
  "le64 w = map (\<lambda>i. ucast (drop_bit (8 * i) w)) [0..<8]"

definition from_le64 :: "u8 list \<Rightarrow> u64" where
  "from_le64 bs = foldr (\<lambda>b w. ucast b OR push_bit 8 w) (take 8 bs) 0"

definition bswap32 :: "u32 \<Rightarrow> u32" where
  "bswap32 x = push_bit 24 x OR push_bit 16 (take_bit 8 (drop_bit 8 x)) OR push_bit 8 (take_bit 8 (drop_bit 16 x)) OR
     drop_bit 24 x"

definition htonl :: "u64 \<Rightarrow> u64" where
  "htonl w = ucast (bswap32 (ucast w))"

definition htonTAI :: "u64 \<Rightarrow> u8 list option \<Rightarrow> u8 list option option" where
  "htonTAI t p =
     (case p of
        None \<Rightarrow> Some None
      | Some buf \<Rightarrow>
          if TAIsec t = 0 then Some None
          else if length buf < 16 then None
          else let tai = TAI_split t
               in Some (Some (le64 (htonl (tai_sec tai)) @ le64 (htonl (of_int (tai_nsec tai))) @ drop 16 buf)))"

definition ntohTAI :: "u8 list option \<Rightarrow> u64 option" where
  "ntohTAI p =
     (case p of
        None \<Rightarrow> Some 0
      | Some buf \<Rightarrow>
          if length buf < 16 then None
          else Some (TAInsec (Some \<lparr>tai_sec = htonl (from_le64 buf),
                                   tai_nsec = sint (htonl (from_le64 (drop 8 buf)))\<rparr>)))"

end
