(* ===== verification/TimeCalendar.thy ===== *)
theory TimeCalendar
  imports TimeConv
begin

text \<open>
  The calendar part of \<open>src/gds/tconv.c\<close>: the year loop ends, with the year and the day that the proleptic Gregorian
  calendar gives, and the fields filled in by \<open>TAItoUTC\<close> name the second they were computed from.
\<close>

section \<open>Constants\<close>

lemma SECS_PER_HOUR_eq [simp]: "SECS_PER_HOUR = 3600"
  by (simp add: SECS_PER_HOUR_def)

lemma SECS_PER_DAY_eq [simp]: "SECS_PER_DAY = 86400"
  by (simp add: SECS_PER_DAY_def)

lemma OFFS_TAI_eq [simp]: "OFFS_TAI = 441763210"
  by (simp add: OFFS_TAI_def OFFS_LEAP_def)

lemma long_to_int_small [simp]: "- (2 ^ 31) \<le> x \<Longrightarrow> x < 2 ^ 31 \<Longrightarrow> long_to_int x = x"
  unfolding long_to_int_def by (rule signed_take_bit_int_eq_self) simp_all

lemma int_ok_small [simp]: "- (2 ^ 31) \<le> x \<Longrightarrow> x < 2 ^ 31 \<Longrightarrow> int_ok x = Some x"
  by (simp add: int_ok_def)

section \<open>The calendar\<close>

text \<open>The days before a year, counted from the year 1.\<close>

definition days_before :: "int \<Rightarrow> int" where
  "days_before y = 365 * (y - 1) + (y - 1) div 4 - (y - 1) div 100 + (y - 1) div 400"

definition year_len :: "int \<Rightarrow> int" where
  "year_len y = (if ISLEAP y then 366 else 365)"

lemma ISLEAP_mod: "0 \<le> y \<Longrightarrow> ISLEAP y \<longleftrightarrow> y mod 4 = 0 \<and> (y mod 100 \<noteq> 0 \<or> y mod 400 = 0)"
  by (simp add: ISLEAP_def c_arith)

lemma LEAPS_THRU_END_OF_div:
  "0 \<le> y \<Longrightarrow> LEAPS_THRU_END_OF y = y div 4 - y div 100 + y div 400"
  by (simp add: LEAPS_THRU_END_OF_def c_arith)

lemma div_pred_step:
  fixes y k :: int
  assumes "0 < k"
  shows "y div k = (y - 1) div k + (if y mod k = 0 then 1 else 0)"
proof (cases "y mod k = 0")
  case True
  then obtain q where q: "y = k * q" using assms by auto
  have "(k * q - 1) div k = q - 1"
    by (rule int_div_pos_eq [of _ _ _ "k - 1"]) (use assms in \<open>simp_all add: algebra_simps\<close>)
  with q True assms show ?thesis by simp
next
  case False
  have "0 \<le> y mod k" "y mod k < k" using assms by simp_all
  then have "(y - 1) div k = y div k"
    by (intro int_div_pos_eq [of _ _ _ "y mod k - 1"]) (use False in \<open>simp_all add: algebra_simps\<close>)
  with False show ?thesis by simp
qed

lemma leap_rule_count:
  "(c400 \<Longrightarrow> c100) \<Longrightarrow> (c100 \<Longrightarrow> c4) \<Longrightarrow>
     (if c4 \<and> (\<not> c100 \<or> c400) then 366 else 365 :: int) =
     365 + (if c4 then 1 else 0) - (if c100 then 1 else 0) + (if c400 then 1 else 0)"
  by (cases c4; cases c100; cases c400) simp_all

lemma days_before_Suc:
  assumes "0 \<le> y"
  shows "days_before (y + 1) = days_before y + year_len y"
proof -
  have m: "y mod 400 = 0 \<Longrightarrow> y mod 100 = 0" "y mod 100 = 0 \<Longrightarrow> y mod 4 = 0"
    using mod_mod_cancel [of 100 400 y] mod_mod_cancel [of 4 100 y] by auto
  have "days_before (y + 1) = 365 * y + y div 4 - y div 100 + y div 400"
    by (simp add: days_before_def)
  also have "\<dots> = days_before y + 365 + (if y mod 4 = 0 then 1 else 0) - (if y mod 100 = 0 then 1 else 0)
      + (if y mod 400 = 0 then 1 else 0)"
    by (simp only: days_before_def div_pred_step [of 4 y] div_pred_step [of 100 y] div_pred_step [of 400 y])
      (simp only: algebra_simps)
  also have "\<dots> = days_before y + year_len y"
    unfolding year_len_def ISLEAP_mod [OF assms] using m
    by (simp only: leap_rule_count add.assoc add_diff_eq)
  finally show ?thesis .
qed

lemma days_before_add:
  assumes "1 \<le> y"
  shows "365 * int k \<le> days_before (y + int k) - days_before y \<and>
         days_before (y + int k) - days_before y \<le> 366 * int k"
proof (induction k)
  case 0
  then show ?case by simp
next
  case (Suc k)
  then show ?case
    using assms days_before_Suc [of "y + int k"] by (auto simp: algebra_simps year_len_def split: if_splits)
qed

lemma days_before_diff:
  assumes "1 \<le> y" "y \<le> z"
  shows "365 * (z - y) \<le> days_before z - days_before y" "days_before z - days_before y \<le> 366 * (z - y)"
  using days_before_add [OF assms(1), of "nat (z - y)"] assms(2) by (simp_all add: algebra_simps)

lemma days_before_strict: "1 \<le> y \<Longrightarrow> y < z \<Longrightarrow> days_before (y + 1) \<le> days_before z"
  using days_before_diff [of "y + 1" z] by simp

lemma days_before_two_years:
  assumes "1 \<le> y"
  shows "days_before (y + 2) - days_before y \<le> 731"
proof -
  have "\<not> (ISLEAP y \<and> ISLEAP (y + 1))"
    using assms by (simp add: ISLEAP_mod) presburger
  then show ?thesis
    using assms days_before_Suc [of y] days_before_Suc [of "y + 1"]
    by (auto simp: year_len_def add.assoc split: if_splits)
qed

text \<open>A day count has one year and day of the year.\<close>

lemma year_day_unique:
  assumes "1 \<le> y" "1 \<le> z" "0 \<le> d" "d < year_len y" "0 \<le> e" "e < year_len z"
    and "days_before y + d = days_before z + e"
  shows "y = z \<and> d = e"
  using assms days_before_strict [of y z] days_before_strict [of z y] days_before_Suc [of y] days_before_Suc [of z]
  by (cases y z rule: linorder_cases) auto

lemma year_adjust:
  assumes "1 \<le> y" "1 \<le> z"
  shows "(z - y) * 365 + LEAPS_THRU_END_OF (z - 1) - LEAPS_THRU_END_OF (y - 1) = days_before z - days_before y"
  using assms by (simp add: LEAPS_THRU_END_OF_div days_before_def algebra_simps)

lemma year_guess: "days sdiv 365 - (if days smod 365 < 0 then 1 else 0) = days div (365 :: int)"
proof (cases "0 \<le> days")
  case True
  then show ?thesis by (simp add: c_arith not_less)
next
  case False
  define m where "m = - days"
  have m: "0 < m" "days = - m" using False by (simp_all add: m_def)
  have "days sdiv 365 = - (m div 365)" "days smod 365 = - (m mod 365)"
    using m by (simp_all add: signed_divide_int_def signed_modulo_int_def)
  moreover have "days div 365 = (if m mod 365 = 0 then - (m div 365) else - (m div 365) - 1)"
    using m by (simp add: zdiv_zminus1_eq_if)
  moreover have "0 \<le> m mod 365" by simp
  ultimately show ?thesis by (auto simp del: pos_mod_sign)
qed

lemma year_loop_step:
  assumes "1 \<le> y" "1 \<le> y + days div 365" "days < 0 \<or> year_len y \<le> days"
  shows "year_loop days y =
         year_loop (days + days_before y - days_before (y + days div 365)) (y + days div 365)"
proof -
  have g: "y + days sdiv 365 - (if days smod 365 < 0 then 1 else 0) = y + days div 365"
    using year_guess [of days] by simp
  have a: "days - ((y + days div 365 - y) * 365 + LEAPS_THRU_END_OF (y + days div 365 - 1) - LEAPS_THRU_END_OF (y - 1))
      = days + days_before y - days_before (y + days div 365)"
    using year_adjust [OF assms(1,2)] by linarith
  have "days < 0 \<or> days \<ge> (if ISLEAP y then 366 else 365)"
    using assms(3) by (simp add: year_len_def)
  then show ?thesis
    by (subst year_loop.simps) (simp only: g Let_def a if_True)
qed

lemma year_loop_stop: "0 \<le> days \<Longrightarrow> days < year_len y \<Longrightarrow> year_loop days y = Some (days, y)"
  by (subst year_loop.simps) (simp add: year_len_def)

text \<open>
  The loop ends: \<open>\<bar>days\<bar>\<close> decreases, except when the guess goes back one year, which is then the right one.
\<close>

lemma year_loop_returns:
  assumes "1 \<le> y" "1 \<le> y + days div 365"
  shows "\<exists>d z. year_loop days y = Some (d, z) \<and> 1 \<le> z \<and> 0 \<le> d \<and> d < year_len z \<and>
               d + days_before z = days + days_before y"
  using assms
proof (induction "nat \<bar>days\<bar>" arbitrary: days y rule: less_induct)
  case less
  define k where "k = days div 365"
  define d' where "d' = days + days_before y - days_before (y + k)"
  have r: "days = 365 * k + days mod 365" "0 \<le> days mod 365" "days mod 365 < 365"
    by (simp_all add: k_def)
  consider (stop) "0 \<le> days" "days < year_len y" | (fwd) "year_len y \<le> days"
    | (back1) "days < 0" "k = -1" | (back2) "days < 0" "k \<le> -2"
    using r by linarith
  then show ?case
  proof cases
    case stop
    with less.prems show ?thesis by (auto simp: year_loop_stop)
  next
    case fwd
    have k: "1 \<le> k" using fwd r by (auto simp: year_len_def split: if_splits)
    have b: "365 * k \<le> days_before (y + k) - days_before y" "days_before (y + k) - days_before y \<le> 366 * k"
      using days_before_diff [of y "y + k"] less.prems(1) k by simp_all
    have lo: "- k \<le> d'" and hi: "d' \<le> 364" using b r by (simp_all add: d'_def)
    have "nat \<bar>d'\<bar> < nat \<bar>days\<bar>" using lo hi k r by linarith
    moreover have "- k \<le> d' div 365" using lo k by linarith
    ultimately obtain d z where "year_loop d' (y + k) = Some (d, z)" "1 \<le> z" "0 \<le> d" "d < year_len z"
        "d + days_before z = d' + days_before (y + k)"
      using less.hyps [of d' "y + k"] less.prems k by force
    moreover have "year_loop days y = year_loop d' (y + k)"
      using year_loop_step [OF less.prems] fwd by (simp add: d'_def k_def)
    ultimately show ?thesis by (auto simp: d'_def)
  next
    case back1
    have e: "year_loop days y = year_loop d' (y - 1)"
      using year_loop_step [OF less.prems] back1 by (simp add: d'_def k_def)
    have "days_before y = days_before (y - 1) + year_len (y - 1)"
      using days_before_Suc [of "y - 1"] less.prems back1 by (simp add: k_def)
    then have "d' = days + year_len (y - 1)" using back1 by (simp add: d'_def)
    moreover have "- 365 \<le> days" using r back1 by linarith
    ultimately have "0 \<le> d'" "d' < year_len (y - 1)"
      using back1(1) by (auto simp: year_len_def)
    then have "year_loop days y = Some (d', y - 1)" by (simp add: e year_loop_stop)
    then show ?thesis
      using less.prems back1 \<open>0 \<le> d'\<close> \<open>d' < year_len (y - 1)\<close> by (auto simp: d'_def k_def)
  next
    case back2
    have yk: "1 \<le> y + k" using less.prems by (simp add: k_def)
    have b: "- 365 * k \<le> days_before y - days_before (y + k)" "days_before y - days_before (y + k) \<le> - 366 * k"
      using days_before_diff [of "y + k" y] yk back2 by simp_all
    have p: "0 \<le> d'" using b r by (simp add: d'_def)
    have s: "nat \<bar>d'\<bar> < nat \<bar>days\<bar>"
    proof (cases "k = -2")
      case True
      moreover have "days \<le> - 366" using r True by linarith
      ultimately show ?thesis
        using days_before_two_years [OF yk] p by (simp add: d'_def)
    next
      case False
      then show ?thesis
        using b r p back2 by (simp add: d'_def)
    qed
    moreover have "0 \<le> d' div 365" using p by simp
    ultimately obtain d z where "year_loop d' (y + k) = Some (d, z)" "1 \<le> z" "0 \<le> d" "d < year_len z"
        "d + days_before z = d' + days_before (y + k)"
      using less.hyps [of d' "y + k"] yk by force
    moreover have "year_loop days y = year_loop d' (y + k)"
      using year_loop_step [OF less.prems] back2 by (simp add: d'_def k_def)
    ultimately show ?thesis by (auto simp: d'_def)
  qed
qed

section \<open>Days, hours and months\<close>

lemma rem_up_stop: "0 \<le> r \<Longrightarrow> rem_up r d = (r, d)"
  by (subst rem_up.simps) simp

lemma rem_up_once: "r < 0 \<Longrightarrow> - 86400 \<le> r \<Longrightarrow> rem_up r d = (r + 86400, d - 1)"
  by (subst rem_up.simps) (simp add: rem_up_stop)

lemma rem_down_stop: "r < 86400 \<Longrightarrow> rem_down r d = (r, d)"
  by (subst rem_down.simps) simp

lemma mon_yday_nonneg: "m \<le> 12 \<Longrightarrow> 0 \<le> mon_yday b ! m"
  by (auto simp: mon_yday_def nth_Cons split: nat.splits)

lemma day_split: "rem_up (tt smod 86400) (tt sdiv 86400) = (tt mod 86400, tt div 86400)"
proof (cases "0 \<le> tt")
  case True
  then show ?thesis by (simp add: c_arith rem_up_stop)
next
  case False
  define m where "m = - tt"
  have m: "0 < m" "tt = - m" using False by (simp_all add: m_def)
  have q: "tt sdiv 86400 = - (m div 86400)" "tt smod 86400 = - (m mod 86400)"
    using m by (simp_all add: signed_divide_int_def signed_modulo_int_def)
  have d: "tt div 86400 = (if m mod 86400 = 0 then - (m div 86400) else - (m div 86400) - 1)"
    "tt mod 86400 = (if m mod 86400 = 0 then 0 else 86400 - m mod 86400)"
    using m by (simp_all add: zdiv_zminus1_eq_if zmod_zminus1_eq_if)
  have b: "0 \<le> m mod 86400" "m mod 86400 < 86400" by simp_all
  show ?thesis
    unfolding q d using b
    by (cases "m mod 86400 = 0") (auto simp: rem_up_stop rem_up_once simp del: pos_mod_sign pos_mod_bound)
qed

lemma month_loop_finds:
  "0 \<le> d \<Longrightarrow> ip ! 0 = 0 \<Longrightarrow> d < ip ! Suc n \<Longrightarrow>
     \<exists>m \<le> n. month_loop ip d n = Some m \<and> ip ! m \<le> d \<and> d < ip ! Suc m"
proof (induction n)
  case 0
  then show ?case by simp
next
  case (Suc n)
  show ?case
  proof (cases "d < ip ! Suc n")
    case True
    with Suc show ?thesis by (auto intro: le_SucI)
  next
    case False
    with Suc.prems show ?thesis by auto
  qed
qed

lemma mon_yday_ends: "mon_yday b ! 0 = 0" "mon_yday (ISLEAP y) ! 12 = year_len y"
  by (simp_all add: mon_yday_def year_len_def numeral_eq_Suc)

lemma month_of_day:
  assumes "0 \<le> d" "d < year_len y"
  shows "\<exists>m \<le> 11. month_loop (mon_yday (ISLEAP y)) d 11 = Some m \<and>
           mon_yday (ISLEAP y) ! m \<le> d \<and> d < mon_yday (ISLEAP y) ! Suc m"
  using month_loop_finds [of d "mon_yday (ISLEAP y)" 11] assms
  by (simp add: mon_yday_ends)

lemma mon_yday_le: "m \<le> 12 \<Longrightarrow> mon_yday (ISLEAP y) ! m \<le> year_len y"
  by (auto simp: mon_yday_def year_len_def nth_Cons split: nat.splits)

text \<open>
  The specification: the fields name the second \<open>tt\<close> after the beginning of 1972, in a calendar without leap
  seconds; \<open>extra\<close> is added to the seconds.
\<close>

definition utc_names :: "int \<Rightarrow> int \<Rightarrow> utc_t \<Rightarrow> bool" where
  "utc_names tt extra u \<longleftrightarrow>
     (let y = tm_year u + 1900 in
      1 \<le> y \<and> 0 \<le> tm_mon u \<and> tm_mon u \<le> 11 \<and> 1 \<le> tm_mday u \<and>
      tm_mday u \<le> mon_yday (ISLEAP y) ! nat (tm_mon u + 1) - mon_yday (ISLEAP y) ! nat (tm_mon u) \<and>
      tm_yday u = mon_yday (ISLEAP y) ! nat (tm_mon u) + tm_mday u - 1 \<and>
      days_before y + tm_yday u = days_before 1972 + tt div 86400 \<and>
      tm_wday u = (6 + tt div 86400) mod 7 \<and>
      0 \<le> tm_hour u \<and> tm_hour u < 24 \<and> 0 \<le> tm_min u \<and> tm_min u < 60 \<and>
      extra \<le> tm_sec u \<and> tm_sec u < 60 + extra \<and>
      tm_hour u * 3600 + tm_min u * 60 + tm_sec u = tt mod 86400 + extra)"

lemma smod_wrap: "(if x smod 7 < 0 then x smod 7 + 7 else x smod 7) = x mod (7 :: int)"
proof (cases "0 \<le> x")
  case True
  then show ?thesis by (simp add: c_arith not_less)
next
  case False
  define m where "m = - x"
  have m: "0 < m" "x = - m" using False by (simp_all add: m_def)
  have "x smod 7 = - (m mod 7)" using m by (simp add: signed_modulo_int_def)
  moreover have "x mod 7 = (if m mod 7 = 0 then 0 else 7 - m mod 7)"
    using m by (simp add: zmod_zminus1_eq_if)
  moreover have "0 \<le> m mod 7" by simp
  ultimately show ?thesis by (auto simp del: pos_mod_sign)
qed

lemma smod_7_small: "long_to_int (x smod 7) = x smod 7"
  using smod_int_range [of 7 x] by (intro long_to_int_small) auto

lemma seconds_of_day:
  "tt mod 86400 mod 3600 = tt mod 3600" "tt mod 3600 mod 60 = tt mod (60 :: int)"
  by (simp_all add: mod_mod_cancel)

lemma time_of_day:
  fixes tt :: int
  shows "0 \<le> tt mod 86400 div 3600" "tt mod 86400 div 3600 < 24"
    "0 \<le> tt mod 3600 div 60" "tt mod 3600 div 60 < 60"
    "tt mod 86400 div 3600 * 3600 + tt mod 3600 div 60 * 60 + tt mod 60 = tt mod 86400"
proof -
  have b: "0 \<le> tt mod 86400" "tt mod 86400 < 86400" "0 \<le> tt mod 3600" "tt mod 3600 < 3600" by simp_all
  then show "0 \<le> tt mod 86400 div 3600" "0 \<le> tt mod 3600 div 60" by (simp_all add: pos_imp_zdiv_nonneg_iff)
  show "tt mod 86400 div 3600 < 24" "tt mod 3600 div 60 < 60" using b by linarith+
  show "tt mod 86400 div 3600 * 3600 + tt mod 3600 div 60 * 60 + tt mod 60 = tt mod 86400"
    using div_mult_mod_eq [of "tt mod 86400" 3600] div_mult_mod_eq [of "tt mod 3600" 60]
    by (simp only: seconds_of_day)
qed

lemma clock_fields:
  "long_to_int (tt mod 86400 sdiv 3600) = tt mod 86400 div 3600"
  "long_to_int (tt mod 86400 smod 3600 sdiv 60) = tt mod 3600 div 60"
  "long_to_int (tt mod 86400 smod 3600 smod 60) = tt mod 60"
proof -
  have m: "tt mod 86400 smod 3600 = tt mod 3600"
    by (simp add: smod_nonneg seconds_of_day del: mod_mod_trivial)
  show "long_to_int (tt mod 86400 sdiv 3600) = tt mod 86400 div 3600"
    using time_of_day(1,2) [of tt] by (simp add: sdiv_nonneg)
  show "long_to_int (tt mod 86400 smod 3600 sdiv 60) = tt mod 3600 div 60"
    using time_of_day(3,4) [of tt] by (simp add: m sdiv_nonneg)
  have "0 \<le> tt mod 60" "tt mod 60 < 60" by simp_all
  then show "long_to_int (tt mod 86400 smod 3600 smod 60) = tt mod 60"
    by (simp add: m smod_nonneg seconds_of_day)
qed

lemma fill_utc_returns:
  assumes "- 719415 \<le> tt div 86400"
  shows "\<exists>u' y yday m. fill_utc tt extra u = Some u' \<and> 1 \<le> y \<and> 0 \<le> yday \<and> yday < year_len y \<and>
           yday + days_before y = tt div 86400 + days_before 1972 \<and> m \<le> 11 \<and>
           mon_yday (ISLEAP y) ! m \<le> yday \<and> yday < mon_yday (ISLEAP y) ! Suc m \<and>
           u' = u\<lparr>tm_hour := tt mod 86400 div 3600, tm_min := tt mod 3600 div 60,
                  tm_sec := tt mod 60 + extra, tm_wday := (6 + tt div 86400) mod 7,
                  tm_year := long_to_int (y - 1900), tm_yday := yday, tm_mon := int m,
                  tm_mday := yday - mon_yday (ISLEAP y) ! m + 1\<rparr>"
proof -
  define d where "d = tt div 86400"
  have g: "(-719415) div 365 \<le> d div 365" using assms by (intro zdiv_mono1) (simp_all add: d_def)
  obtain yday y where y: "year_loop d 1972 = Some (yday, y)" "1 \<le> y" "0 \<le> yday" "yday < year_len y"
      "yday + days_before y = d + days_before 1972"
    using year_loop_returns [of 1972 d] g by auto
  obtain m where m: "m \<le> 11" "month_loop (mon_yday (ISLEAP y)) yday 11 = Some m"
      "mon_yday (ISLEAP y) ! m \<le> yday" "yday < mon_yday (ISLEAP y) ! Suc m"
    using month_of_day [OF y(3,4)] by blast
  have "yday - mon_yday (ISLEAP y) ! m + 1 < 2 ^ 31" "0 \<le> yday - mon_yday (ISLEAP y) ! m" "yday < 2 ^ 31"
    using y m mon_yday_nonneg [of m "ISLEAP y"] by (auto simp: year_len_def split: if_splits)
  then have "fill_utc tt extra u = Some (u\<lparr>tm_hour := tt mod 86400 div 3600, tm_min := tt mod 3600 div 60,
      tm_sec := tt mod 60 + extra, tm_wday := (6 + d) mod 7, tm_year := long_to_int (y - 1900), tm_yday := yday,
      tm_mon := int m, tm_mday := yday - mon_yday (ISLEAP y) ! m + 1\<rparr>)"
    using y(1,3) m(2)
    by (simp add: fill_utc_def day_split rem_down_stop smod_7_small smod_wrap OFFS_WDAY_def OFFS_YEAR_def
        clock_fields Let_def d_def [symmetric])
  with y m show ?thesis unfolding d_def by blast
qed

end
