(* ===== verification/TimeLeap.thy ===== *)
theory TimeLeap
  imports TimeCalendar
begin

text \<open>
  The leap second part of \<open>src/gds/tconv.c\<close> and the theorems on the conversions as a whole.
\<close>

section \<open>The leap second table\<close>

definition leap_days :: "int list" where
  "leap_days = [182, 366, 731, 1096, 1461, 1827, 2192, 2557, 2922, 3469, 3834, 4199, 4930, 5844, 6575, 6940, 7487,
     7852, 8217, 8766, 9313, 9862, 12419, 13515, 14792, 15887, 16437]"

lemma leaps_table:
  "i < 27 \<Longrightarrow> uint (transition (leaps ! i)) = 441763210 + 86400 * leap_days ! i + int i \<and> change (leaps ! i) = int i + 1"
proof -
  have "\<forall>i \<in> set [0..<27]. uint (transition (leaps ! i)) = 441763210 + 86400 * leap_days ! i + int i \<and>
    change (leaps ! i) = int i + 1"
    by code_simp
  then show "i < 27 \<Longrightarrow> ?thesis" by simp
qed

lemma leap_days_mono: "k < i \<Longrightarrow> i < 27 \<Longrightarrow> leap_days ! k + 181 * (int i - int k) \<le> leap_days ! i"
proof -
  have "\<forall>i \<in> set [0..<27]. \<forall>k \<in> set [0..<i]. leap_days ! k + 181 * (int i - int k) \<le> leap_days ! i"
    by code_simp
  then show "k < i \<Longrightarrow> i < 27 \<Longrightarrow> ?thesis" by simp
qed

lemma last_leap_Some:
  "last_leap t n = Some i \<Longrightarrow>
     i < n \<and> transition (leaps ! i) \<le> t \<and> (\<forall>j. i < j \<and> j < n \<longrightarrow> t < transition (leaps ! j))"
  by (induction n) (auto split: if_splits simp: less_Suc_eq)

lemma last_leap_None: "last_leap t n = None \<Longrightarrow> j < n \<Longrightarrow> t < transition (leaps ! j)"
  by (induction n) (auto split: if_splits simp: less_Suc_eq)

lemma uint_of_int_small: "0 \<le> x \<Longrightarrow> x < 2 ^ 64 \<Longrightarrow> uint (of_int x :: u64) = x"
  by (simp add: unsigned_of_int take_bit_int_eq_self)

lemma sint_of_int_small: "- (2 ^ 63) \<le> x \<Longrightarrow> x < 2 ^ 63 \<Longrightarrow> sint (of_int x :: u64) = x"
  by (simp add: signed_of_int signed_take_bit_int_eq_self)

lemma leap_days_range: "i < 27 \<Longrightarrow> 182 \<le> leap_days ! i \<and> leap_days ! i \<le> 16437"
proof -
  have "\<forall>i \<in> set [0..<27]. 182 \<le> leap_days ! i \<and> leap_days ! i \<le> 16437" by code_simp
  then show "i < 27 \<Longrightarrow> ?thesis" by simp
qed

lemma more_leaps_none: "i < 27 \<Longrightarrow> more_leaps i n = n"
proof (cases i)
  case 0
  then show ?thesis by simp
next
  case (Suc k)
  assume i: "i < 27"
  have "transition (leaps ! Suc k) \<noteq> transition (leaps ! k) + 1"
  proof
    assume e: "transition (leaps ! Suc k) = transition (leaps ! k) + 1"
    have "transition (leaps ! k) + 1 = of_int (uint (transition (leaps ! k)) + 1)" by simp
    then have "uint (transition (leaps ! Suc k)) = uint (of_int (uint (transition (leaps ! k)) + 1) :: u64)"
      using e by simp
    also have "\<dots> = uint (transition (leaps ! k)) + 1"
      using leaps_table [of k] leap_days_range [of k] i Suc by (intro uint_of_int_small) simp_all
    finally show False
      using leaps_table [of k] leaps_table [of "Suc k"] leap_days_mono [of k "Suc k"] i Suc by simp
  qed
  with Suc show ?thesis by simp
qed

lemma at_added_leap_eq: "i < 27 \<Longrightarrow> at_added_leap t i = Some (t = transition (leaps ! i))"
  using leaps_table [of i] leaps_table [of "i - 1"] by (auto simp: at_added_leap_def)

text \<open>The correction is the number \<open>n\<close> of transitions up to \<open>t\<close>; on a transition there is one extra second.\<close>

definition leap_index :: "u64 \<Rightarrow> nat \<Rightarrow> bool" where
  "leap_index t n \<longleftrightarrow>
     n \<le> 27 \<and> (0 < n \<longrightarrow> transition (leaps ! (n - 1)) \<le> t) \<and> (n < 27 \<longrightarrow> t < transition (leaps ! n))"

definition extra_at :: "u64 \<Rightarrow> nat \<Rightarrow> int" where
  "extra_at t n = (if 0 < n \<and> t = transition (leaps ! (n - 1)) then 1 else 0)"

lemma leap_indexD:
  assumes "leap_index t n"
  shows "n \<le> 27" "0 < n \<Longrightarrow> transition (leaps ! (n - 1)) \<le> t" "n < 27 \<Longrightarrow> t < transition (leaps ! n)"
  using assms by (simp_all add: leap_index_def)

lemma leap_lookup_counts: "\<exists>n. leap_index t n \<and> leap_lookup t = Some (int n, extra_at t n)"
proof (cases "last_leap t num_leaps")
  case None
  then have "leap_index t 0" "leap_lookup t = Some (int 0, extra_at t 0)"
    using last_leap_None [OF None, of 0]
    by (simp_all add: leap_lookup_def leap_index_def extra_at_def num_leaps_def)
  then show ?thesis by blast
next
  case (Some i)
  note i = last_leap_Some [OF Some, unfolded num_leaps_def]
  have "leap_index t (Suc i)" "leap_lookup t = Some (int (Suc i), extra_at t (Suc i))"
    using i leaps_table [of i] Some
    by (simp_all add: leap_lookup_def at_added_leap_eq more_leaps_none leap_index_def extra_at_def)
  then show ?thesis by blast
qed

definition takes_leap :: "u64 \<Rightarrow> int \<Rightarrow> nat \<Rightarrow> bool" where
  "takes_leap tai extra k \<longleftrightarrow>
     (extra > 0 \<and> tai + of_int (int k) - of_int extra > transition (leaps ! k)) \<or>
     (extra = 0 \<and> tai + of_int (int k) \<ge> transition (leaps ! k))"

lemma leap_loop_runs:
  assumes "j \<le> n" "n \<le> 27" "\<And>k. k < n \<Longrightarrow> takes_leap tai extra k" "n < 27 \<Longrightarrow> \<not> takes_leap tai extra n"
  shows "leap_loop tai extra (int j) j = int n"
  using assms(1)
proof (induction rule: inc_induct)
  case base
  have "\<not> (n < num_leaps \<and> takes_leap tai extra n)" using assms(4) by (auto simp: num_leaps_def)
  then show ?case by (subst leap_loop.simps) (auto simp: takes_leap_def)
next
  case (step m)
  have "m < num_leaps" "takes_leap tai extra m" "change (leaps ! m) = int (m + 1)"
    using step.hyps assms(2,3) leaps_table [of m] by (simp_all add: num_leaps_def)
  then show ?case using step.IH
    by (subst leap_loop.simps) (simp add: takes_leap_def)
qed

lemma shifted_time:
  assumes "int n \<le> uint t + int k" "uint t < 2 ^ 62" "k \<le> 27"
  shows "uint (t - of_int (int n) + of_int (int k) :: u64) = uint t - int n + int k"
proof -
  have "t - of_int (int n) + of_int (int k) = of_int (uint t - int n + int k)" by simp
  then show ?thesis
    using assms uint_of_int_small [of "uint t - int n + int k"] by simp
qed

lemma earlier_leap:
  assumes "k < n" "n \<le> 27" "transition (leaps ! (n - 1)) \<le> t"
  shows earlier_leap_strict: "k < n - 1 \<Longrightarrow> uint (transition (leaps ! k)) + int n - int k + 1 \<le> uint t"
    and earlier_leap_weak: "uint (transition (leaps ! k)) + int n - int k - 1 \<le> uint t"
proof -
  have t: "uint (transition (leaps ! (n - 1))) \<le> uint t" using assms(3) by (simp add: word_le_def)
  have i: "int (n - 1) = int n - 1" using assms(1) by (simp add: of_nat_diff)
  show s: "uint (transition (leaps ! k)) + int n - int k + 1 \<le> uint t" if "k < n - 1"
  proof -
    have "leap_days ! k + 181 * (int n - 1 - int k) \<le> leap_days ! (n - 1)"
      using leap_days_mono [of k "n - 1"] that assms i by simp
    moreover have "uint (transition (leaps ! k)) = 441763210 + 86400 * leap_days ! k + int k"
      "uint (transition (leaps ! (n - 1))) = 441763210 + 86400 * leap_days ! (n - 1) + int n - 1"
      using leaps_table [of k] leaps_table [of "n - 1"] assms i by simp_all
    moreover have "int k \<le> int n - 2" using that by simp
    ultimately have "uint (transition (leaps ! k)) + int n - int k + 1 \<le> uint (transition (leaps ! (n - 1)))"
      by (simp only:) (simp add: algebra_simps)
    with t show ?thesis by (rule order_trans [rotated])
  qed
  show "uint (transition (leaps ! k)) + int n - int k - 1 \<le> uint t"
  proof (cases "k = n - 1")
    case True
    then show ?thesis using t i by simp
  next
    case False
    then have "k < n - 1" using assms(1) by simp
    from s [OF this] show ?thesis by simp
  qed
qed

text \<open>The way back finds the same correction, from the time that the fields of the way out give.\<close>

lemma leap_loop_inverts:
  assumes idx: "leap_index t n" and T: "uint t < 2 ^ 62" and ex: "e = extra_at t n"
  shows "leap_loop (t - of_int (int n) + of_int e) e 0 0 = int n - e"
proof (cases "e = 0")
  note n = leap_indexD [OF idx] and e = ex [unfolded extra_at_def]
  case True
  have ge: "int n \<le> uint t" if "0 < n"
    using earlier_leap_weak [of 0 n t] leaps_table [of 0] leap_days_range [of 0] n that by simp
  have "takes_leap (t - of_int (int n) + of_int e) e k" if "k < n" for k
  proof -
    have "uint (transition (leaps ! k)) \<le> uint t - int n + int k"
    proof (cases "k = n - 1")
      case True
      then have "transition (leaps ! k) < t" using e \<open>e = 0\<close> n(2) that by (auto split: if_splits)
      then show ?thesis using True that by (simp add: word_less_def)
    next
      case False
      then have "k < n - 1" using that by simp
      then show ?thesis using earlier_leap_strict [of k n t] n that by simp
    qed
    then show ?thesis
      using True shifted_time [of n t k] T ge n that by (simp add: takes_leap_def word_le_def)
  qed
  moreover have "\<not> takes_leap (t - of_int (int n) + of_int e) e n" if "n < 27"
    using True n(3) [OF that] by (simp add: takes_leap_def)
  ultimately have "leap_loop (t - of_int (int n) + of_int e) e (int 0) 0 = int n"
    using n(1) by (intro leap_loop_runs) simp_all
  with True show ?thesis by simp
next
  note n = leap_indexD [OF idx] and e = ex [unfolded extra_at_def]
  case False
  then have e1: "e = 1" and n0: "0 < n" and t: "t = transition (leaps ! (n - 1))"
    using e by (auto split: if_splits)
  have ge: "int n \<le> uint t"
    using earlier_leap_weak [of 0 n t] leaps_table [of 0] leap_days_range [of 0] n n0 by simp
  have tk: "takes_leap (t - of_int (int n) + of_int e) e k \<longleftrightarrow> uint (transition (leaps ! k)) < uint t - int n + int k"
    if "k \<le> 27" for k
  proof -
    have "t - of_int (int n) + of_int e + of_int (int k) - of_int e = t - of_int (int n) + of_int (int k)" by simp
    then show ?thesis
      using shifted_time [of n t k] ge T that by (simp only: takes_leap_def e1 word_less_def) simp
  qed
  have "takes_leap (t - of_int (int n) + of_int e) e k" if "k < n - 1" for k
  proof -
    have "k < n" using that by simp
    then show ?thesis using earlier_leap_strict [of k n t] n n0 that tk [of k] by simp
  qed
  moreover have "\<not> takes_leap (t - of_int (int n) + of_int e) e (n - 1)"
    using n(1) n0 t tk [of "n - 1"] by (simp add: of_nat_diff)
  ultimately have "leap_loop (t - of_int (int n) + of_int e) e (int 0) 0 = int (n - 1)"
    using n(1) n0 by (intro leap_loop_runs) simp_all
  with e1 n0 show ?thesis by (simp add: of_nat_diff)
qed

section \<open>The conversions\<close>

lemma div_less_of_mult:
  assumes "0 < k" "a < k * b"
  shows "a div k < (b :: int)"
proof (rule ccontr)
  assume "\<not> a div k < b"
  then have "k * b \<le> k * (a div k)" using assms(1) by (intro mult_left_mono) simp_all
  moreover have "k * (a div k) + a mod k = a" "0 \<le> a mod k" using assms(1) by simp_all
  ultimately show False using assms(2) by linarith
qed

lemma days_before_1: "days_before 1 = 0" and days_before_1972: "days_before 1972 = 719892"
  by (simp_all add: days_before_def)

lemma year_bound:
  assumes "1 \<le> y" "0 \<le> d" "d + days_before y = days + 719892"
  shows "365 * (y - 1) \<le> days + 719892"
  using days_before_diff(1) [of 1 y] assms by (simp add: days_before_1)

lemma fill_utc_names:
  assumes "- 719415 \<le> tt div 86400" "tt div 86400 \<le> 2147483170"
  shows "\<exists>u'. fill_utc tt extra u = Some u' \<and> utc_names tt extra u'"
proof -
  obtain u' y yday m where f: "fill_utc tt extra u = Some u'" and y: "1 \<le> y" "0 \<le> yday"
      "yday + days_before y = tt div 86400 + days_before 1972"
    and m: "m \<le> 11" "mon_yday (ISLEAP y) ! m \<le> yday" "yday < mon_yday (ISLEAP y) ! Suc m"
    and u': "u' = u\<lparr>tm_hour := tt mod 86400 div 3600, tm_min := tt mod 3600 div 60,
                  tm_sec := tt mod 60 + extra, tm_wday := (6 + tt div 86400) mod 7,
                  tm_year := long_to_int (y - 1900), tm_yday := yday, tm_mon := int m,
                  tm_mday := yday - mon_yday (ISLEAP y) ! m + 1\<rparr>"
    using fill_utc_returns [OF assms(1), of extra u] by blast
  have "long_to_int (y - 1900) = y - 1900"
    using year_bound [of y yday "tt div 86400"] y assms by (intro long_to_int_small) (simp_all add: days_before_1972)
  then have "utc_names tt extra u'"
    using y m time_of_day [of tt] by (simp add: u' utc_names_def Let_def nat_add_distrib)
  with f show ?thesis by blast
qed

lemma utc_yday_range:
  assumes "utc_names tt e u"
  shows "0 \<le> tm_yday u" "tm_yday u < year_len (tm_year u + 1900)"
proof -
  define y where "y = tm_year u + 1900"
  have u: "0 \<le> tm_mon u" "tm_mon u \<le> 11" "1 \<le> tm_mday u"
    "tm_yday u = mon_yday (ISLEAP y) ! nat (tm_mon u) + tm_mday u - 1"
    "tm_yday u < mon_yday (ISLEAP y) ! nat (tm_mon u + 1)"
    using assms by (auto simp: utc_names_def Let_def y_def)
  show "tm_yday u < year_len y"
    using mon_yday_le [of "nat (tm_mon u + 1)" y] u by (simp add: nat_le_iff)
  show "0 \<le> tm_yday u"
    using mon_yday_nonneg [of "nat (tm_mon u)" "ISLEAP y"] u by (simp add: nat_le_iff)
qed

lemma utc_year_from_1972:
  assumes "utc_names tt e u" "0 \<le> tt"
  shows "1972 \<le> tm_year u + 1900"
proof (rule ccontr)
  define y where "y = tm_year u + 1900"
  have u: "1 \<le> y" "days_before y + tm_yday u = days_before 1972 + tt div 86400"
    using assms(1) by (auto simp: utc_names_def Let_def y_def)
  assume "\<not> 1972 \<le> tm_year u + 1900"
  then have "days_before (y + 1) \<le> days_before 1972"
    using days_before_strict [of y 1972] u by (simp add: y_def)
  moreover have "0 \<le> tt div 86400" using assms(2) by simp
  ultimately show False
    using days_before_Suc [of y] u utc_yday_range(2) [OF assms(1)] by (simp add: y_def)
qed

lemma UTCtoTAI_names:
  assumes u: "utc_names tt e u" and tt: "0 \<le> tt" "tt div 86400 \<le> 2147483170"
  shows "UTCtoTAI (Some u) =
     (let tai = of_int (tt + OFFS_TAI + e); extra = (if tm_sec u > 59 then tm_sec u - 59 else 0)
      in Some (tai + of_int (leap_loop tai extra 0 0) - TAIatGPSzero))"
proof -
  define y where "y = tm_year u + 1900"
  define days where "days = tt div 86400"
  have f: "1 \<le> y" "0 \<le> tm_mon u" "tm_mon u \<le> 11" "1 \<le> tm_mday u"
    "tm_yday u = mon_yday (ISLEAP y) ! nat (tm_mon u) + tm_mday u - 1"
    "tm_yday u + days_before y = days + 719892"
    "0 \<le> tm_hour u" "tm_hour u < 24" "0 \<le> tm_min u" "tm_min u < 60"
    "tm_hour u * 3600 + tm_min u * 60 + tm_sec u = tt mod 86400 + e"
    using u by (auto simp: utc_names_def Let_def y_def days_def days_before_1972)
  have y: "1972 \<le> y" using utc_year_from_1972 [OF u tt(1)] by (simp add: y_def)
  have m0: "0 \<le> mon_yday (ISLEAP y) ! nat (tm_mon u)" using f by (intro mon_yday_nonneg) simp
  have b: "365 * (y - 1) \<le> days + 719892" using year_bound [of y "tm_yday u" days] f m0 by simp
  have L: "LEAPS_THRU_END_OF (y - 1) = days_before y - 365 * (y - 1)"
    using f by (simp add: LEAPS_THRU_END_OF_div days_before_def)
  have L0: "365 * (y - 1) \<le> days_before y"
    using days_before_diff(1) [of 1 y] f by (simp add: days_before_1)
  have L1971: "LEAPS_THRU_END_OF (OFFS_YEAR - 1) = 477"
    by (simp add: LEAPS_THRU_END_OF_div OFFS_YEAR_def)
  have d: "days \<le> 2147483170" "0 \<le> days" using tt by (simp_all add: days_def)
  have mon: "tm_mon u smod 12 = tm_mon u" "tm_mon u sdiv 12 = 0"
    using f by (simp_all add: smod_nonneg sdiv_nonneg)
  have tai: "(of_int days * of_int SECS_PER_DAY + of_int OFFS_TAI + of_int (tm_hour u * SECS_PER_HOUR) +
      of_int (tm_min u * 60) + of_int (tm_sec u) :: u64) = of_int (tt + OFFS_TAI + e)"
  proof -
    have "days * SECS_PER_DAY + OFFS_TAI + tm_hour u * SECS_PER_HOUR + tm_min u * 60 + tm_sec u = tt + OFFS_TAI + e"
      unfolding days_def SECS_PER_DAY_eq SECS_PER_HOUR_eq OFFS_TAI_eq
      using f(11) div_mult_mod_eq [of tt 86400] by linarith
    then show ?thesis by (simp only: of_int_add [symmetric] of_int_mult [symmetric])
  qed
  define c where "c = mon_yday (ISLEAP y) ! nat (tm_mon u)"
  have cd: "c + tm_mday u = days + 719893 - days_before y" "0 \<le> c" "c + tm_mday u \<le> 366"
    using f m0 utc_yday_range(2) [OF u] by (auto simp: c_def y_def year_len_def split: if_splits)
  have ok: "int_ok (tm_year u + 0) = Some (tm_year u)" "int_ok (tm_year u + 1900) = Some y"
    "int_ok (c + tm_mday u) = Some (c + tm_mday u)" "int_ok (c + tm_mday u - 1) = Some (c + tm_mday u - 1)"
    "int_ok (y - OFFS_YEAR) = Some (y - 1972)" "int_ok (365 * (y - 1972)) = Some (365 * (y - 1972))"
    "int_ok (c + tm_mday u - 1 + 365 * (y - 1972)) = Some (c + tm_mday u - 1 + 365 * (y - 1972))"
    "int_ok (c + tm_mday u - 1 + 365 * (y - 1972) + LEAPS_THRU_END_OF (y - 1)) = Some (days + 477)"
    "int_ok (days + 477 - LEAPS_THRU_END_OF (OFFS_YEAR - 1)) = Some days"
    "int_ok (tm_hour u * SECS_PER_HOUR) = Some (tm_hour u * SECS_PER_HOUR)"
    "int_ok (tm_min u * 60) = Some (tm_min u * 60)"
    using f(1-4,7-10) y b L L0 L1971 d cd by (auto simp: int_ok_def OFFS_YEAR_def y_def)
  have sg: "(tm_mon u < 0) = False" "(days < 0) = False" using f(2) d(2) by simp_all
  show ?thesis
    by (simp only: UTCtoTAI_def option.case mon Let_def sg if_False prod.case Option.bind_lunit ok c_def [symmetric] tai)
qed

lemma leap_correction_card:
  assumes "leap_index t n"
  shows "card {i. i < num_leaps \<and> transition (leaps ! i) \<le> t} = n"
proof -
  note n = leap_indexD [OF assms]
  have "transition (leaps ! k) \<le> t" if "k < n" for k
  proof -
    have "uint (transition (leaps ! k)) + int n - int k - 1 \<le> uint t"
      using n that by (intro earlier_leap_weak) simp_all
    then show ?thesis using that by (simp add: word_le_def)
  qed
  moreover have "t < transition (leaps ! k)" if "n \<le> k" "k < 27" for k
  proof -
    have "transition (leaps ! n) \<le> transition (leaps ! k)"
      using leaps_table [of n] leaps_table [of k] leap_days_mono [of n k] that
      by (cases "n = k") (simp_all add: word_le_def)
    then show ?thesis using n(3) that by (simp add: order_less_le_trans)
  qed
  ultimately have "{i. i < num_leaps \<and> transition (leaps ! i) \<le> t} = {..<n}"
    using n(1) by (auto simp: num_leaps_def not_le [symmetric])
  then show ?thesis by simp
qed

lemma length_leaps: "length leaps = 100"
  by (simp add: leaps_def)

lemma extra_at_member:
  assumes "leap_index t n"
  shows "extra_at t n = (if t \<in> transition ` set (take num_leaps leaps) then 1 else 0)"
proof -
  note n = leap_indexD [OF assms]
  have last: "t = transition (leaps ! k) \<Longrightarrow> k < 27 \<Longrightarrow> 0 < n \<and> k = n - 1" for k
  proof -
    assume t: "t = transition (leaps ! k)" and k: "k < 27"
    have "k < n"
    proof (rule ccontr)
      assume "\<not> k < n"
      then have "transition (leaps ! n) \<le> transition (leaps ! k)"
        using leaps_table [of n] leaps_table [of k] leap_days_mono [of n k] k
        by (cases "n = k") (simp_all add: word_le_def)
      then show False using n(3) t k \<open>\<not> k < n\<close> by simp
    qed
    moreover have "\<not> k < n - 1"
      using earlier_leap_strict [of k n t] n t \<open>k < n\<close> by auto
    ultimately show "0 < n \<and> k = n - 1" by simp
  qed
  have "transition ` set (take num_leaps leaps) = {transition (leaps ! k) | k. k < 27}"
    unfolding num_leaps_def nth_image [of 27 leaps, unfolded length_leaps, simplified, symmetric] by auto
  then have "t \<in> transition ` set (take num_leaps leaps) \<longleftrightarrow> (\<exists>k < 27. t = transition (leaps ! k))" by blast
  also have "\<dots> \<longleftrightarrow> 0 < n \<and> t = transition (leaps ! (n - 1))"
  proof (rule iffI)
    assume "\<exists>k < 27. t = transition (leaps ! k)"
    then obtain k where k: "k < 27" "t = transition (leaps ! k)" by blast
    with last [of k] show "0 < n \<and> t = transition (leaps ! (n - 1))" by simp
  next
    assume "0 < n \<and> t = transition (leaps ! (n - 1))"
    with n(1) show "\<exists>k < 27. t = transition (leaps ! k)" by (intro exI [of _ "n - 1"]) simp
  qed
  finally show ?thesis by (simp only: extra_at_def)
qed

text \<open>
  In the range of the conversion: what \<open>TAItoUTC\<close> fills in, and the correction and extra second it used.
\<close>

lemma TAItoUTC_fills:
  assumes lo: "OFFS_TAI \<le> uint (t + TAIatGPSzero)"
    and hi: "uint (t + TAIatGPSzero) < OFFS_TAI + 86400 * 2147483171"
  shows "\<exists>n u'. leap_index (t + TAIatGPSzero) n \<and> TAItoUTC t (Some u) = Some (Some u') \<and>
           0 \<le> uint (t + TAIatGPSzero) - OFFS_TAI - int n \<and>
           utc_names (uint (t + TAIatGPSzero) - OFFS_TAI - int n) (extra_at (t + TAIatGPSzero) n) u'"
proof -
  define T where "T = t + TAIatGPSzero"
  obtain n where idx: "leap_index T n" and lk: "leap_lookup T = Some (int n, extra_at T n)"
    using leap_lookup_counts by blast
  note n = leap_indexD [OF idx]
  define tt where "tt = uint T - OFFS_TAI - int n"
  have tt: "0 \<le> tt"
  proof (cases "n = 0")
    case True
    then show ?thesis using lo by (simp add: tt_def T_def)
  next
    case False
    then show ?thesis
      using earlier_leap_weak [of 0 n T] n leaps_table [of 0] leap_days_range [of 0] by (simp add: tt_def)
  qed
  have hi': "tt < 86400 * 2147483171" using hi by (simp add: tt_def T_def)
  then have "tt div 86400 < 2147483171" by (intro div_less_of_mult) simp_all
  then obtain u' where u': "fill_utc tt (extra_at T n) u = Some u'" "utc_names tt (extra_at T n) u'"
    using fill_utc_names [of tt "extra_at T n" u] tt by force
  have "T - of_int OFFS_TAI - of_int (int n) = of_int tt" by (simp add: tt_def)
  moreover have "sint (of_int tt :: u64) = tt"
    using tt hi' by (intro sint_of_int_small) simp_all
  moreover have "\<not> T < of_int OFFS_TAI" using lo by (simp add: word_less_def T_def)
  ultimately have "TAItoUTC t (Some u) = Some (Some u')"
    using lk u' by (simp add: TAItoUTC_def T_def [symmetric] Let_def)
  with idx tt u' show ?thesis unfolding T_def tt_def by blast
qed

lemma leap_second_fields:
  assumes idx: "leap_index T n" and nm: "utc_names (uint T - OFFS_TAI - int n) (extra_at T n) u"
  shows "(if tm_sec u > 59 then tm_sec u - 59 else 0) = extra_at T n"
proof (cases "extra_at T n = 0")
  case True
  with nm show ?thesis by (simp add: utc_names_def Let_def)
next
  case False
  then have n: "0 < n" "T = transition (leaps ! (n - 1))" "extra_at T n = 1"
    by (auto simp: extra_at_def split: if_splits)
  have "uint T = OFFS_TAI + 86400 * leap_days ! (n - 1) + int (n - 1)"
    using leaps_table [of "n - 1"] leap_indexD(1) [OF idx] n by simp
  then have "uint T - OFFS_TAI - int n = 86400 * leap_days ! (n - 1) + - 1"
    using n(1) by (simp add: of_nat_diff)
  then have "(uint T - OFFS_TAI - int n) mod 86400 = 86399"
    by (simp only: mod_mult_self4) simp
  then have "tm_hour u < 24" "tm_min u < 60" "tm_sec u < 61" "tm_hour u * 3600 + tm_min u * 60 + tm_sec u = 86400"
    using nm n(3) unfolding utc_names_def Let_def by simp_all
  then show ?thesis using n(3) by simp
qed

text \<open>C14: a round trip. For every time from the beginning of 1972 to the day 2147483170 after it (some 5.8 million
  years), leap seconds included, \<open>TAItoUTC\<close> returns a broken-down time, and \<open>UTCtoTAI\<close> turns that back into the
  time it was made from. Times before 1980 are in the range too: there the unsigned argument wraps.\<close>

theorem utc_round_trip:
  assumes "OFFS_TAI \<le> uint (t + TAIatGPSzero)"
    and "uint (t + TAIatGPSzero) < OFFS_TAI + 86400 * 2147483171"
  shows "\<exists>u'. TAItoUTC t (Some u) = Some (Some u') \<and> UTCtoTAI (Some u') = Some t"
proof -
  define T where "T = t + TAIatGPSzero"
  obtain n u' where idx: "leap_index T n" and u': "TAItoUTC t (Some u) = Some (Some u')"
    and tt: "0 \<le> uint T - OFFS_TAI - int n" and nm: "utc_names (uint T - OFFS_TAI - int n) (extra_at T n) u'"
    using TAItoUTC_fills [OF assms, of u] unfolding T_def by blast
  have "uint T - OFFS_TAI - int n < 86400 * 2147483171" using assms(2) by (simp add: T_def)
  then have "(uint T - OFFS_TAI - int n) div 86400 < 2147483171" by (intro div_less_of_mult) simp_all
  then have "UTCtoTAI (Some u') = (let tai = T - of_int (int n) + of_int (extra_at T n);
      extra = (if tm_sec u' > 59 then tm_sec u' - 59 else 0)
      in Some (tai + of_int (leap_loop tai extra 0 0) - TAIatGPSzero))"
    using UTCtoTAI_names [OF nm tt] by simp
  moreover have "leap_loop (T - of_int (int n) + of_int (extra_at T n)) (extra_at T n) 0 0 = int n - extra_at T n"
    using assms(2) by (intro leap_loop_inverts [OF idx]) (simp_all add: T_def)
  ultimately have "UTCtoTAI (Some u') = Some (T - TAIatGPSzero)"
    unfolding leap_second_fields [OF idx nm] by (simp add: Let_def)
  with u' show ?thesis by (auto simp: T_def)
qed


definition utc_zero :: utc_t where
  "utc_zero = \<lparr>tm_sec = 0, tm_min = 0, tm_hour = 0, tm_mday = 0, tm_mon = 0, tm_year = 0, tm_wday = 0, tm_yday = 0,
     tm_isdst = 0\<rparr>"

theorem utc_round_trip_witness:
  "OFFS_TAI \<le> uint (1167264017 + TAIatGPSzero) \<and> uint (1167264017 + TAIatGPSzero) < OFFS_TAI + 86400 * 2147483171 \<and>
   (\<exists>u'. TAItoUTC 1167264017 (Some utc_zero) = Some (Some u') \<and> UTCtoTAI (Some u') = Some 1167264017)"
  using utc_round_trip [of 1167264017 utc_zero] by (simp add: TAIatGPSzero_def)

text \<open>C21: the fields have the ranges of \<open>struct tm\<close> and name the right second: in the Gregorian calendar, counted
  from the beginning of 1972 and less one second for every leap second of the table so far; during a leap second
  \<open>tm_sec\<close> is 60.\<close>

theorem TAItoUTC_names_the_second:
  assumes "OFFS_TAI \<le> uint (t + TAIatGPSzero)"
    and "uint (t + TAIatGPSzero) < OFFS_TAI + 86400 * 2147483171"
  shows "\<exists>u'. TAItoUTC t (Some u) = Some (Some u') \<and>
           utc_names (uint (t + TAIatGPSzero) - OFFS_TAI
                        - int (card {i. i < num_leaps \<and> transition (leaps ! i) \<le> t + TAIatGPSzero}))
                     (if t + TAIatGPSzero \<in> transition ` set (take num_leaps leaps) then 1 else 0) u'"
proof -
  obtain n u' where idx: "leap_index (t + TAIatGPSzero) n" and u': "TAItoUTC t (Some u) = Some (Some u')"
    and nm: "utc_names (uint (t + TAIatGPSzero) - OFFS_TAI - int n) (extra_at (t + TAIatGPSzero) n) u'"
    using TAItoUTC_fills [OF assms, of u] by blast
  show ?thesis
    using u' nm unfolding leap_correction_card [OF idx] extra_at_member [OF idx] by blast
qed

theorem TAItoUTC_names_the_second_witness:
  "OFFS_TAI \<le> uint (1167264017 + TAIatGPSzero) \<and> uint (1167264017 + TAIatGPSzero) < OFFS_TAI + 86400 * 2147483171 \<and>
   (\<exists>u'. TAItoUTC 1167264017 (Some utc_zero) = Some (Some u') \<and>
      utc_names (uint (1167264017 + TAIatGPSzero) - OFFS_TAI
                   - int (card {i. i < num_leaps \<and> transition (leaps ! i) \<le> 1167264017 + TAIatGPSzero}))
                (if 1167264017 + TAIatGPSzero \<in> transition ` set (take num_leaps leaps) then 1 else 0) u')"
  using TAItoUTC_names_the_second [of 1167264017 utc_zero] by (simp add: TAIatGPSzero_def)

section \<open>Termination\<close>

lemma TAItoUTC_returns:
  assumes "\<And>n. n \<le> 27 \<Longrightarrow>
    - 719415 * 86400 \<le> sint (t + TAIatGPSzero - of_int OFFS_TAI - of_int (int n))"
  shows "\<exists>r. TAItoUTC t p = Some r"
proof (cases p)
  case None
  then show ?thesis by (simp add: TAItoUTC_def)
next
  case (Some u)
  obtain n where n: "leap_index (t + TAIatGPSzero) n"
      "leap_lookup (t + TAIatGPSzero) = Some (int n, extra_at (t + TAIatGPSzero) n)"
    using leap_lookup_counts by blast
  define tt where "tt = sint (t + TAIatGPSzero - of_int OFFS_TAI - of_int (int n))"
  have "(- 719415 * 86400) div 86400 \<le> tt div 86400"
    unfolding tt_def by (intro zdiv_mono1 assms leap_indexD(1) [OF n(1)]) simp
  then obtain u' where "fill_utc tt (extra_at (t + TAIatGPSzero) n) u = Some u'"
    using fill_utc_returns [of tt "extra_at (t + TAIatGPSzero) n" u] by auto
  then show ?thesis using n(2) Some by (simp add: TAItoUTC_def Let_def tt_def)
qed

lemma TAIsec_small: "\<exists>x. TAIsec t = of_int x \<and> - 9223372037 \<le> x \<and> x \<le> 9223372037"
proof -
  have b: "- (2 ^ 63) \<le> sint t" "sint t < 2 ^ 63"
    using sint_ge [of t] sint_lt [of t] by simp_all
  define q where "q = sint t sdiv ONESEC"
  have "\<bar>q\<bar> = \<bar>sint t\<bar> div 1000000000"
    by (simp add: q_def ONESEC_def signed_divide_int_def abs_mult sgn_if)
  moreover have "\<bar>sint t\<bar> \<le> 2 ^ 63" using b by simp
  then have "\<bar>sint t\<bar> div 1000000000 \<le> 2 ^ 63 div 1000000000" by (intro zdiv_mono1) simp_all
  ultimately have q: "\<bar>q\<bar> \<le> 9223372036" by simp
  show ?thesis
  proof (cases "sint t smod ONESEC < 500000000")
    case True
    then have "TAIsec t = of_int q" by (simp add: TAIsec_def TAI_split_def Let_def q_def)
    with q show ?thesis by (intro exI [of _ q]) auto
  next
    case False
    then have "TAIsec t = of_int (q + 1)" by (simp add: TAIsec_def TAI_split_def Let_def q_def)
    with q show ?thesis by (intro exI [of _ "q + 1"]) auto
  qed
qed

text \<open>C20: for every 64-bit number of nanoseconds, negative ones included, \<open>TAIntoUTC\<close> returns: its year loop ends.\<close>

theorem TAIntoUTC_terminates: "\<exists>r. TAIntoUTC t utc_ptr = Some r"
proof (cases "TAIsec t = 0")
  case True
  then show ?thesis by (simp add: TAIntoUTC_def)
next
  case False
  obtain x where x: "TAIsec t = of_int x" "- 9223372037 \<le> x" "x \<le> 9223372037"
    using TAIsec_small by blast
  have "- 719415 * 86400 \<le> sint (TAIsec t + TAIatGPSzero - of_int OFFS_TAI - of_int (int n))" if "n \<le> 27" for n
  proof -
    have w: "TAIsec t + TAIatGPSzero - of_int OFFS_TAI - of_int (int n) = of_int (x + 252892809 - int n)"
      by (simp add: x TAIatGPSzero_def)
    have "sint (of_int (x + 252892809 - int n) :: u64) = x + 252892809 - int n"
      using x that by (intro sint_of_int_small) simp_all
    with x that show ?thesis unfolding w by simp
  qed
  then show ?thesis using TAItoUTC_returns False by (simp add: TAIntoUTC_def Let_def)
qed

text \<open>Before the year 1 the truncating divisions break the loop: it goes back and forth between two years.\<close>

lemma year_loop_diverges: "year_loop 365 (- 3) = None"
proof (rule ccontr)
  assume "year_loop 365 (- 3) \<noteq> None"
  then obtain r where ret: "year_loop 365 (- 3) = Some r" by blast
  have "(365 :: int, - 3 :: int) \<notin> {(365, - 3), (- 1, - 2)}"
  proof (rule year_loop.raw_induct [where P = "\<lambda>d y r. (d, y) \<notin> {(365, - 3), (- 1, - 2)}", OF _ ret])
    fix f d y r
    assume IH: "\<And>d y r. f d y = Some r \<Longrightarrow> (d, y) \<notin> {(365, - 3), (- 1 :: int, - 2 :: int)}"
      and eq: "(if d < 0 \<or> (if ISLEAP y then 366 else 365) \<le> d
         then let yg = y + d sdiv 365 - (if d smod 365 < 0 then 1 else 0)
              in f (d - ((yg - y) * 365 + LEAPS_THRU_END_OF (yg - 1) - LEAPS_THRU_END_OF (y - 1))) yg
         else Some (d, y)) = Some r"
    show "(d, y) \<notin> {(365, - 3), (- 1, - 2)}"
      using eq IH [of "- 1" "- 2" r] IH [of 365 "- 3" r]
      by (auto simp: ISLEAP_def LEAPS_THRU_END_OF_def Let_def signed_divide_int_def signed_modulo_int_def)
  qed
  then show False by simp
qed

lemmas year_step_eval = ISLEAP_def LEAPS_THRU_END_OF_def Let_def signed_divide_int_def signed_modulo_int_def

lemma year_loop_before_year_1: "year_loop (- 720988) 1972 = year_loop 365 (- 3)"
proof -
  have "year_loop (- 720988) 1972 = year_loop 730 (- 4)"
    by (subst year_loop.simps) (simp add: year_step_eval)
  also have "\<dots> = year_loop (- 1) (- 2)"
    by (subst year_loop.simps) (simp add: year_step_eval)
  also have "\<dots> = year_loop 365 (- 3)"
    by (subst year_loop.simps) (simp add: year_step_eval)
  finally show ?thesis .
qed

lemma TAItoUTC_may_hang: "TAItoUTC 18446744011163295634 (Some u) = None"
proof -
  define T :: u64 where "T = 18446744011163295634 + TAIatGPSzero"
  have t: "T - of_int OFFS_TAI - of_int 27 = of_int (- 62293363200)" "leap_lookup T = Some (27, 0)"
    "\<not> T < of_int OFFS_TAI"
    unfolding T_def by code_simp+
  have "sint (of_int (- 62293363200) :: u64) = - 62293363200" by (rule sint_of_int_small) simp_all
  moreover have "fill_utc (- 62293363200) 0 u = None"
    using day_split [of "- 62293363200"]
    by (simp add: fill_utc_def rem_down_stop Let_def OFFS_YEAR_def year_loop_before_year_1 year_loop_diverges)
  ultimately show ?thesis
    using t by (simp only: TAItoUTC_def T_def [symmetric] Let_def option.case if_False Option.bind_lunit prod.case
        Option.bind_lzero)
qed

section \<open>The next leap second\<close>

text \<open>C38: with a 64-bit \<open>unsigned long\<close>, \<open>getNextLeap\<close> does not find the next leap second. The first entry of the table lies
  before GPS time zero, so its GPS time wraps to a huge number, and the search stops there: for every time
  below \<open>2 ^ 63\<close>, which are the GPS times that are not negative, the answer is the leap second of July 1972.\<close>

theorem getNextLeap_stuck_in_1972:
  assumes "t < 2 ^ 63"
  shows "getNextLeap t (Some l) = (True, Some \<lparr>transition = - 237168009, change = 11\<rparr>)"
proof -
  have l: "transition (leaps ! 0) - TAIatGPSzero = - 237168009" "change (leaps ! 0) = 1" by code_simp+
  have "(2 :: u64) ^ 63 < - 237168009" by code_simp
  with assms have "\<not> (- 237168009 :: u64) \<le> t" by (simp only: not_le order_less_trans)
  with l have "next_leap_index t 0 = 0" by (subst next_leap_index.simps) (simp only: if_False simp_thms)
  then show ?thesis by (simp add: getNextLeap_def num_leaps_def OFFS_LEAP_def l Let_def)
qed

theorem getNextLeap_stuck_in_1972_witness:
  "(1167264000 :: u64) < 2 ^ 63 \<and>
   getNextLeap 1167264000 (Some \<lparr>transition = 0, change = 0\<rparr>) =
     (True, Some \<lparr>transition = - 237168009, change = 11\<rparr>)"
  using getNextLeap_stuck_in_1972 [of 1167264000 "\<lparr>transition = 0, change = 0\<rparr>"] by simp

section \<open>The network form\<close>

lemma byte_step: "ucast (ucast w :: u8) OR push_bit 8 (drop_bit 8 w) = (w :: u64)"
proof (rule bit_word_eqI)
  fix n
  assume "n < LENGTH(64)"
  then show "bit (ucast (ucast w :: u8) OR push_bit 8 (drop_bit 8 w)) n = bit w n"
    by (cases "8 \<le> n") (auto simp: bit_simps)
qed

lemma from_le64_le64: "from_le64 (le64 w @ rest) = w"
proof -
  have d: "drop_bit 64 w = 0" by (rule bit_eqI) (auto simp: bit_simps dest: bit_imp_le_length)
  have e: "[0..<8] = [0,1,2,3,4,5,6,7::nat]" by code_simp
  have s: "ucast (ucast (drop_bit k w) :: u8) OR push_bit 8 (drop_bit (8 + k) w) = drop_bit k w" for k
    using byte_step [of "drop_bit k w"] by (simp add: add.commute)
  show ?thesis
    using s [of 0] s [of 8] s [of 16] s [of 24] s [of 32] s [of 40] s [of 48] s [of 56]
    by (simp add: from_le64_def le64_def e d)
qed

lemma bit_bswap32:
  "n < 32 \<Longrightarrow> bit (bswap32 x) n =
     bit x (if n < 8 then n + 24 else if n < 16 then n + 8 else if n < 24 then n - 8 else n - 24)"
  by (auto simp: bswap32_def bit_simps add.commute dest: bit_imp_le_length)

lemma bswap32_bswap32: "bswap32 (bswap32 x) = x"
proof (rule bit_word_eqI)
  fix n
  assume "n < LENGTH(32)"
  then consider "n < 8" | "8 \<le> n" "n < 16" | "16 \<le> n" "n < 24" | "24 \<le> n" "n < 32" by fastforce
  then show "bit (bswap32 (bswap32 x)) n = bit x n"
    by cases (auto simp: bit_bswap32)
qed

lemma htonl_htonl: "htonl (htonl w) = take_bit 32 w"
proof -
  have "ucast (ucast v :: u64) = (v :: u32)" for v
    by (rule bit_word_eqI) (simp add: bit_simps)
  then have "htonl (htonl w) = ucast (ucast w :: u32)" by (simp add: htonl_def bswap32_bswap32)
  also have "\<dots> = take_bit 32 w" by (rule bit_word_eqI) (auto simp: bit_simps)
  finally show ?thesis .
qed

lemma TAInsec_split: "TAInsec (Some (TAI_split t)) = t"
proof -
  have "sint t = ONESEC * (sint t sdiv ONESEC) + sint t smod ONESEC"
    using sdiv_mult_smod_eq [of "sint t" ONESEC] by (simp add: mult.commute)
  then have "of_int (sint t) = (of_int ONESEC * of_int (sint t sdiv ONESEC) + of_int (sint t smod ONESEC) :: u64)"
    by (metis of_int_add of_int_mult)
  then show ?thesis by (simp add: TAInsec_def TAI_split_def)
qed

lemma ntohTAI_htonTAI:
  assumes "0 \<le> sint t" "sint t < ONESEC * 2 ^ 32" "htonTAI t (Some buf) = Some (Some buf')"
  shows "ntohTAI (Some buf') = Some t"
proof -
  define q where "q = sint t div ONESEC"
  define r where "r = sint t mod ONESEC"
  have sp: "TAI_split t = \<lparr>tai_sec = of_int q, tai_nsec = r\<rparr>"
    using assms(1) by (simp add: TAI_split_def q_def r_def ONESEC_def sdiv_nonneg smod_nonneg)
  have q: "0 \<le> q" "q < 2 ^ 32" using assms(1,2) by (auto simp: q_def ONESEC_def intro: div_less_of_mult)
  have r: "0 \<le> r" "r < 1000000000" by (simp_all add: r_def ONESEC_def)
  have cut: "take_bit 32 (of_int x :: u64) = of_int x" if "0 \<le> x" "x < 2 ^ 32" for x
    using that by (simp add: take_bit_of_int take_bit_int_eq_self flip: of_int_take_bit)
  have "sint (of_int r :: u64) = r" using r by (intro sint_of_int_small) simp_all
  moreover have buf': "buf' = le64 (htonl (of_int q)) @ le64 (htonl (of_int r)) @ drop 16 buf" "\<not> length buf < 16"
    using assms(3) sp by (auto simp: htonTAI_def Let_def split: if_splits)
  moreover have "length (le64 w) = 8" for w by (simp add: le64_def)
  ultimately have "ntohTAI (Some buf') = Some (TAInsec (Some (TAI_split t)))"
    using q r by (simp add: ntohTAI_def from_le64_le64 htonl_htonl cut sp)
  then show ?thesis by (simp add: TAInsec_split)
qed

lemma htonTAI_overruns: "length buf = 8 \<Longrightarrow> TAIsec t \<noteq> 0 \<Longrightarrow> htonTAI t (Some buf) = None"
  by (simp add: htonTAI_def)

end
