(* ===== verification/Spec2Isabelle.thy ===== *)
theory Spec2Isabelle
  imports Crc Ramp CommData FilterSwitch EpicsXfer TestpointServer CoeffText DaqLoad DaqPick TimeLeap
begin

text \<open>
  A verification development for the real-time control software of the LIGO observatories: the run-time
  system that a generated control model is linked with, and the services around it. All file
  names below are relative to the root of the repository.

  \<^bold>\<open>The program.\<close> A front-end process runs a control model at a fixed rate. In every cycle it receives signals
  from other models (\<open>src/fe/commData3.c\<close>), passes them through filter modules
  (\<open>src/include/drv/fm10Gen.c\<close>), whose offsets and gains move by ramps (\<open>src/include/drv/tRamp.c\<close>), sends its results on,
  and exchanges settings and readbacks of one module with EPICS through shared memory
  (\<open>src/include/drv/epicsXfer.c\<close>). Filter coefficients come through shared memory from a reader on the EPICS side
  (\<open>src/drv/fmReadCoeff.c\<close>), guarded by a checksum (\<open>src/drv/crc.c\<close>), and are taken over piecemeal so that no
  cycle runs late. The data acquisition configuration is read from a file (\<open>src/drv/param.c\<close>); by it the front end records
  its signals, block by block, in shared memory for the network driver (\<open>src/include/drv/daqLib.c\<close>), and with them the test points
  that are selected. Test points
  are requested from, and published by, a manager service (\<open>src/gds/testpoint_server.c\<close>), which, like the other
  services, works with atomic time and converts it to UTC (\<open>src/gds/tconv.c\<close>).

  \<^bold>\<open>Theories.\<close>
  \<^item> \<open>Prelude\<close>: word types, C's division, shared facts on words and lists, reachability of a step relation,
    and the locales for indexed memory and for inductive invariants.
  \<^item> \<open>Ieee\<close>: \<open>double\<close> and \<open>float\<close> arithmetic, rounding to nearest even, executable; the order of
    comparisons as a locale.
  \<^item> \<open>Crc\<close>: \<open>crc_ptr\<close> and \<open>crc_len\<close> with their table; equality with bit-serial division and detection of bursts of up to 32 bits.
  \<^item> \<open>Ramp\<close>: the parameter ramp, \<open>RampParamInit\<close>, \<open>RampParamLoad\<close>, \<open>RampParamUpdate\<close>; a finished ramp stays, an
    immediate request holds, the state stays representable.
  \<^item> \<open>CommData\<close>: \<open>commData3Init\<close>, \<open>commData3Send\<close>, \<open>commData3Receive\<close> over the shared segments; delivery at the
    right moment between models of different rates, rejection of anything else, bounds, error reports.
  \<^item> \<open>Iir\<close>: the filter kernels over an arithmetic that is a parameter (exact numbers for the theorems, IEEE in the
    modules); the difference equations, the biquad form, the convolution.
  \<^item> \<open>FilterCoeff\<close>: the data of \<open>src/include/fm10Gen.h\<close>, publication by the EPICS side, loading at start,
    the reload state machine \<open>readCoefVme2\<close> and \<open>checkFiltReset\<close>, initialisation.
  \<^item> \<open>FilterReload\<close>: a reload completes in a bounded number of calls with exactly the published
    coefficients, and both sides compute the same checksum.
  \<^item> \<open>CString\<close>: what the text readers use of the C library: character classes, \<open>strtol\<close>, \<open>strtod\<close>, \<open>strtok_r\<close>,
    \<open>fgets\<close>.
  \<^item> \<open>CoeffFile\<close>, \<open>CoeffLoad\<close>, \<open>CoeffText\<close>: \<open>fmReadCoeffFile\<close> as a whole, from the names of the files to shared memory. \<open>CoeffLoad\<close>
    shows that no contents of the files take the reader out of its arrays, \<open>CoeffText\<close> that a file of filters is loaded
    exactly, refining a table of filters.
  \<^item> \<open>FilterModule\<close>: \<open>filterModuleD2\<close> as a whole; control mask, limiter, output switches, and the invariant that keeps
    the front end inside its arrays whatever the order of its operations.
  \<^item> \<open>FilterSwitch\<close>: how many calls a filter takes to switch, for every kind of switching that takes time.
  \<^item> \<open>EpicsXfer\<close>: \<open>updateEpics\<close>, \<open>updateFmSetpoints\<close>, \<open>checkEpicsReset\<close>, \<open>gainRamp\<close>; the operator's limit is enforced
    end to end, setpoints and readbacks, no overshoot, and a ramp that never arrives.
  \<^item> \<open>Testpoint\<close>, \<open>TestpointUsage\<close>, \<open>TestpointServer\<close>: the test point manager; its index as a table of users (a locale,
    interpreted on the index), and the remote procedures and tasks over it.
  \<^item> \<open>DaqConfig\<close>, \<open>DaqLoad\<close>: the configuration parsers and the channel table; checksum, archive, round trip
    and bounds. What the reader promises its callback is a locale, interpreted on \<open>infoCallback\<close>.
  \<^item> \<open>DaqDecim\<close>, \<open>DaqTable\<close>, \<open>DaqSelect\<close>, \<open>DaqWrite\<close>: the data acquisition of a front end: its decimation filters in both builds,
    the configuration and the channel table (\<open>daqConfig\<close>, \<open>loadLocalTable\<close>), the selection of test points and excitations,
    and \<open>daqWrite\<close> as a whole over the bytes of the shared memory.
  \<^item> \<open>DaqLayout\<close>, \<open>DaqCycle\<close>, \<open>DaqSlots\<close>, \<open>DaqChoice\<close>, \<open>DaqSafe\<close>: the parts of its invariant: how the channels are laid out, what a
    cycle writes, the slots of the test points and what is put into them, and the invariant over a call. \<open>DaqRun\<close> has it for all
    runs, the actions of the front end, the manager and the configuration reader included (the locale of inductive invariants,
    interpreted): bounds and the hand-over of blocks. \<open>DaqDeliver\<close> shows that the sample of a channel arrives in its place as
    a number of its type, \<open>DaqPick\<close> that the selections of the manager are followed and transmitted.
  \<^item> \<open>TimeConv\<close>, \<open>TimeCalendar\<close>, \<open>TimeLeap\<close>: the conversions, the Gregorian calendar they rest on, and the leap
    seconds: the fields of a broken-down time are right, the conversions are inverse, and the year loop ends.
  \<^item> This theory: a filter of a coefficient file reaches the front end.

  \<^bold>\<open>State and errors.\<close> C structures are records with the field names of the source where they do not clash;
  arrays are lists, and an access outside an array, an overflow that C leaves undefined and a wait that cannot end
  are values (\<open>None\<close>, or a constructor of the result type), so that a theorem that an operation returns says that none
  of them happens. Registers and checksums are words of their width. Counters that would need years to wrap
  (cycle counts of a switch, users, error counts) are unbounded integers.

  \<^bold>\<open>Floating point.\<close> Every operation of the modules is an IEEE operation on doubles; single precision is a double
  operation rounded once more, which is exact for one operation. The front end is
  compiled with \<open>-ffast-math\<close> (\<open>src/epics/util/feCodeGen.pl\<close>): the model is the code without the
  rearrangements that option permits. NaN payloads are not kept.

  \<^bold>\<open>Bounds.\<close> There is no fuel: every loop is a total function, by structural recursion or by a measure (the
  rest of the file for the parsers, the users left for the expiry), but for the year loop of the time conversion, which is
  a partial function with \<open>None\<close> for a call that does not return, and is proved to return for every time in nanoseconds. The bounds in theorems are the code's
  constants: ten filters of ten sections, 120 calls for a reload, 512 channels, 64 slots and 1000 users.

  \<^bold>\<open>Parameters.\<close> The channel database of the test point manager, the files and the checker script of the configuration
  loader, the files, disks and closes of the coefficient reader, the clock readings, the network segments of the communication code, and the EPICS and excitation
  memory that the data acquisition reads are arguments of the definitions.

  \<^bold>\<open>Not modelled.\<close> The control loops and hardware drivers (timing and device registers), the EPICS sequencer and
  the Perl code generator, the C++ services (\<open>daqd\<close>, \<open>nds\<close>, streams), the diagnostics tools and the data viewer.
  Of \<open>src/drv/fmReadCoeff.c\<close> the messages for the operator, \<open>printCoefs\<close> and \<open>fmCreatePartial\<close> (which appends to a name
  that was never set) are left out; the filter modules and the reader are those of the build without FIR filters. Of the
  test point
  manager the query and the start-up are left out. \<open>src/include/drv/seiwd.c\<close> works on a structure that the
  repository does not define. The data acquisition is that of the build with biquad filters and of a configuration that does
  not change its number of channels while the front end runs. The scheduler (\<open>src/gds/gdssched.c\<close>) and the waveform
  generator (\<open>src/gds/awg.c\<close>) are threads over the system's timers and are left out.
\<close>

section \<open>From the coefficient file to the front end\<close>

text \<open>A front end that is not reloading a module.\<close>

definition fe_ready :: "nat \<Rightarrow> int \<Rightarrow> fm_sys \<Rightarrow> bool" where
  "fe_ready b totMod s \<longleftrightarrow>
     b < length (coeffs s) \<and> b < length (inputs s) \<and> b < length (vinputs s) \<and> 0 < length (resetId s) \<and>
     int b < totMod \<and> coef_wf (coeffs s ! b) \<and> in_wf (inputs s ! b) \<and> vme_wf (slocal s) \<and>
     length (rchanged (resetId s ! 0)) = FILTERS \<and> fmResetCoeff (resetId s ! 0) = 0 \<and>
     fmResetCounter (resetId s ! 0) = 0 \<and> fmSubCounter (resetId s ! 0) = 0"

lemma fm_idle_published:
  "fe_ready b totMod s \<Longrightarrow> module_sound (vmes ! b) \<Longrightarrow> b < length vmes \<Longrightarrow> fm_idle vmes b totMod s"
  by (auto simp: fm_idle_def fe_ready_def sys_has_def module_sound_def filter_sound_def coef_range_def)

lemma reload_takes_filter:
  assumes "fm_idle vmes b totMod s" "rset (vinputs s ! b) AND 3 = 1" "holds_filter f bq (vmes ! b)" "filt_ok f"
    and "length bs = reload_calls (vmes ! b) [0..<FILTERS]"
  shows "\<exists>s'. check_run vmes pL totMod (int b # bs) s = Some s' \<and>
    filtSections (coeffs s' ! b) ! filt_num f = int_field f 3 \<and> sType (coeffs s' ! b) ! filt_num f = int_field f 2 \<and>
    take (length (filt_coeffs bq f)) (filtCoeff (coeffs s' ! b) ! filt_num f) = filt_coeffs bq f"
proof -
  let ?s = "s\<lparr>vinputs := (vinputs s)[b := (vinputs s ! b)\<lparr>rset := 0\<rparr>]\<rparr>"
  obtain st' where st': "check_run vmes pL totMod (int b # bs) s = Some (after_reload ?s b pL st')"
    "rcoef st' = fold (load_coef (vmes ! b)) [0..<FILTERS] (coeffs s ! b)"
    using reload_result [OF assms(1,2,5)] by blast
  have j: "filt_num f < 10" "0 < int_field f 3" "int_field f 3 \<le> 10" using assms(4) by (auto simp: filt_num_def filt_ok_def)
  have wf: "coef_wf (coeffs s ! b)" "vme_wf (vmes ! b)" "b < length (coeffs s)"
    using assms(1) by (auto simp: fm_idle_def sys_has_def)
  have h: "vfiltSections (vmes ! b) ! filt_num f = int_field f 3" "vsType (vmes ! b) ! filt_num f = int_field f 2"
    "take (length (filt_coeffs bq f)) (vfiltCoeff (vmes ! b) ! filt_num f) = filt_coeffs bq f"
    using assms(3) by (auto simp: holds_filter_def Let_def)
  have l: "length (filt_coeffs bq f) = coeff_count (vmes ! b) (filt_num f)"
    using header_coeffs(3) [OF assms(4), of bq] j h by (simp add: coeff_count_def nat_add_distrib nat_mult_distrib)
  have "filter_ok (vmes ! b) (filt_num f)" using j h by (simp add: filter_ok_def)
  with filter_loaded_fold [OF wf(1,2) j(1)] have "filtSections (rcoef st') ! filt_num f = int_field f 3"
    "sType (rcoef st') ! filt_num f = int_field f 2"
    "take (length (filt_coeffs bq f)) (filtCoeff (rcoef st') ! filt_num f) = filt_coeffs bq f"
    using h by (simp_all add: filter_loaded_def l [symmetric] flip: st'(2))
  moreover have "coeffs (after_reload ?s b pL st') ! b = rcoef st'"
    using wf(3) by (simp add: after_reload_def with_module_def)
  ultimately show ?thesis using st'(1) by (intro exI [of _ "after_reload ?s b pL st'"]) simp
qed

text \<open>C4: a coefficient file reaches the front end. The reader on the EPICS side accepts a file of filters and publishes it;
  when the operator then asks for a reload of a module that the file names, the front end has, after at most 120 further
  calls, exactly the sections, the switch type and the coefficients that the last entry of the file for a filter gives, in
  the form of the module.\<close>

theorem file_reaches_front_end:
  assumes "\<forall>g \<in> set fs. filt_ok g" "plain_env (file_text fs) env"
    and "n < length (subSystems fmc)" "ss = subSystems fmc ! n" "names_fit env gps fmc ss" "shared_ready ss vmes"
    and "distinct (map fmModNum (maps ss))"
    and "fs = fs1 @ f # fs2" "find_map (filt_bank f) (maps ss) 0 = Some i" "m = maps ss ! i"
    and "\<forall>g \<in> set fs2. filt_bank g = filt_bank f \<longrightarrow> filt_num g \<noteq> filt_num f"
    and "fe_ready (fmModNum m) totMod s" "rset (vinputs s ! fmModNum m) AND 3 = 1"
  shows "\<exists>res k. fmReadCoeffFile env fmc n gps vmes = Next res \<and> rcode res = 0 \<and> k \<le> 120 \<and>
    (\<forall>bs. length bs = k \<longrightarrow>
      (\<exists>s'. check_run (rvmes res) pL totMod (int (fmModNum m) # bs) s = Some s' \<and>
        filtSections (coeffs s' ! fmModNum m) ! filt_num f = int_field f 3 \<and>
        sType (coeffs s' ! fmModNum m) ! filt_num f = int_field f 2 \<and>
        take (length (filt_coeffs (mbiquad m) f)) (filtCoeff (coeffs s' ! fmModNum m) ! filt_num f) =
          filt_coeffs (mbiquad m) f))"
proof -
  define b where "b = fmModNum m"
  define ms where "ms = fold store_in fs (map clear_map (maps ss))"
  have clr: "\<forall>m \<in> set (map clear_map (maps ss)). module_sound (fmd m)" using zero_fmd_sound by (simp add: clear_map_def)
  have st: "statics ms = statics (maps ss)" by (simp add: ms_def statics_fold_store_in clear_map_statics)
  have i: "i < length (maps ss)" using find_map_bound [OF assms(9)] by simp
  have mi: "i < length ms" "fmModNum (ms ! i) = b" "mbiquad (ms ! i) = mbiquad m"
    using statics_nth [OF st [symmetric] i] assms(10) by (simp_all add: b_def)
  have dist: "distinct (map fmModNum ms)"
  proof -
    have "map fmModNum xs = map (fst \<circ> snd) (statics xs)" for xs by (simp add: statics_def)
    then show ?thesis using st assms(7) by simp
  qed
  obtain vmes' res where pub: "publish_maps ms vmes = Some vmes'"
    and res: "fmReadCoeffFile env fmc n gps vmes = Next res" "rcode res = 0" "rvmes res = vmes'"
    using read_filters_file [of fs env n fmc gps vmes] assms(1-6,8) unfolding ms_def by auto
  have sound: "\<forall>m \<in> set ms. module_sound (fmd m)"
    unfolding ms_def by (rule fold_store_in_sound [OF assms(1) clr])
  have vb: "vme_wf (vmes ! b)" "b < length vmes" using assms(6,10) i by (auto simp: shared_ready_def b_def)
  have v': "vmes' ! b = publish (fmd (ms ! i)) (mbiquad m) (vmes ! b)"
    using publish_maps_nth [OF pub dist mi(1)] mi by simp
  have "find_map (filt_bank f) (map clear_map (maps ss)) 0 = Some i"
    using find_map_statics [OF clear_map_statics] assms(9) by simp
  then have "holds_filter f (mbiquad (map clear_map (maps ss) ! i)) (fmd (ms ! i))"
    unfolding ms_def by (rule file_holds_filter [OF assms(1) clr assms(8) _ assms(11)])
  then have "holds_filter f (mbiquad m) (vmes' ! b)"
    unfolding v' using publish_holds assms(1,8,10) sound mi(1) vb(1) i by (simp add: clear_map_def)
  moreover have "module_sound (vmes' ! b)" unfolding v' using publish_sound sound mi(1) vb(1) by simp
  moreover have "b < length vmes'"
  proof -
    have "publish_maps xs v = Some v' \<Longrightarrow> length v' = length v" for xs v v'
      by (induction xs arbitrary: v) (auto split: if_splits)
    then show ?thesis using pub vb(2) by simp
  qed
  ultimately have "\<exists>s'. check_run vmes' pL totMod (int b # bs) s = Some s' \<and>
    filtSections (coeffs s' ! b) ! filt_num f = int_field f 3 \<and> sType (coeffs s' ! b) ! filt_num f = int_field f 2 \<and>
    take (length (filt_coeffs (mbiquad m) f)) (filtCoeff (coeffs s' ! b) ! filt_num f) = filt_coeffs (mbiquad m) f"
    if "length bs = reload_calls (vmes' ! b) [0..<FILTERS]" for bs
    using reload_takes_filter [OF fm_idle_published] assms(1,8,12,13) that by (simp add: b_def)
  moreover have "reload_calls (vmes' ! b) [0..<FILTERS] \<le> 120" by (rule reload_calls_bound)
  ultimately show ?thesis using res unfolding b_def by blast
qed

lemma ex_fe_ready: "fe_ready 0 1 ex_fm_sys" "rset (vinputs ex_fm_sys ! 0) AND 3 = 1"
  by code_simp+

theorem file_reaches_front_end_witness:
  "\<exists>res k. fmReadCoeffFile ex_env ex_fmc 0 0 [ex_vme] = Next res \<and> rcode res = 0 \<and> k \<le> 120 \<and>
    (\<forall>bs. length bs = k \<longrightarrow>
      (\<exists>s'. check_run (rvmes res) 5 1 (int 0 # bs) ex_fm_sys = Some s' \<and>
        filtSections (coeffs s' ! 0) ! filt_num ex_filt = int_field ex_filt 3 \<and>
        sType (coeffs s' ! 0) ! filt_num ex_filt = int_field ex_filt 2 \<and>
        take (length (filt_coeffs 0 ex_filt)) (filtCoeff (coeffs s' ! 0) ! filt_num ex_filt) = filt_coeffs 0 ex_filt))"
  using file_reaches_front_end [of "[ex_filt]" ex_env 0 ex_fmc "subSystems ex_fmc ! 0" 0 "[ex_vme]" "[]" ex_filt "[]" 0
      "maps (subSystems ex_fmc ! 0) ! 0" 1 ex_fm_sys 5] ex_env_ok ex_filt_ok ex_fe_ready
  by (simp add: ex_fmc_def ex_filt_def filt_bank_def)

end
